(* ===== verification/Snova_Prelude.thy ===== *)
theory Snova_Prelude
  imports Main "HOL-Library.Word"
begin

text \<open>
  The prelude of the development: names for the fixed-width integers of the code, byte
  strings, the big-endian conversions of \<^verbatim>\<open>snova/util/endian.h\<close> followed by
  \<^verbatim>\<open>memcpy\<close>, in-place writes into a buffer (\<open>blit\<close>, the model of
  \<^verbatim>\<open>memcpy\<close> and \<^verbatim>\<open>memmove\<close> into a span), and the C string assignment by
  \<^verbatim>\<open>snprintf(dst, sizeof dst, "%s", src)\<close>.  The collections \<open>wire_simps\<close> and
  \<open>buf_simps\<close> hold the equations the component proofs rewrite with.
\<close>

unbundle bit_operations_syntax

type_synonym u8 = "8 word"
type_synonym u16 = "16 word"
type_synonym u32 = "32 word"
type_synonym u64 = "64 word"
type_synonym bytes = "u8 list"

named_theorems wire_simps \<open>byte layout of integers and headers\<close>
named_theorems buf_simps \<open>writes into and reads from buffers\<close>

subsection \<open>Big-endian integers\<close>

text \<open>
  \<open>native_to_big\<close> is the byte sequence that \<^verbatim>\<open>native_to_big(v)\<close> has in memory on
  every host: its \<open>n\<close> bytes, the most significant first. \<open>big_to_native\<close> reads a
  sequence of bytes back.
\<close>

fun native_to_big :: "nat \<Rightarrow> 'a::len word \<Rightarrow> bytes" where
  "native_to_big 0 w = []"
| "native_to_big (Suc n) w = ucast (drop_bit (8 * n) w) # native_to_big n w"

definition be_step :: "'a::len word \<Rightarrow> u8 \<Rightarrow> 'a word" where
  "be_step acc b = push_bit 8 acc OR ucast b"

definition big_to_native :: "bytes \<Rightarrow> 'a::len word" where
  "big_to_native bs = foldl be_step 0 bs"

subsection \<open>Writes into a buffer\<close>

definition blit :: "nat \<Rightarrow> 'a list \<Rightarrow> 'a list \<Rightarrow> 'a list" where
  "blit off bs buf = take off buf @ bs @ drop (off + length bs) buf"

definition slice_of :: "nat \<Rightarrow> nat \<Rightarrow> 'a list \<Rightarrow> 'a list" where
  "slice_of off n buf = take n (drop off buf)"

subsection \<open>C strings\<close>

text \<open>\<^verbatim>\<open>snprintf(dst, n, "%s", s.c_str())\<close>: up to the first NUL, at most \<open>n - 1\<close> bytes.\<close>

definition snprintf_s :: "nat \<Rightarrow> bytes \<Rightarrow> bytes" where
  "snprintf_s n s = take (n - 1) (takeWhile (\<lambda>b. b \<noteq> 0) s)"

definition c_string :: "nat \<Rightarrow> bytes \<Rightarrow> bool" where
  "c_string n s \<longleftrightarrow> length s < n \<and> 0 \<notin> set s"

subsection \<open>Substring search\<close>

text \<open>\<^verbatim>\<open>std::string_view::find\<close>: the first position of \<open>pat\<close>, \<open>None\<close> for \<^verbatim>\<open>npos\<close>.\<close>

fun find_sub :: "'a list \<Rightarrow> 'a list \<Rightarrow> nat option" where
  "find_sub pat [] = (if pat = [] then Some 0 else None)"
| "find_sub pat (x # xs) =
     (if take (length pat) (x # xs) = pat then Some 0 else map_option Suc (find_sub pat xs))"

subsection \<open>Lemmas\<close>

lemma length_native_to_big [simp, wire_simps]: "length (native_to_big n w) = n"
  by (induction n) auto

lemma native_to_big_Nil_iff [simp]: "native_to_big n w = [] \<longleftrightarrow> n = 0"
  by (cases n) auto

lemma foldl_be_native:
  "foldl be_step acc (native_to_big n w) =
     push_bit (8 * n) acc OR take_bit (8 * n) (w :: 'a::len word)"
proof (induction n arbitrary: acc)
  case 0
  then show ?case by simp
next
  case (Suc n)
  have "push_bit (8 * n) (be_step acc (ucast (drop_bit (8 * n) w))) OR take_bit (8 * n) w =
        push_bit (8 * Suc n) acc OR take_bit (8 * Suc n) w"
    by (rule bit_word_eqI)
      (auto simp: be_step_def bit_push_bit_iff bit_or_iff bit_take_bit_iff bit_ucast_iff
        bit_drop_bit_eq not_le not_less add.commute)
  then show ?case by (simp only: native_to_big.simps foldl_Cons Suc.IH)
qed

lemma big_to_native_native_to_big:
  fixes w :: "'a::len word"
  assumes "LENGTH('a) \<le> 8 * n"
  shows "big_to_native (native_to_big n w) = w"
proof -
  have "take_bit (8 * n) w = w"
    using assms by (metis min.absorb2 take_bit_length_eq take_bit_take_bit)
  then show ?thesis by (simp add: big_to_native_def foldl_be_native)
qed

lemma big_to_native_u16 [simp, wire_simps]: "big_to_native (native_to_big 2 (w :: u16)) = w"
  and big_to_native_u32 [simp, wire_simps]: "big_to_native (native_to_big 4 (v :: u32)) = v"
  and big_to_native_u64 [simp, wire_simps]: "big_to_native (native_to_big 8 (x :: u64)) = x"
  by (rule big_to_native_native_to_big, simp)+

lemma unat_ucast_up:
  fixes w :: "'a::len word"
  assumes "LENGTH('a) \<le> LENGTH('b)"
  shows "unat (ucast w :: 'b::len word) = unat w"
proof -
  have "unat w < 2 ^ LENGTH('b)"
    using unsigned_less [of w, where ?'a = nat] assms
    by (meson less_le_trans one_le_numeral power_increasing)
  then show ?thesis by (simp add: unsigned_ucast_eq take_bit_nat_eq_self)
qed

lemma unat_ucast_u16_u32 [simp]: "unat (ucast (w :: u16) :: u32) = unat w"
  by (rule unat_ucast_up) simp

lemma length_blit [simp, buf_simps]:
  "off + length bs \<le> length buf \<Longrightarrow> length (blit off bs buf) = length buf"
  by (simp add: blit_def)

lemma blit_0 [buf_simps]: "blit 0 bs buf = bs @ drop (length bs) buf"
  by (simp add: blit_def)

lemma take_blit_upto [buf_simps]:
  "off \<le> length buf \<Longrightarrow> take (off + length bs) (blit off bs buf) = take off buf @ bs"
  by (simp add: blit_def)

lemma slice_of_blit_same [buf_simps]:
  "off \<le> length buf \<Longrightarrow> slice_of off (length bs) (blit off bs buf) = bs"
  by (simp add: slice_of_def blit_def)

lemma drop_blit [buf_simps]:
  "off \<le> length buf \<Longrightarrow> drop off (blit off bs buf) = bs @ drop (off + length bs) buf"
  by (simp add: blit_def)

lemma length_slice_of [simp]: "off + n \<le> length buf \<Longrightarrow> length (slice_of off n buf) = n"
  by (simp add: slice_of_def)

lemma c_string_snprintf: "0 < n \<Longrightarrow> c_string n (snprintf_s n s)"
  by (auto simp: c_string_def snprintf_s_def dest!: in_set_takeD set_takeWhileD)

lemma snprintf_c_string: "c_string n s \<Longrightarrow> snprintf_s n s = s"
proof -
  assume "c_string n s"
  then have "takeWhile (\<lambda>b. b \<noteq> 0) s = s" and "length s \<le> n - 1"
    by (auto simp: c_string_def takeWhile_eq_all_conv)
  then show ?thesis by (simp add: snprintf_s_def del: takeWhile_eq_all_conv)
qed

lemma find_sub_SomeD:
  "find_sub pat s = Some i \<Longrightarrow> i + length pat \<le> length s \<and> take (length pat) (drop i s) = pat"
proof (induction s arbitrary: i)
  case Nil
  then show ?case by (auto split: if_splits)
next
  case (Cons x xs)
  show ?case
  proof (cases "take (length pat) (x # xs) = pat")
    case True
    then have "length pat \<le> length (x # xs)" by (metis length_take min.cobounded1)
    with True Cons.prems show ?thesis by (simp split: if_splits)
  next
    case False
    with Cons.prems obtain j where "find_sub pat xs = Some j" "i = Suc j" by auto
    with Cons.IH show ?thesis by auto
  qed
qed

lemma find_sub_append:
  "find_sub pat s = Some i \<Longrightarrow> find_sub pat (s @ t) = Some i"
proof (induction s arbitrary: i)
  case Nil
  then show ?case by (cases t) (auto split: if_splits)
next
  case (Cons x xs)
  have "length pat \<le> length (x # xs)" using find_sub_SomeD [OF Cons.prems] by simp
  then have "take (length pat) ((x # xs) @ t) = take (length pat) (x # xs)"
    by (simp only: take_append) simp
  with Cons show ?case by (auto split: if_splits)
qed

lemma find_sub_hit:
  "take (length pat) (drop k s) = pat \<Longrightarrow> k \<le> length s \<Longrightarrow> \<exists>i\<le>k. find_sub pat s = Some i"
proof (induction s arbitrary: k)
  case Nil
  then show ?case by auto
next
  case (Cons x xs)
  show ?case
  proof (cases k)
    case 0
    with Cons.prems show ?thesis by simp
  next
    case (Suc k')
    with Cons.IH [of k'] Cons.prems show ?thesis by auto
  qed
qed

end
