(* ===== verification/Mux_Event.thy ===== *)
theory Mux_Event
  imports Snova_Prelude
begin

text \<open>
  The mux protocol's events: \<^verbatim>\<open>snova/mux/mux_event.h\<close>, \<^verbatim>\<open>mux_event.cc\<close> and the
  message structs of \<^verbatim>\<open>mux_event.pb.h\<close>.  The eight-byte event head is encoded and
  decoded byte by byte.  The protobuf bodies are handed to nanopb, which is not part of the
  repository: its \<^verbatim>\<open>pb_encode_delimited\<close> and \<^verbatim>\<open>pb_decode_delimited\<close> are the fields
  of the parameter \<open>pb_lib\<close>, and \<open>pb_lib_ok\<close> states what nanopb documents of them.
\<close>

subsection \<open>Constants\<close>

abbreviation (input) kEventHeadSize :: nat where "kEventHeadSize \<equiv> 8"
abbreviation (input) kMaxChunkSize :: nat where "kMaxChunkSize \<equiv> 8192"
abbreviation (input) kReservedBufferSize :: nat where "kReservedBufferSize \<equiv> 256"

abbreviation (input) ERR_NEED_MORE_INPUT_DATA :: int where "ERR_NEED_MORE_INPUT_DATA \<equiv> - 1000"
abbreviation (input) ERR_NEED_MORE_OUTPUT_BUFFER :: int where "ERR_NEED_MORE_OUTPUT_BUFFER \<equiv> - 1001"
abbreviation (input) ERR_INVALID_EVENT :: int where "ERR_INVALID_EVENT \<equiv> - 1002"
abbreviation (input) ERR_TOO_LARGE_EVENT_ENCODE_CONTENT :: int where
  "ERR_TOO_LARGE_EVENT_ENCODE_CONTENT \<equiv> - 1003"
abbreviation (input) ERR_READ_EOF :: int where "ERR_READ_EOF \<equiv> - 1005"
abbreviation (input) ERR_TOO_SMALL_EVENT_DECODE_CONTENT :: int where
  "ERR_TOO_SMALL_EVENT_DECODE_CONTENT \<equiv> - 1006"
abbreviation (input) ERR_PB_ENCODE :: int where "ERR_PB_ENCODE \<equiv> - 1007"
abbreviation (input) ERR_PB_DECODE :: int where "ERR_PB_DECODE \<equiv> - 1008"
abbreviation (input) ERR_EMPTY_MUX_SESSION :: int where "ERR_EMPTY_MUX_SESSION \<equiv> - 1009"
abbreviation (input) ERR_CIPHER_HEADER_ENCRYPT :: int where "ERR_CIPHER_HEADER_ENCRYPT \<equiv> - 1010"
abbreviation (input) ERR_CIPHER_HEADER_DECRYPT :: int where "ERR_CIPHER_HEADER_DECRYPT \<equiv> - 1011"
abbreviation (input) ERR_CIPHER_BODY_ENCRYPT :: int where "ERR_CIPHER_BODY_ENCRYPT \<equiv> - 1012"
abbreviation (input) ERR_CIPHER_BODY_DECRYPT :: int where "ERR_CIPHER_BODY_DECRYPT \<equiv> - 1013"

abbreviation (input) EVENT_AUTH_REQ :: u8 where "EVENT_AUTH_REQ \<equiv> 1"
abbreviation (input) EVENT_AUTH_RES :: u8 where "EVENT_AUTH_RES \<equiv> 2"
abbreviation (input) EVENT_STREAM_OPEN :: u8 where "EVENT_STREAM_OPEN \<equiv> 3"
abbreviation (input) EVENT_STREAM_CLOSE :: u8 where "EVENT_STREAM_CLOSE \<equiv> 4"
abbreviation (input) EVENT_STREAM_CHUNK :: u8 where "EVENT_STREAM_CHUNK \<equiv> 5"
abbreviation (input) EVENT_RETIRE_CONN_REQ :: u8 where "EVENT_RETIRE_CONN_REQ \<equiv> 6"
abbreviation (input) EVENT_TUNNEL_OPEN_REQ :: u8 where "EVENT_TUNNEL_OPEN_REQ \<equiv> 7"
abbreviation (input) EVENT_TUNNEL_OPEN_RSP :: u8 where "EVENT_TUNNEL_OPEN_RSP \<equiv> 8"
abbreviation (input) EVENT_TUNNEL_CLOSE_REQ :: u8 where "EVENT_TUNNEL_CLOSE_REQ \<equiv> 9"
abbreviation (input) EVENT_COMMON_RES :: u8 where "EVENT_COMMON_RES \<equiv> 100"

subsection \<open>The event head\<close>

record MuxFlags =
  body_no_encrypt :: bool
  reserved :: "7 word"

record MuxEventHead =
  head_sid :: u32
  head_len :: u16
  head_type :: u8
  head_flags :: MuxFlags

definition MuxFlags_init :: MuxFlags where
  "MuxFlags_init = \<lparr>body_no_encrypt = False, reserved = 0\<rparr>"

definition MuxEventHead_init :: MuxEventHead where
  "MuxEventHead_init = \<lparr>head_sid = 0, head_len = 0, head_type = 0, head_flags = MuxFlags_init\<rparr>"

text \<open>The one byte that \<^verbatim>\<open>memcpy(..., &flags, 1)\<close> moves: the first bit field is the low bit.\<close>

definition flags_byte :: "MuxFlags \<Rightarrow> u8" where
  "flags_byte f = of_bool (body_no_encrypt f) OR push_bit 1 (ucast (reserved f))"

definition flags_of_byte :: "u8 \<Rightarrow> MuxFlags" where
  "flags_of_byte b = \<lparr>body_no_encrypt = bit b 0, reserved = ucast (drop_bit 1 b)\<rparr>"

definition MuxEventHead_Encode :: "MuxEventHead \<Rightarrow> bytes \<Rightarrow> int \<times> bytes" where
  "MuxEventHead_Encode h buffer =
     (if length buffer < kEventHeadSize then (- 1, buffer)
      else let b1 = blit 0 (native_to_big 4 (head_sid h)) buffer;
               b2 = blit 4 (native_to_big 2 (head_len h)) b1;
               b3 = b2[6 := head_type h];
               b4 = blit 7 [flags_byte (head_flags h)] b3
           in (0, b4))"

definition MuxEventHead_Decode :: "MuxEventHead \<Rightarrow> bytes \<Rightarrow> int \<times> MuxEventHead" where
  "MuxEventHead_Decode h buffer =
     (if length buffer < kEventHeadSize then (- 1, h)
      else (0, \<lparr>head_sid = big_to_native (slice_of 0 4 buffer),
               head_len = big_to_native (slice_of 4 2 buffer),
               head_type = buffer ! 6,
               head_flags = flags_of_byte (buffer ! 7)\<rparr>))"

subsection \<open>The message structs\<close>

record snova_AuthRequest =
  ar_user :: bytes
  ar_client_id :: u64
  ar_is_entry :: bool
  ar_is_exit :: bool
  ar_is_middle :: bool

record snova_AuthResponse =
  as_success :: bool
  as_iv :: u64

record snova_CommonResponse =
  cr_success :: bool
  cr_errc :: u32
  cr_reason :: bytes

record snova_StreamOpenRequest =
  so_remote_host :: bytes
  so_remote_port :: u32
  so_is_tcp :: bool
  so_is_tls :: bool

record snova_TunnelCloseRequest =
  tc_tunnel_id :: u64

record snova_TunnelOpenRequest =
  to_local_host :: bytes
  to_local_port :: u32
  to_remote_port :: u32
  to_is_tcp :: bool

record snova_TunnelOpenResponse =
  tr_success :: bool
  tr_tunnel_id :: u64
  tr_errc :: u32

definition snova_AuthRequest_init_default :: snova_AuthRequest where
  "snova_AuthRequest_init_default =
     \<lparr>ar_user = [], ar_client_id = 0, ar_is_entry = False, ar_is_exit = False, ar_is_middle = False\<rparr>"
definition snova_AuthResponse_init_default :: snova_AuthResponse where
  "snova_AuthResponse_init_default = \<lparr>as_success = False, as_iv = 0\<rparr>"
definition snova_CommonResponse_init_default :: snova_CommonResponse where
  "snova_CommonResponse_init_default = \<lparr>cr_success = False, cr_errc = 0, cr_reason = []\<rparr>"
definition snova_StreamOpenRequest_init_default :: snova_StreamOpenRequest where
  "snova_StreamOpenRequest_init_default =
     \<lparr>so_remote_host = [], so_remote_port = 0, so_is_tcp = False, so_is_tls = False\<rparr>"
definition snova_TunnelOpenRequest_init_default :: snova_TunnelOpenRequest where
  "snova_TunnelOpenRequest_init_default =
     \<lparr>to_local_host = [], to_local_port = 0, to_remote_port = 0, to_is_tcp = False\<rparr>"
definition snova_TunnelOpenResponse_init_default :: snova_TunnelOpenResponse where
  "snova_TunnelOpenResponse_init_default = \<lparr>tr_success = False, tr_tunnel_id = 0, tr_errc = 0\<rparr>"
definition snova_TunnelCloseRequest_init_default :: snova_TunnelCloseRequest where
  "snova_TunnelCloseRequest_init_default = \<lparr>tc_tunnel_id = 0\<rparr>"

subsection \<open>nanopb, a parameter of the model\<close>

text \<open>
  \<^verbatim>\<open>pb_encode_delimited\<close> takes the message and the space of the output stream, and fails
  with \<open>None\<close> or gives the bytes written; \<^verbatim>\<open>pb_decode_delimited\<close> fails with \<open>None\<close> or
  gives the message.
\<close>

record 'm pb_codec =
  pb_encode_delimited :: "'m \<Rightarrow> nat \<Rightarrow> bytes option"
  pb_decode_delimited :: "bytes \<Rightarrow> 'm option"

record pb_lib =
  AuthRequest_fields :: "snova_AuthRequest pb_codec"
  AuthResponse_fields :: "snova_AuthResponse pb_codec"
  CommonResponse_fields :: "snova_CommonResponse pb_codec"
  StreamOpenRequest_fields :: "snova_StreamOpenRequest pb_codec"
  TunnelOpenRequest_fields :: "snova_TunnelOpenRequest pb_codec"
  TunnelOpenResponse_fields :: "snova_TunnelOpenResponse pb_codec"
  TunnelCloseRequest_fields :: "snova_TunnelCloseRequest pb_codec"

subsection \<open>Events\<close>

datatype mux_body =
    AuthRequest snova_AuthRequest
  | AuthResponse snova_AuthResponse
  | RetireConnRequest
  | StreamOpenRequest snova_StreamOpenRequest
  | StreamCloseRequest
  | StreamChunk (chunk: bytes) (chunk_len: u32)
  | CommonResponse snova_CommonResponse
  | TunnelOpenRequest snova_TunnelOpenRequest
  | TunnelOpenResponse snova_TunnelOpenResponse
  | TunnelCloseRequest snova_TunnelCloseRequest

record MuxEvent =
  ev_head :: MuxEventHead
  ev_body :: mux_body

text \<open>The type code that the constructor of each event struct stores in its head.\<close>

fun event_type :: "mux_body \<Rightarrow> u8" where
  "event_type (AuthRequest _) = EVENT_AUTH_REQ"
| "event_type (AuthResponse _) = EVENT_AUTH_RES"
| "event_type RetireConnRequest = EVENT_RETIRE_CONN_REQ"
| "event_type (StreamOpenRequest _) = EVENT_STREAM_OPEN"
| "event_type StreamCloseRequest = EVENT_STREAM_CLOSE"
| "event_type (StreamChunk _ _) = EVENT_STREAM_CHUNK"
| "event_type (CommonResponse _) = EVENT_COMMON_RES"
| "event_type (TunnelOpenRequest _) = EVENT_TUNNEL_OPEN_REQ"
| "event_type (TunnelOpenResponse _) = EVENT_TUNNEL_OPEN_RSP"
| "event_type (TunnelCloseRequest _) = EVENT_TUNNEL_CLOSE_REQ"

definition make_event :: "mux_body \<Rightarrow> MuxEvent" where
  "make_event b = \<lparr>ev_head = MuxEventHead_init\<lparr>head_type := event_type b\<rparr>, ev_body = b\<rparr>"

definition MuxEvent_NewEvent :: "MuxEventHead \<Rightarrow> MuxEvent option" where
  "MuxEvent_NewEvent h =
     (let t = head_type h in
      map_option (\<lambda>b. \<lparr>ev_head = h, ev_body = b\<rparr>)
       (if t = EVENT_AUTH_REQ then Some (AuthRequest snova_AuthRequest_init_default)
        else if t = EVENT_AUTH_RES then Some (AuthResponse snova_AuthResponse_init_default)
        else if t = EVENT_STREAM_OPEN then Some (StreamOpenRequest snova_StreamOpenRequest_init_default)
        else if t = EVENT_STREAM_CLOSE then Some StreamCloseRequest
        else if t = EVENT_STREAM_CHUNK then Some (StreamChunk [] 0)
        else if t = EVENT_RETIRE_CONN_REQ then Some RetireConnRequest
        else if t = EVENT_TUNNEL_OPEN_REQ then Some (TunnelOpenRequest snova_TunnelOpenRequest_init_default)
        else if t = EVENT_TUNNEL_OPEN_RSP then Some (TunnelOpenResponse snova_TunnelOpenResponse_init_default)
        else if t = EVENT_TUNNEL_CLOSE_REQ then Some (TunnelCloseRequest snova_TunnelCloseRequest_init_default)
        else if t = EVENT_COMMON_RES then Some (CommonResponse snova_CommonResponse_init_default)
        else None))"

subsection \<open>Encode and Decode of the bodies\<close>

text \<open>
  \<open>Encode\<close> takes the size of the output span and returns the return code, or the contents
  of the span after its \<^verbatim>\<open>remove_suffix\<close>.  \<open>Decode\<close> returns the code or the new body.
\<close>

definition pb_Encode :: "'m pb_codec \<Rightarrow> 'm \<Rightarrow> nat \<Rightarrow> int + bytes" where
  "pb_Encode c m room =
     (case pb_encode_delimited c m room of None \<Rightarrow> Inl ERR_PB_ENCODE | Some bs \<Rightarrow> Inr bs)"

definition pb_Decode :: "'m pb_codec \<Rightarrow> bytes \<Rightarrow> int + 'm" where
  "pb_Decode c buffer =
     (case pb_decode_delimited c buffer of None \<Rightarrow> Inl ERR_PB_DECODE | Some m \<Rightarrow> Inr m)"

definition AuthRequest_Encode where
  "AuthRequest_Encode L m room = pb_Encode (AuthRequest_fields L) m room"
definition AuthRequest_Decode where
  "AuthRequest_Decode L buffer = map_sum id AuthRequest (pb_Decode (AuthRequest_fields L) buffer)"
definition AuthResponse_Encode where
  "AuthResponse_Encode L m room = pb_Encode (AuthResponse_fields L) m room"
definition AuthResponse_Decode where
  "AuthResponse_Decode L buffer = map_sum id AuthResponse (pb_Decode (AuthResponse_fields L) buffer)"
definition StreamOpenRequest_Encode where
  "StreamOpenRequest_Encode L m room = pb_Encode (StreamOpenRequest_fields L) m room"
definition StreamOpenRequest_Decode where
  "StreamOpenRequest_Decode L buffer =
     map_sum id StreamOpenRequest (pb_Decode (StreamOpenRequest_fields L) buffer)"
definition StreamCloseRequest_Encode :: "nat \<Rightarrow> int + bytes" where
  "StreamCloseRequest_Encode room = Inr []"
definition StreamCloseRequest_Decode :: "bytes \<Rightarrow> int + mux_body" where
  "StreamCloseRequest_Decode buffer = Inr StreamCloseRequest"
definition RetireConnRequest_Encode :: "nat \<Rightarrow> int + bytes" where
  "RetireConnRequest_Encode room = Inr []"
definition RetireConnRequest_Decode :: "bytes \<Rightarrow> int + mux_body" where
  "RetireConnRequest_Decode buffer = Inr RetireConnRequest"

definition StreamChunk_Encode :: "bytes \<Rightarrow> u32 \<Rightarrow> nat \<Rightarrow> int + bytes" where
  "StreamChunk_Encode data clen room =
     (if room < unat clen then Inl ERR_TOO_LARGE_EVENT_ENCODE_CONTENT
      else if 0 < clen then Inr (take (unat clen) data)
      else Inr [])"

definition StreamChunk_Decode :: "MuxEventHead \<Rightarrow> bytes \<Rightarrow> int + mux_body" where
  "StreamChunk_Decode h buffer =
     (let clen = ucast (head_len h) :: u32 in
      if 2 * kMaxChunkSize < unat clen then Inl ERR_INVALID_EVENT
      else if length buffer < unat clen then Inl ERR_TOO_SMALL_EVENT_DECODE_CONTENT
      else Inr (StreamChunk (take (unat clen) buffer) clen))"

definition CommonResponse_Encode where
  "CommonResponse_Encode L m room = pb_Encode (CommonResponse_fields L) m room"
definition CommonResponse_Decode where
  "CommonResponse_Decode L buffer = map_sum id CommonResponse (pb_Decode (CommonResponse_fields L) buffer)"
definition TunnelOpenRequest_Encode where
  "TunnelOpenRequest_Encode L m room = pb_Encode (TunnelOpenRequest_fields L) m room"
definition TunnelOpenRequest_Decode where
  "TunnelOpenRequest_Decode L buffer =
     map_sum id TunnelOpenRequest (pb_Decode (TunnelOpenRequest_fields L) buffer)"
definition TunnelOpenResponse_Encode where
  "TunnelOpenResponse_Encode L m room = pb_Encode (TunnelOpenResponse_fields L) m room"
definition TunnelOpenResponse_Decode where
  "TunnelOpenResponse_Decode L buffer =
     map_sum id TunnelOpenResponse (pb_Decode (TunnelOpenResponse_fields L) buffer)"
definition TunnelCloseRequest_Encode where
  "TunnelCloseRequest_Encode L m room = pb_Encode (TunnelCloseRequest_fields L) m room"
definition TunnelCloseRequest_Decode where
  "TunnelCloseRequest_Decode L buffer =
     map_sum id TunnelCloseRequest (pb_Decode (TunnelCloseRequest_fields L) buffer)"

lemmas body_codec_defs =
  AuthRequest_Encode_def AuthRequest_Decode_def AuthResponse_Encode_def AuthResponse_Decode_def
  StreamOpenRequest_Encode_def StreamOpenRequest_Decode_def StreamCloseRequest_Encode_def
  StreamCloseRequest_Decode_def RetireConnRequest_Encode_def RetireConnRequest_Decode_def
  CommonResponse_Encode_def CommonResponse_Decode_def TunnelOpenRequest_Encode_def
  TunnelOpenRequest_Decode_def TunnelOpenResponse_Encode_def TunnelOpenResponse_Decode_def
  TunnelCloseRequest_Encode_def TunnelCloseRequest_Decode_def pb_Encode_def pb_Decode_def

text \<open>The virtual calls \<^verbatim>\<open>event->Encode\<close> and \<^verbatim>\<open>event->Decode\<close>.\<close>

fun MuxEvent_Encode :: "pb_lib \<Rightarrow> mux_body \<Rightarrow> nat \<Rightarrow> int + bytes" where
  "MuxEvent_Encode L (AuthRequest m) room = AuthRequest_Encode L m room"
| "MuxEvent_Encode L (AuthResponse m) room = AuthResponse_Encode L m room"
| "MuxEvent_Encode L RetireConnRequest room = RetireConnRequest_Encode room"
| "MuxEvent_Encode L (StreamOpenRequest m) room = StreamOpenRequest_Encode L m room"
| "MuxEvent_Encode L StreamCloseRequest room = StreamCloseRequest_Encode room"
| "MuxEvent_Encode L (StreamChunk c n) room = StreamChunk_Encode c n room"
| "MuxEvent_Encode L (CommonResponse m) room = CommonResponse_Encode L m room"
| "MuxEvent_Encode L (TunnelOpenRequest m) room = TunnelOpenRequest_Encode L m room"
| "MuxEvent_Encode L (TunnelOpenResponse m) room = TunnelOpenResponse_Encode L m room"
| "MuxEvent_Encode L (TunnelCloseRequest m) room = TunnelCloseRequest_Encode L m room"

fun MuxEvent_Decode :: "pb_lib \<Rightarrow> MuxEventHead \<Rightarrow> mux_body \<Rightarrow> bytes \<Rightarrow> int + mux_body" where
  "MuxEvent_Decode L h (AuthRequest _) buffer = AuthRequest_Decode L buffer"
| "MuxEvent_Decode L h (AuthResponse _) buffer = AuthResponse_Decode L buffer"
| "MuxEvent_Decode L h RetireConnRequest buffer = RetireConnRequest_Decode buffer"
| "MuxEvent_Decode L h (StreamOpenRequest _) buffer = StreamOpenRequest_Decode L buffer"
| "MuxEvent_Decode L h StreamCloseRequest buffer = StreamCloseRequest_Decode buffer"
| "MuxEvent_Decode L h (StreamChunk _ _) buffer = StreamChunk_Decode h buffer"
| "MuxEvent_Decode L h (CommonResponse _) buffer = CommonResponse_Decode L buffer"
| "MuxEvent_Decode L h (TunnelOpenRequest _) buffer = TunnelOpenRequest_Decode L buffer"
| "MuxEvent_Decode L h (TunnelOpenResponse _) buffer = TunnelOpenResponse_Decode L buffer"
| "MuxEvent_Decode L h (TunnelCloseRequest _) buffer = TunnelCloseRequest_Decode L buffer"

subsection \<open>What nanopb documents\<close>

text \<open>
  A message whose strings fit their arrays encodes into every stream with at least the
  maximal encoded size of \<^verbatim>\<open>mux_event.pb.h\<close> plus a two-byte length prefix; the encoding
  is not empty, keeps that bound, and decodes to the message.
\<close>

definition pb_ok :: "('m \<Rightarrow> bool) \<Rightarrow> nat \<Rightarrow> 'm pb_codec \<Rightarrow> bool" where
  "pb_ok valid mx c \<longleftrightarrow>
     (\<forall>m k. valid m \<longrightarrow> mx + 2 \<le> k \<longrightarrow>
        (\<exists>bs. pb_encode_delimited c m k = Some bs \<and> bs \<noteq> [] \<and> length bs \<le> mx + 2 \<and>
              pb_decode_delimited c bs = Some m))"

definition wf_AuthRequest :: "snova_AuthRequest \<Rightarrow> bool" where
  "wf_AuthRequest m \<longleftrightarrow> c_string 256 (ar_user m)"
definition wf_CommonResponse :: "snova_CommonResponse \<Rightarrow> bool" where
  "wf_CommonResponse m \<longleftrightarrow> c_string 512 (cr_reason m)"
definition wf_StreamOpenRequest :: "snova_StreamOpenRequest \<Rightarrow> bool" where
  "wf_StreamOpenRequest m \<longleftrightarrow> c_string 512 (so_remote_host m)"
definition wf_TunnelOpenRequest :: "snova_TunnelOpenRequest \<Rightarrow> bool" where
  "wf_TunnelOpenRequest m \<longleftrightarrow> c_string 512 (to_local_host m)"

definition pb_lib_ok :: "pb_lib \<Rightarrow> bool" where
  "pb_lib_ok L \<longleftrightarrow>
     pb_ok wf_AuthRequest 275 (AuthRequest_fields L) \<and>
     pb_ok (\<lambda>_. True) 13 (AuthResponse_fields L) \<and>
     pb_ok wf_CommonResponse 527 (CommonResponse_fields L) \<and>
     pb_ok wf_StreamOpenRequest 524 (StreamOpenRequest_fields L) \<and>
     pb_ok wf_TunnelOpenRequest 528 (TunnelOpenRequest_fields L) \<and>
     pb_ok (\<lambda>_. True) 24 (TunnelOpenResponse_fields L) \<and>
     pb_ok (\<lambda>_. True) 11 (TunnelCloseRequest_fields L)"

text \<open>
  Well-formed bodies: strings that fit their arrays; a chunk whose length field is the
  number of bytes it carries, at most \<open>lim\<close>.
\<close>

fun wf_body :: "nat \<Rightarrow> mux_body \<Rightarrow> bool" where
  "wf_body lim (AuthRequest m) = wf_AuthRequest m"
| "wf_body lim (CommonResponse m) = wf_CommonResponse m"
| "wf_body lim (StreamOpenRequest m) = wf_StreamOpenRequest m"
| "wf_body lim (TunnelOpenRequest m) = wf_TunnelOpenRequest m"
| "wf_body lim (StreamChunk c n) = (length c = unat n \<and> length c \<le> lim)"
| "wf_body lim _ = True"

definition wf_event :: "nat \<Rightarrow> MuxEvent \<Rightarrow> bool" where
  "wf_event lim e \<longleftrightarrow> head_type (ev_head e) = event_type (ev_body e) \<and> wf_body lim (ev_body e)"

subsection \<open>Lemmas on heads\<close>

definition head_bytes :: "MuxEventHead \<Rightarrow> bytes" where
  "head_bytes h = native_to_big 4 (head_sid h) @ native_to_big 2 (head_len h) @
     [head_type h, flags_byte (head_flags h)]"

lemma length_head_bytes [simp, wire_simps]: "length (head_bytes h) = 8"
  by (simp add: head_bytes_def)

lemma flags_roundtrip [simp, wire_simps]: "flags_of_byte (flags_byte f) = f"
proof -
  have "ucast (drop_bit 1 (flags_byte f)) = reserved f"
    by (rule bit_word_eqI)
      (auto simp: flags_byte_def bit_drop_bit_eq bit_ucast_iff bit_or_iff bit_push_bit_iff
        bit_of_bool_iff simp del: push_bit_Suc)
  moreover have "bit (flags_byte f) 0 = body_no_encrypt f"
    by (simp add: flags_byte_def bit_or_iff bit_push_bit_iff bit_of_bool_iff del: push_bit_Suc)
  ultimately show ?thesis by (simp add: flags_of_byte_def)
qed

lemma flags_byte_inverse: "flags_byte (flags_of_byte b) = b"
proof -
  have eq: "bit (of_bool (bit b 0) OR push_bit 1 (ucast (ucast (drop_bit 1 b) :: 7 word)) :: u8) n = bit b n"
    if "n < 8" for n
    using that by (cases n)
      (auto simp: bit_or_iff bit_push_bit_iff bit_of_bool_iff bit_ucast_iff bit_drop_bit_eq
        simp del: push_bit_Suc)
  then show ?thesis
    by (auto simp: flags_byte_def flags_of_byte_def intro: bit_word_eqI)
qed

lemma MuxEventHead_Encode_eq:
  assumes "8 \<le> length buffer"
  shows "MuxEventHead_Encode h buffer = (0, head_bytes h @ drop 8 buffer)"
proof -
  obtain b0 b1 b2 b3 b4 b5 b6 b7 rest where "buffer = b0 # b1 # b2 # b3 # b4 # b5 # b6 # b7 # rest"
    using assms by (auto simp: numeral_eq_Suc Suc_le_length_iff)
  then show ?thesis
    by (simp add: MuxEventHead_Encode_def Let_def blit_def head_bytes_def numeral_eq_Suc)
qed

lemma MuxEventHead_Decode_bytes:
  "MuxEventHead_Decode h0 (head_bytes h @ rest) = (0, h)"
proof -
  have "(head_bytes h @ rest) ! 6 = head_type h" "(head_bytes h @ rest) ! 7 = flags_byte (head_flags h)"
    by (simp_all add: head_bytes_def nth_append)
  moreover have "slice_of 0 4 (head_bytes h @ rest) = native_to_big 4 (head_sid h)"
    and "slice_of 4 2 (head_bytes h @ rest) = native_to_big 2 (head_len h)"
    by (simp_all add: slice_of_def head_bytes_def)
  ultimately show ?thesis by (simp add: MuxEventHead_Decode_def)
qed

lemma NewEvent_event_type:
  "MuxEvent_NewEvent h = Some e \<Longrightarrow> ev_head e = h \<and> head_type h = event_type (ev_body e)"
  by (auto simp: MuxEvent_NewEvent_def Let_def split: if_splits)

text \<open>A received body has the type its object was made for, and a received chunk as many bytes as it says.\<close>

definition sized_body :: "nat \<Rightarrow> mux_body \<Rightarrow> bool" where
  "sized_body lim b \<longleftrightarrow> (case b of StreamChunk buf n \<Rightarrow> length buf = unat n \<and> unat n \<le> lim | _ \<Rightarrow> True)"

lemma NewEvent_sized: "MuxEvent_NewEvent h = Some e \<Longrightarrow> sized_body lim (ev_body e)"
  by (auto simp: MuxEvent_NewEvent_def sized_body_def Let_def split: if_splits)

lemma Decode_typed:
  assumes "MuxEvent_Decode L h b bs = Inr b'"
  shows "event_type b' = event_type b" "unat (head_len h) \<le> lim \<Longrightarrow> sized_body lim b'"
  using assms
  by (cases b; auto simp: body_codec_defs StreamChunk_Decode_def sized_body_def Let_def
      split: option.splits if_splits)+

lemma Decode_error: "MuxEvent_Decode L h b bs = Inl rc \<Longrightarrow> rc \<noteq> 0"
  by (cases b) (auto simp: body_codec_defs StreamChunk_Decode_def Let_def split: option.splits if_splits)

lemma NewEvent_of_event_type:
  assumes "head_type h = event_type b"
  obtains b0 where "MuxEvent_NewEvent h = Some \<lparr>ev_head = h, ev_body = b0\<rparr>"
    and "event_type b0 = event_type b"
    and "\<And>L bs. MuxEvent_Decode L h b0 bs = MuxEvent_Decode L h b bs"
  using assms by (cases b) (auto simp: MuxEvent_NewEvent_def)

subsection \<open>Lemmas on bodies\<close>

lemma pb_okD:
  assumes "pb_ok valid mx c" "valid m" "mx + 2 \<le> k"
  obtains bs where "pb_encode_delimited c m k = Some bs" "bs \<noteq> []" "length bs \<le> mx + 2"
    "pb_decode_delimited c bs = Some m"
  using assms unfolding pb_ok_def by blast

lemma pb_ok_encode:
  assumes "pb_ok valid mx c" "valid m" "mx + 2 \<le> k"
  shows "\<exists>bs. pb_Encode c m k = Inr bs \<and> bs \<noteq> [] \<and> length bs \<le> mx + 2 \<and> pb_Decode c bs = Inr m"
  using pb_okD [OF assms] by (metis option.simps(5) pb_Decode_def pb_Encode_def)

text \<open>
  The body codec round trip: with room for a full chunk, a well-formed body encodes, to at
  most \<open>max 530 lim\<close> bytes, and what it encodes to decodes back, under a head that carries
  the encoded length; only events without contents encode to nothing.
\<close>

lemma MuxEvent_body_roundtrip:
  assumes L: "pb_lib_ok L" and wf: "wf_body lim b" and room: "lim \<le> room" "530 \<le> room"
    and lim: "lim \<le> 2 * kMaxChunkSize"
  shows "\<exists>bs. MuxEvent_Encode L b room = Inr bs \<and> length bs \<le> max 530 lim \<and>
     (bs = [] \<longrightarrow> b = RetireConnRequest \<or> b = StreamCloseRequest \<or> b = StreamChunk [] 0) \<and>
     (\<forall>h. unat (head_len h) = length bs \<longrightarrow> MuxEvent_Decode L h b bs = Inr b)"
proof (cases b)
  case (StreamChunk c n)
  have n: "unat n = length c" "length c \<le> lim" using wf StreamChunk by auto
  have dec: "StreamChunk_Decode h c = Inr (StreamChunk c n)" if "unat (head_len h) = length c" for h
  proof -
    have "ucast (head_len h) = n"
      using that n by (simp add: word_unat_eq_iff)
    with n lim show ?thesis by (simp add: StreamChunk_Decode_def Let_def)
  qed
  have enc: "StreamChunk_Encode c n room = Inr c"
    using n room by (auto simp: StreamChunk_Encode_def word_gt_0 unsigned_eq_0_iff)
  have "c = [] \<longrightarrow> n = 0" using n by (auto simp: unsigned_eq_0_iff)
  with enc dec n StreamChunk show ?thesis by auto
next
  case (AuthRequest m)
  then show ?thesis
    using pb_ok_encode [of wf_AuthRequest 275 "AuthRequest_fields L" m room] L wf room
    by (fastforce simp: pb_lib_ok_def AuthRequest_Encode_def AuthRequest_Decode_def)
next
  case (AuthResponse m)
  then show ?thesis
    using pb_ok_encode [of "\<lambda>_. True" 13 "AuthResponse_fields L" m room] L wf room
    by (fastforce simp: pb_lib_ok_def AuthResponse_Encode_def AuthResponse_Decode_def)
next
  case (StreamOpenRequest m)
  then show ?thesis
    using pb_ok_encode [of wf_StreamOpenRequest 524 "StreamOpenRequest_fields L" m room] L wf room
    by (fastforce simp: pb_lib_ok_def StreamOpenRequest_Encode_def StreamOpenRequest_Decode_def)
next
  case (CommonResponse m)
  then show ?thesis
    using pb_ok_encode [of wf_CommonResponse 527 "CommonResponse_fields L" m room] L wf room
    by (fastforce simp: pb_lib_ok_def CommonResponse_Encode_def CommonResponse_Decode_def)
next
  case (TunnelOpenRequest m)
  then show ?thesis
    using pb_ok_encode [of wf_TunnelOpenRequest 528 "TunnelOpenRequest_fields L" m room] L wf room
    by (fastforce simp: pb_lib_ok_def TunnelOpenRequest_Encode_def TunnelOpenRequest_Decode_def)
next
  case (TunnelOpenResponse m)
  then show ?thesis
    using pb_ok_encode [of "\<lambda>_. True" 24 "TunnelOpenResponse_fields L" m room] L wf room
    by (fastforce simp: pb_lib_ok_def TunnelOpenResponse_Encode_def TunnelOpenResponse_Decode_def)
next
  case (TunnelCloseRequest m)
  then show ?thesis
    using pb_ok_encode [of "\<lambda>_. True" 11 "TunnelCloseRequest_fields L" m room] L wf room
    by (fastforce simp: pb_lib_ok_def TunnelCloseRequest_Encode_def TunnelCloseRequest_Decode_def)
qed (auto simp: body_codec_defs)

end
