(* ===== verification/Cipher_Context.thy ===== *)
theory Cipher_Context
  imports Mux_Event
begin

text \<open>
  \<^verbatim>\<open>snova/mux/cipher_context.h\<close> and \<^verbatim>\<open>cipher_context.cc\<close>: one mux event to and from
  one frame on the wire.  A frame is the sealed event head followed by the body, sealed as
  well unless the head's \<open>body_no_encrypt\<close> flag is set.  Both sealed parts use the nonce
  made of the context's counter, which moves by one per frame.

  The AEAD is BoringSSL's and a parameter of the model (\<open>'c aead\<close>, with \<open>'c\<close> the type of an
  \<^verbatim>\<open>EVP_AEAD_CTX\<close>); \<open>aead_ok\<close> states what BoringSSL documents of ChaCha20-Poly1305.
  The buffers are explicit: \<open>CipherContext_Encrypt\<close> takes the output span and returns its
  contents after \<^verbatim>\<open>remove_suffix\<close>.
\<close>

subsection \<open>BoringSSL's AEAD, a parameter of the model\<close>

record 'c aead =
  EVP_AEAD_key_length :: nat
  EVP_AEAD_nonce_length :: nat
  EVP_AEAD_max_tag_len :: nat
  EVP_AEAD_CTX_new :: "bytes \<Rightarrow> nat \<Rightarrow> 'c option"
  EVP_AEAD_CTX_seal :: "'c \<Rightarrow> nat \<Rightarrow> bytes \<Rightarrow> bytes \<Rightarrow> bytes option"
  EVP_AEAD_CTX_open :: "'c \<Rightarrow> nat \<Rightarrow> bytes \<Rightarrow> bytes \<Rightarrow> bytes option"

text \<open>
  \<open>seal ctx max_out nonce plain\<close>: success is guaranteed when the output has room for the
  plaintext and the tag; the ciphertext is that long; opening it with the same nonce into a
  buffer at least as long as the ciphertext gives the plaintext back.
\<close>

definition aead_ok :: "'c aead \<Rightarrow> bool" where
  "aead_ok A \<longleftrightarrow>
     EVP_AEAD_key_length A = 32 \<and> EVP_AEAD_nonce_length A = 12 \<and> EVP_AEAD_max_tag_len A = 16 \<and>
     (\<forall>key. length key = 32 \<longrightarrow> EVP_AEAD_CTX_new A key 16 \<noteq> None) \<and>
     (\<forall>c mx nonce pt. length nonce = 12 \<longrightarrow> length pt + 16 \<le> mx \<longrightarrow>
        (\<exists>ct. EVP_AEAD_CTX_seal A c mx nonce pt = Some ct \<and> length ct = length pt + 16 \<and>
              (\<forall>mx'. length ct \<le> mx' \<longrightarrow> EVP_AEAD_CTX_open A c mx' nonce ct = Some pt)))"

definition get_cipher_aead :: "'c aead \<Rightarrow> string \<Rightarrow> 'c aead option" where
  "get_cipher_aead A cipher_method = (if cipher_method = ''chacha20_poly1305'' then Some A else None)"

subsection \<open>The context\<close>

record 'c CipherContext =
  encrypt_ctx :: "'c option"
  decrypt_ctx :: "'c option"
  encrypt_iv :: u64
  decrypt_iv :: u64
  cipher_nonce_len :: nat
  cipher_tag_len :: nat
  cipher_key :: bytes
  encode_buffer_size :: nat
  decode_buffer_size :: nat

definition CipherContext_init :: "'c CipherContext" where
  "CipherContext_init = \<lparr>encrypt_ctx = None, decrypt_ctx = None, encrypt_iv = 0, decrypt_iv = 0,
     cipher_nonce_len = 0, cipher_tag_len = 0, cipher_key = [], encode_buffer_size = 0,
     decode_buffer_size = 0\<rparr>"

definition UpdateNonce :: "u64 \<Rightarrow> 'c CipherContext \<Rightarrow> 'c CipherContext" where
  "UpdateNonce nonce ctx = ctx\<lparr>encrypt_iv := nonce, decrypt_iv := nonce\<rparr>"

text \<open>\<^verbatim>\<open>std::string::resize\<close>: cut, or filled with NUL.\<close>

definition str_resize :: "nat \<Rightarrow> bytes \<Rightarrow> bytes" where
  "str_resize n s = take n s @ replicate (n - length s) 0"

definition CipherContext_New :: "'c aead \<Rightarrow> string \<Rightarrow> bytes \<Rightarrow> 'c CipherContext option" where
  "CipherContext_New A cipher_method key =
     (let cipher_aead = get_cipher_aead A cipher_method in
      if cipher_aead = None \<and> cipher_method \<noteq> ''none'' then None
      else
        let p = (case cipher_aead of
            None \<Rightarrow> CipherContext_init
          | Some a \<Rightarrow>
              (let key_len = EVP_AEAD_key_length a;
                   p1 = CipherContext_init\<lparr>cipher_key := str_resize key_len key\<rparr>;
                   p2 = UpdateNonce 102477889876 p1;
                   tag = EVP_AEAD_max_tag_len a
               in p2\<lparr>cipher_nonce_len := EVP_AEAD_nonce_length a,
                     cipher_tag_len := tag,
                     encrypt_ctx := EVP_AEAD_CTX_new a (cipher_key p2) tag,
                     decrypt_ctx := EVP_AEAD_CTX_new a (cipher_key p2) tag\<rparr>))
        in Some (p\<lparr>encode_buffer_size := kMaxChunkSize + kEventHeadSize + kReservedBufferSize,
                   decode_buffer_size := kMaxChunkSize + kReservedBufferSize\<rparr>))"

subsection \<open>Encrypt and Decrypt\<close>

definition nonce_of :: "nat \<Rightarrow> u64 \<Rightarrow> bytes" where
  "nonce_of n iv = blit 0 (native_to_big 8 iv) (replicate n 0)"

definition CipherContext_Encrypt ::
  "'c aead \<Rightarrow> pb_lib \<Rightarrow> 'c CipherContext \<Rightarrow> MuxEvent \<Rightarrow> bytes \<Rightarrow>
     (int + bytes) \<times> 'c CipherContext \<times> MuxEvent" where
  "CipherContext_Encrypt A L ctx ev out =
    (let tag = cipher_tag_len ctx in
     if length out < kEventHeadSize + kMaxChunkSize + 2 * tag
     then (Inl ERR_NEED_MORE_OUTPUT_BUFFER, ctx, ev)
     else case encrypt_ctx ctx of
       None \<Rightarrow>
         let out1 = blit 0 (snd (MuxEventHead_Encode (ev_head ev) (take kEventHeadSize out))) out
         in (case MuxEvent_Encode L (ev_body ev) (length out - kEventHeadSize) of
               Inl rc \<Rightarrow> (Inl rc, ctx, ev)
             | Inr body \<Rightarrow>
                 (Inr (take (kEventHeadSize + length body) (blit kEventHeadSize body out1)), ctx, ev))
     | Some c \<Rightarrow>
         let no_enc = body_no_encrypt (head_flags (ev_head ev));
             room = (if no_enc then length out - kEventHeadSize - tag
                     else encode_buffer_size ctx - kEventHeadSize)
         in (case MuxEvent_Encode L (ev_body ev) room of
               Inl rc \<Rightarrow> (Inl rc, ctx, ev)
             | Inr body \<Rightarrow>
                 let ev' = ev\<lparr>ev_head := (ev_head ev)\<lparr>head_len := word_of_nat (length body)\<rparr>\<rparr>;
                     out1 = (if no_enc then blit (kEventHeadSize + tag) body out else out);
                     head_buffer = snd (MuxEventHead_Encode (ev_head ev') (replicate kEventHeadSize 0));
                     nonce = nonce_of (cipher_nonce_len ctx) (encrypt_iv ctx)
                 in (case EVP_AEAD_CTX_seal A c (length out) nonce head_buffer of
                       None \<Rightarrow> (Inl ERR_CIPHER_HEADER_ENCRYPT, ctx, ev')
                     | Some hdr \<Rightarrow>
                         let header_len = length hdr; out2 = blit 0 hdr out1 in
                         case (if 0 < length body \<and> \<not> no_enc
                               then (case EVP_AEAD_CTX_seal A c (length out - header_len) nonce body of
                                       None \<Rightarrow> Inl ERR_CIPHER_BODY_ENCRYPT
                                     | Some ct \<Rightarrow> Inr (blit header_len ct out2, length ct))
                               else Inr (out2, length body)) of
                           Inl rc \<Rightarrow> (Inl rc, ctx, ev')
                         | Inr (out3, body_len) \<Rightarrow>
                             (Inr (take (header_len + body_len) out3),
                              ctx\<lparr>encrypt_iv := encrypt_iv ctx + 1\<rparr>, ev'))))"

text \<open>
  On success \<open>Decrypt\<close> gives the event and \<open>decrypt_len\<close>, the bytes consumed.  The head
  buffer \<^verbatim>\<open>head_buf\<close> is an uninitialised stack array; the model reads zeros where the
  opened head is shorter than eight bytes.  In the same way the body is the first \<^verbatim>\<open>head.len\<close>
  bytes of the decode buffer.  For what a peer has sealed \<open>aead_ok\<close> makes both as long as expected; opening
  anything else never gives less in ChaCha20-Poly1305, whose plaintext is as long as the ciphertext
  without the tag.
\<close>

definition decrypt_head :: "'c aead \<Rightarrow> 'c CipherContext \<Rightarrow> bytes \<Rightarrow> int + MuxEventHead" where
  "decrypt_head A ctx in_data =
     (case decrypt_ctx ctx of
        None \<Rightarrow> Inr (snd (MuxEventHead_Decode MuxEventHead_init in_data))
      | Some c \<Rightarrow>
          (case EVP_AEAD_CTX_open A c (kEventHeadSize + 20) (nonce_of (cipher_nonce_len ctx) (decrypt_iv ctx))
                  (take (kEventHeadSize + cipher_tag_len ctx) in_data) of
             None \<Rightarrow> Inl ERR_CIPHER_HEADER_DECRYPT
           | Some pt \<Rightarrow> Inr (snd (MuxEventHead_Decode MuxEventHead_init (str_resize kEventHeadSize pt)))))"

definition decrypt_body :: "'c aead \<Rightarrow> 'c CipherContext \<Rightarrow> MuxEventHead \<Rightarrow> bytes \<Rightarrow> int + bytes \<times> nat" where
  "decrypt_body A ctx h in_data =
     (let n = unat (head_len h); tag = cipher_tag_len ctx in
      case decrypt_ctx ctx of
        None \<Rightarrow> Inr (slice_of kEventHeadSize n in_data, n)
      | Some c \<Rightarrow>
          if body_no_encrypt (head_flags h)
          then Inr (slice_of (kEventHeadSize + tag) n in_data, n)
          else (case EVP_AEAD_CTX_open A c (decode_buffer_size ctx)
                       (nonce_of (cipher_nonce_len ctx) (decrypt_iv ctx))
                       (slice_of (kEventHeadSize + tag) (n + tag) in_data) of
                  None \<Rightarrow> Inl ERR_CIPHER_BODY_DECRYPT
                | Some pt \<Rightarrow> Inr (take n pt, n + tag)))"

definition CipherContext_Decrypt ::
  "'c aead \<Rightarrow> pb_lib \<Rightarrow> 'c CipherContext \<Rightarrow> bytes \<Rightarrow> (int + MuxEvent \<times> nat) \<times> 'c CipherContext" where
  "CipherContext_Decrypt A L ctx in_data =
    (let tag = cipher_tag_len ctx in
     if length in_data < kEventHeadSize + tag then (Inl ERR_NEED_MORE_INPUT_DATA, ctx)
     else case decrypt_head A ctx in_data of
       Inl rc \<Rightarrow> (Inl rc, ctx)
     | Inr h \<Rightarrow>
         let n = unat (head_len h) in
         if kMaxChunkSize + 128 < n then (Inl ERR_INVALID_EVENT, ctx)
         else
           let expected_len = kEventHeadSize + n + tag +
                 (if \<not> body_no_encrypt (head_flags h) \<and> 0 < n then tag else 0) in
           if length in_data < expected_len then (Inl ERR_NEED_MORE_INPUT_DATA, ctx)
           else case MuxEvent_NewEvent h of
             None \<Rightarrow> (Inl ERR_INVALID_EVENT, ctx)
           | Some out \<Rightarrow>
               if n = 0
               then (Inr (out, kEventHeadSize + tag), ctx\<lparr>decrypt_iv := decrypt_iv ctx + 1\<rparr>)
               else case decrypt_body A ctx h in_data of
                 Inl rc \<Rightarrow> (Inl rc, ctx)
               | Inr (decode_body, used) \<Rightarrow>
                   (case MuxEvent_Decode L h (ev_body out) decode_body of
                      Inl rc \<Rightarrow> (Inl rc, ctx)
                    | Inr b \<Rightarrow> (Inr (out\<lparr>ev_body := b\<rparr>, kEventHeadSize + tag + used),
                               ctx\<lparr>decrypt_iv := decrypt_iv ctx + 1\<rparr>)))"

text \<open>Whatever the bytes, an event that comes out has a body of the type in its head.\<close>

lemma Decrypt_typed:
  assumes "CipherContext_Decrypt A L ctx bs = (Inr (e, n), ctx')"
  shows "head_type (ev_head e) = event_type (ev_body e) \<and> sized_body (kMaxChunkSize + 128) (ev_body e)"
  using assms NewEvent_event_type NewEvent_sized
  by (auto simp: CipherContext_Decrypt_def Let_def not_less Decode_typed split: if_splits sum.splits option.splits)

lemma Decrypt_error: "CipherContext_Decrypt A L ctx bs = (Inl rc, ctx') \<Longrightarrow> rc \<noteq> 0"
  by (auto simp: CipherContext_Decrypt_def decrypt_head_def decrypt_body_def Let_def dest: Decode_error
      split: if_splits sum.splits option.splits)

subsection \<open>Frames\<close>

text \<open>The sizes a context has after \<open>CipherContext_New\<close> with a cipher.\<close>

definition cipher_sized :: "'c CipherContext \<Rightarrow> bool" where
  "cipher_sized ctx \<longleftrightarrow> cipher_nonce_len ctx = 12 \<and> cipher_tag_len ctx = 16 \<and>
     encode_buffer_size ctx = 8456 \<and> decode_buffer_size ctx = 8448"

text \<open>Sender \<open>s\<close> and receiver \<open>r\<close> agree on the key and on the next nonce.\<close>

definition synced :: "'c CipherContext \<Rightarrow> 'c CipherContext \<Rightarrow> bool" where
  "synced s r \<longleftrightarrow> cipher_sized s \<and> cipher_sized r \<and> encrypt_ctx s \<noteq> None \<and>
     encrypt_ctx s = decrypt_ctx r \<and> encrypt_iv s = decrypt_iv r"

text \<open>\<open>f\<close> is a frame of event \<open>e\<close> whose encoded body is \<open>bs\<close>, under key \<open>c\<close> and counter \<open>iv\<close>.\<close>

definition frame_of :: "'c aead \<Rightarrow> 'c \<Rightarrow> u64 \<Rightarrow> MuxEvent \<Rightarrow> bytes \<Rightarrow> bytes \<Rightarrow> bool" where
  "frame_of A c iv e bs f \<longleftrightarrow>
     (\<exists>hdr tl. f = hdr @ tl \<and> length hdr = 24 \<and>
        (\<forall>mx. 24 \<le> mx \<longrightarrow> EVP_AEAD_CTX_open A c mx (nonce_of 12 iv) hdr = Some (head_bytes (ev_head e))) \<and>
        unat (head_len (ev_head e)) = length bs \<and>
        (if bs = [] \<or> body_no_encrypt (head_flags (ev_head e)) then tl = bs
         else length tl = length bs + 16 \<and>
              (\<forall>mx. length tl \<le> mx \<longrightarrow> EVP_AEAD_CTX_open A c mx (nonce_of 12 iv) tl = Some bs)))"

definition with_len :: "nat \<Rightarrow> MuxEvent \<Rightarrow> MuxEvent" where
  "with_len n e = e\<lparr>ev_head := (ev_head e)\<lparr>head_len := word_of_nat n\<rparr>\<rparr>"

lemma length_nonce_of [simp]: "length (nonce_of 12 iv) = 12"
  by (simp add: nonce_of_def blit_def)

lemma with_len_simps [simp]:
  "ev_body (with_len n e) = ev_body e"
  "head_type (ev_head (with_len n e)) = head_type (ev_head e)"
  "head_flags (ev_head (with_len n e)) = head_flags (ev_head e)"
  "head_sid (ev_head (with_len n e)) = head_sid (ev_head e)"
  "n < 65536 \<Longrightarrow> unat (head_len (ev_head (with_len n e))) = n"
  by (simp_all add: with_len_def unat_of_nat)

lemma aead_sealD:
  assumes "aead_ok A" "length nonce = 12" "length pt + 16 \<le> mx"
  obtains ct where "EVP_AEAD_CTX_seal A c mx nonce pt = Some ct" "length ct = length pt + 16"
    "\<And>mx'. length ct \<le> mx' \<Longrightarrow> EVP_AEAD_CTX_open A c mx' nonce ct = Some pt"
  using assms unfolding aead_ok_def by blast

lemma head_buffer_eq: "snd (MuxEventHead_Encode h (replicate 8 0)) = head_bytes h"
  by (simp add: MuxEventHead_Encode_eq)

lemma take_blit_frame:
  assumes "length hdr = off" "off + length body \<le> length out"
  shows "take (off + length body) (blit 0 hdr (blit off body out)) = hdr @ body"
    and "take (off + length body) (blit off body (blit 0 hdr out)) = hdr @ body"
  using assms by (simp_all add: blit_def)

lemma Encrypt_Some_frame:
  assumes A: "aead_ok A" and sized: "cipher_sized ctx" and c: "encrypt_ctx ctx = Some c"
    and out: "length out = 8456" and lenb: "length bs \<le> 8416"
    and enc: "MuxEvent_Encode L (ev_body e)
                (if body_no_encrypt (head_flags (ev_head e)) then 8432 else 8448) = Inr bs"
  shows "\<exists>f. CipherContext_Encrypt A L ctx e out =
            (Inr f, ctx\<lparr>encrypt_iv := encrypt_iv ctx + 1\<rparr>, with_len (length bs) e) \<and>
          frame_of A c (encrypt_iv ctx) (with_len (length bs) e) bs f"
proof -
  let ?e = "with_len (length bs) e" and ?nonce = "nonce_of 12 (encrypt_iv ctx)"
  let ?ne = "body_no_encrypt (head_flags (ev_head e))"
  obtain hdr where hdr: "EVP_AEAD_CTX_seal A c 8456 ?nonce (head_bytes (ev_head ?e)) = Some hdr"
      "length hdr = 24"
      "\<And>mx. 24 \<le> mx \<Longrightarrow> EVP_AEAD_CTX_open A c mx ?nonce hdr = Some (head_bytes (ev_head ?e))"
    using aead_sealD [OF A, of ?nonce "head_bytes (ev_head ?e)" 8456 c] by auto
  obtain ct where ct: "EVP_AEAD_CTX_seal A c 8432 ?nonce bs = Some ct" "length ct = length bs + 16"
      "\<And>mx. length ct \<le> mx \<Longrightarrow> EVP_AEAD_CTX_open A c mx ?nonce ct = Some bs"
    using aead_sealD [OF A, of ?nonce bs 8432 c] lenb by auto
  let ?tl = "if bs = [] \<or> ?ne then bs else ct"
  note shape = CipherContext_Encrypt_def Let_def c out hdr(1) hdr(2) head_buffer_eq
    sized [unfolded cipher_sized_def] with_len_def [symmetric]
  have "CipherContext_Encrypt A L ctx e out =
          (Inr (hdr @ ?tl), ctx\<lparr>encrypt_iv := encrypt_iv ctx + 1\<rparr>, ?e)"
  proof (cases ?ne)
    case True
    then show ?thesis
      using take_blit_frame(1) [of hdr 24 bs out] hdr(2) out lenb enc by (simp add: shape)
  next
    case False
    then show ?thesis
      using take_blit_frame [of hdr 24 ct out] hdr(2) ct(1,2) out lenb enc
      by (auto simp: shape blit_def)
  qed
  moreover have "frame_of A c (encrypt_iv ctx) ?e bs (hdr @ ?tl)"
    unfolding frame_of_def
    by (rule exI [of _ hdr], rule exI [of _ ?tl]) (use hdr(2,3) ct(2,3) lenb in auto)
  ultimately show ?thesis by blast
qed

lemma frame_length:
  assumes "frame_of A c iv e bs f"
  shows "length f = 24 + length bs +
           (if bs = [] \<or> body_no_encrypt (head_flags (ev_head e)) then 0 else 16)"
  using assms by (auto simp: frame_of_def split: if_splits)

lemma decrypt_head_frame:
  assumes "frame_of A c iv e bs f" "24 \<le> k" "cipher_sized r" "decrypt_ctx r = Some c" "decrypt_iv r = iv"
  shows "decrypt_head A r (take k f @ rest) = Inr (ev_head e)"
proof -
  obtain hdr tl where f: "f = hdr @ tl" "length hdr = 24"
    and op: "EVP_AEAD_CTX_open A c 28 (nonce_of 12 iv) hdr = Some (head_bytes (ev_head e))"
    using assms(1) unfolding frame_of_def by auto
  have "take 24 (take k f @ rest) = hdr" using f assms(2) by simp
  with op assms(3-5) MuxEventHead_Decode_bytes [of MuxEventHead_init "ev_head e" "[]"] show ?thesis
    by (simp add: decrypt_head_def cipher_sized_def str_resize_def)
qed

lemma decrypt_body_frame:
  assumes fr: "frame_of A c iv e bs f" and "bs \<noteq> []" "length bs \<le> 8432"
    and r: "cipher_sized r" "decrypt_ctx r = Some c" "decrypt_iv r = iv"
  shows "decrypt_body A r (ev_head e) (f @ rest) = Inr (bs, length f - 24)"
proof -
  obtain hdr tl where f: "f = hdr @ tl" "length hdr = 24"
    and n: "unat (head_len (ev_head e)) = length bs"
    and tl: "if body_no_encrypt (head_flags (ev_head e)) then tl = bs
             else length tl = length bs + 16 \<and>
                  (\<forall>mx. length tl \<le> mx \<longrightarrow> EVP_AEAD_CTX_open A c mx (nonce_of 12 iv) tl = Some bs)"
    using fr \<open>bs \<noteq> []\<close> unfolding frame_of_def by auto
  show ?thesis
  proof (cases "body_no_encrypt (head_flags (ev_head e))")
    case True
    with f n tl r show ?thesis by (simp add: decrypt_body_def Let_def cipher_sized_def slice_of_def)
  next
    case False
    then have "length tl = length bs + 16" and "EVP_AEAD_CTX_open A c 8448 (nonce_of 12 iv) tl = Some bs"
      using tl \<open>length bs \<le> 8432\<close> by auto
    with f n r False show ?thesis by (simp add: decrypt_body_def Let_def cipher_sized_def slice_of_def)
  qed
qed

lemma Decrypt_prefix_frame:
  assumes fr: "frame_of A c iv e bs f" and "length bs \<le> 8320" and k: "k < length f"
    and r: "cipher_sized r" "decrypt_ctx r = Some c" "decrypt_iv r = iv"
  shows "CipherContext_Decrypt A L r (take k f) = (Inl ERR_NEED_MORE_INPUT_DATA, r)"
proof (cases "k < 24")
  case True
  then show ?thesis using k r(1) by (simp add: CipherContext_Decrypt_def cipher_sized_def)
next
  case False
  then have "decrypt_head A r (take k f) = Inr (ev_head e)"
    using decrypt_head_frame [OF fr _ r, of k "[]"] by simp
  moreover have "unat (head_len (ev_head e)) = length bs" using fr by (auto simp: frame_of_def)
  ultimately show ?thesis
    using False k r(1) \<open>length bs \<le> 8320\<close> frame_length [OF fr]
    by (auto simp: CipherContext_Decrypt_def Let_def cipher_sized_def split: if_splits)
qed

lemma Decrypt_oversized_frame:
  assumes fr: "frame_of A c iv e bs f" and big: "8320 < length bs"
    and r: "cipher_sized r" "decrypt_ctx r = Some c" "decrypt_iv r = iv"
  shows "CipherContext_Decrypt A L r (f @ rest) = (Inl ERR_INVALID_EVENT, r)"
proof -
  have "24 \<le> length f" using frame_length [OF fr] by simp
  moreover from this have "decrypt_head A r (f @ rest) = Inr (ev_head e)"
    using decrypt_head_frame [OF fr _ r, of "length f" rest] by simp
  moreover have "unat (head_len (ev_head e)) = length bs" using fr by (auto simp: frame_of_def)
  ultimately show ?thesis
    using big r(1) by (simp add: CipherContext_Decrypt_def Let_def cipher_sized_def)
qed

lemma Decrypt_frame:
  assumes fr: "frame_of A c iv e bs f" and len: "length bs \<le> 8320"
    and ty: "head_type (ev_head e) = event_type (ev_body e)"
    and empty: "bs = [] \<longrightarrow> ev_body e = RetireConnRequest \<or> ev_body e = StreamCloseRequest \<or>
                  ev_body e = StreamChunk [] 0"
    and dec: "MuxEvent_Decode L (ev_head e) (ev_body e) bs = Inr (ev_body e)"
    and r: "cipher_sized r" "decrypt_ctx r = Some c" "decrypt_iv r = iv"
  shows "CipherContext_Decrypt A L r (f @ rest) = (Inr (e, length f), r\<lparr>decrypt_iv := iv + 1\<rparr>)"
proof -
  have flen: "length f = 24 + length bs + (if bs = [] \<or> body_no_encrypt (head_flags (ev_head e)) then 0 else 16)"
    by (rule frame_length [OF fr])
  then have hd: "decrypt_head A r (f @ rest) = Inr (ev_head e)"
    using decrypt_head_frame [OF fr _ r, of "length f" rest] by simp
  have n: "unat (head_len (ev_head e)) = length bs" using fr by (auto simp: frame_of_def)
  obtain b0 where new: "MuxEvent_NewEvent (ev_head e) = Some \<lparr>ev_head = ev_head e, ev_body = b0\<rparr>"
    and b0: "event_type b0 = event_type (ev_body e)"
      "\<And>L bs. MuxEvent_Decode L (ev_head e) b0 bs = MuxEvent_Decode L (ev_head e) (ev_body e) bs"
    using NewEvent_of_event_type [OF ty] by blast
  show ?thesis
  proof (cases "bs = []")
    case True
    then have "b0 = ev_body e" using empty new ty by (auto simp: MuxEvent_NewEvent_def)
    with True flen hd n new r show ?thesis
      by (simp add: CipherContext_Decrypt_def Let_def cipher_sized_def)
  next
    case False
    have "decrypt_body A r (ev_head e) (f @ rest) = Inr (bs, length f - 24)"
      using decrypt_body_frame [OF fr False _ r] len by simp
    with False flen hd n new b0 dec len r show ?thesis
      by (simp add: CipherContext_Decrypt_def Let_def cipher_sized_def)
  qed
qed

subsection \<open>One event through a pair of synchronised contexts\<close>

lemma New_cipher_sized:
  assumes "aead_ok A" "CipherContext_New A ''chacha20_poly1305'' key = Some ctx"
  shows "cipher_sized ctx" and "encrypt_ctx ctx \<noteq> None" and "decrypt_ctx ctx = encrypt_ctx ctx"
    and "encrypt_iv ctx = 102477889876" and "decrypt_iv ctx = 102477889876"
  using assms
  by (auto simp: CipherContext_New_def get_cipher_aead_def Let_def cipher_sized_def aead_ok_def
      UpdateNonce_def CipherContext_init_def str_resize_def)

lemma New_synced:
  assumes "aead_ok A" "CipherContext_New A ''chacha20_poly1305'' key = Some s"
    "CipherContext_New A ''chacha20_poly1305'' key = Some r"
  shows "synced s r"
  using New_cipher_sized [OF assms(1,2)] assms(2,3) by (simp add: synced_def)

lemma UpdateNonce_synced: "synced s r \<Longrightarrow> synced (UpdateNonce iv s) (UpdateNonce iv r)"
  by (auto simp: synced_def UpdateNonce_def cipher_sized_def)

lemma Encrypt_synced:
  assumes A: "aead_ok A" and L: "pb_lib_ok L" and s: "synced s r" and e: "wf_event lim e"
    and lim: "lim \<le> 8416" and out: "length out = 8456"
  obtains bs f c where
    "CipherContext_Encrypt A L s e out =
       (Inr f, s\<lparr>encrypt_iv := encrypt_iv s + 1\<rparr>, with_len (length bs) e)"
    "encrypt_ctx s = Some c" "frame_of A c (encrypt_iv s) (with_len (length bs) e) bs f"
    "length bs \<le> max 530 lim"
    "bs = [] \<longrightarrow> ev_body e = RetireConnRequest \<or> ev_body e = StreamCloseRequest \<or>
       ev_body e = StreamChunk [] 0"
    "MuxEvent_Decode L (ev_head (with_len (length bs) e)) (ev_body e) bs = Inr (ev_body e)"
proof -
  obtain c where c: "encrypt_ctx s = Some c" and sized: "cipher_sized s"
    using s by (auto simp: synced_def)
  let ?room = "if body_no_encrypt (head_flags (ev_head e)) then 8432 else 8448 :: nat"
  obtain bs where bs: "MuxEvent_Encode L (ev_body e) ?room = Inr bs" "length bs \<le> max 530 lim"
      "bs = [] \<longrightarrow> ev_body e = RetireConnRequest \<or> ev_body e = StreamCloseRequest \<or>
         ev_body e = StreamChunk [] 0"
      "\<And>h. unat (head_len h) = length bs \<Longrightarrow> MuxEvent_Decode L h (ev_body e) bs = Inr (ev_body e)"
  proof -
    have "lim \<le> ?room" "530 \<le> ?room" "wf_body lim (ev_body e)"
      using e lim by (auto simp: wf_event_def)
    then show ?thesis using MuxEvent_body_roundtrip [OF L, of lim "ev_body e" ?room] lim that by auto
  qed
  have small: "length bs \<le> 8416" using bs(2) lim by simp
  then obtain f where "CipherContext_Encrypt A L s e out =
       (Inr f, s\<lparr>encrypt_iv := encrypt_iv s + 1\<rparr>, with_len (length bs) e)"
      "frame_of A c (encrypt_iv s) (with_len (length bs) e) bs f"
    using Encrypt_Some_frame [OF A sized c out _ bs(1)] by blast
  moreover have "MuxEvent_Decode L (ev_head (with_len (length bs) e)) (ev_body e) bs = Inr (ev_body e)"
    using bs(4) small by simp
  ultimately show ?thesis using that c bs(2,3) by blast
qed

end
