(* ===== verification/Reference_Libs.thy ===== *)
theory Reference_Libs
  imports Cipher_Context
begin

text \<open>
  Concrete instances of the third-party parameters, with proofs that they satisfy the
  documented behaviour the model assumes: a message codec with the interface of nanopb
  (strings NUL-terminated, integers big-endian; not the protobuf wire format) and an AEAD with
  the interface of BoringSSL (the plaintext followed by a tag made of the key, the nonce and
  zeros).  They show that \<open>pb_lib_ok\<close> and \<open>aead_ok\<close> can hold, and the witnesses of the
  properties run on them.
\<close>

subsection \<open>A message codec\<close>

definition codec_of :: "('m \<Rightarrow> bytes) \<Rightarrow> (bytes \<Rightarrow> 'm) \<Rightarrow> 'm pb_codec" where
  "codec_of put get = \<lparr>
     pb_encode_delimited = (\<lambda>m room. if length (put m) \<le> room then Some (put m) else None),
     pb_decode_delimited = (\<lambda>bs. Some (get bs))\<rparr>"

definition put_bool :: "bool \<Rightarrow> u8" where "put_bool b = (if b then 1 else 0)"
definition get_bool :: "u8 \<Rightarrow> bool" where "get_bool b = (b \<noteq> 0)"

definition cstr :: "bytes \<Rightarrow> bytes" where "cstr bs = takeWhile (\<lambda>b. b \<noteq> 0) bs"
definition past_cstr :: "bytes \<Rightarrow> bytes" where "past_cstr bs = drop (Suc (length (cstr bs))) bs"

definition ref_AuthRequest :: "snova_AuthRequest pb_codec" where
  "ref_AuthRequest = codec_of
     (\<lambda>m. ar_user m @ [0] @ native_to_big 8 (ar_client_id m) @
          [put_bool (ar_is_entry m), put_bool (ar_is_exit m), put_bool (ar_is_middle m)])
     (\<lambda>bs. let r = past_cstr bs in
        \<lparr>ar_user = cstr bs, ar_client_id = big_to_native (take 8 r), ar_is_entry = get_bool (r ! 8),
         ar_is_exit = get_bool (r ! 9), ar_is_middle = get_bool (r ! 10)\<rparr>)"

definition ref_AuthResponse :: "snova_AuthResponse pb_codec" where
  "ref_AuthResponse = codec_of
     (\<lambda>m. put_bool (as_success m) # native_to_big 8 (as_iv m))
     (\<lambda>bs. \<lparr>as_success = get_bool (bs ! 0), as_iv = big_to_native (tl bs)\<rparr>)"

definition ref_CommonResponse :: "snova_CommonResponse pb_codec" where
  "ref_CommonResponse = codec_of
     (\<lambda>m. cr_reason m @ [0] @ native_to_big 4 (cr_errc m) @ [put_bool (cr_success m)])
     (\<lambda>bs. let r = past_cstr bs in
        \<lparr>cr_success = get_bool (r ! 4), cr_errc = big_to_native (take 4 r), cr_reason = cstr bs\<rparr>)"

definition ref_StreamOpenRequest :: "snova_StreamOpenRequest pb_codec" where
  "ref_StreamOpenRequest = codec_of
     (\<lambda>m. so_remote_host m @ [0] @ native_to_big 4 (so_remote_port m) @
          [put_bool (so_is_tcp m), put_bool (so_is_tls m)])
     (\<lambda>bs. let r = past_cstr bs in
        \<lparr>so_remote_host = cstr bs, so_remote_port = big_to_native (take 4 r),
         so_is_tcp = get_bool (r ! 4), so_is_tls = get_bool (r ! 5)\<rparr>)"

definition ref_TunnelOpenRequest :: "snova_TunnelOpenRequest pb_codec" where
  "ref_TunnelOpenRequest = codec_of
     (\<lambda>m. to_local_host m @ [0] @ native_to_big 4 (to_local_port m) @
          native_to_big 4 (to_remote_port m) @ [put_bool (to_is_tcp m)])
     (\<lambda>bs. let r = past_cstr bs in
        \<lparr>to_local_host = cstr bs, to_local_port = big_to_native (take 4 r),
         to_remote_port = big_to_native (take 4 (drop 4 r)), to_is_tcp = get_bool (r ! 8)\<rparr>)"

definition ref_TunnelOpenResponse :: "snova_TunnelOpenResponse pb_codec" where
  "ref_TunnelOpenResponse = codec_of
     (\<lambda>m. put_bool (tr_success m) # native_to_big 8 (tr_tunnel_id m) @ native_to_big 4 (tr_errc m))
     (\<lambda>bs. \<lparr>tr_success = get_bool (bs ! 0), tr_tunnel_id = big_to_native (take 8 (tl bs)),
            tr_errc = big_to_native (drop 9 bs)\<rparr>)"

definition ref_TunnelCloseRequest :: "snova_TunnelCloseRequest pb_codec" where
  "ref_TunnelCloseRequest = codec_of
     (\<lambda>m. native_to_big 8 (tc_tunnel_id m))
     (\<lambda>bs. \<lparr>tc_tunnel_id = big_to_native bs\<rparr>)"

definition ref_pb :: pb_lib where
  "ref_pb = \<lparr>AuthRequest_fields = ref_AuthRequest, AuthResponse_fields = ref_AuthResponse,
     CommonResponse_fields = ref_CommonResponse, StreamOpenRequest_fields = ref_StreamOpenRequest,
     TunnelOpenRequest_fields = ref_TunnelOpenRequest,
     TunnelOpenResponse_fields = ref_TunnelOpenResponse,
     TunnelCloseRequest_fields = ref_TunnelCloseRequest\<rparr>"

subsection \<open>An AEAD\<close>

definition ref_tag :: "bytes \<Rightarrow> bytes \<Rightarrow> bytes" where
  "ref_tag key nonce = take 4 (key @ replicate 4 0) @ take 12 (nonce @ replicate 12 0)"

definition ref_aead :: "bytes aead" where
  "ref_aead = \<lparr>EVP_AEAD_key_length = 32, EVP_AEAD_nonce_length = 12, EVP_AEAD_max_tag_len = 16,
     EVP_AEAD_CTX_new = (\<lambda>key _. Some key),
     EVP_AEAD_CTX_seal = (\<lambda>key mx nonce pt.
        if length pt + 16 \<le> mx then Some (pt @ ref_tag key nonce) else None),
     EVP_AEAD_CTX_open = (\<lambda>key mx nonce ct.
        let n = length ct - 16 in
        if 16 \<le> length ct \<and> n \<le> mx \<and> drop n ct = ref_tag key nonce then Some (take n ct) else None)\<rparr>"

subsection \<open>They satisfy the contracts\<close>

lemma get_put_bool [simp]: "get_bool (put_bool b) = b"
  by (simp add: get_bool_def put_bool_def)

lemma cstr_append [simp]: "0 \<notin> set s \<Longrightarrow> cstr (s @ 0 # r) = s"
  by (induction s) (auto simp: cstr_def)

lemma past_cstr_append [simp]: "0 \<notin> set s \<Longrightarrow> past_cstr (s @ 0 # r) = r"
  by (simp add: past_cstr_def)

lemma pb_ok_codec_of:
  assumes "\<And>m. valid m \<Longrightarrow> put m \<noteq> [] \<and> length (put m) \<le> mx + 2 \<and> get (put m) = m"
  shows "pb_ok valid mx (codec_of put get)"
  using assms by (auto simp: pb_ok_def codec_of_def intro: order_trans)

lemma ref_pb_ok: "pb_lib_ok ref_pb"
proof -
  have "pb_ok wf_AuthRequest 275 ref_AuthRequest"
    unfolding ref_AuthRequest_def
    by (rule pb_ok_codec_of) (auto simp: wf_AuthRequest_def c_string_def nth_append)
  moreover have "pb_ok (\<lambda>_. True) 13 ref_AuthResponse"
    unfolding ref_AuthResponse_def by (rule pb_ok_codec_of) auto
  moreover have "pb_ok wf_CommonResponse 527 ref_CommonResponse"
    unfolding ref_CommonResponse_def
    by (rule pb_ok_codec_of) (auto simp: wf_CommonResponse_def c_string_def nth_append)
  moreover have "pb_ok wf_StreamOpenRequest 524 ref_StreamOpenRequest"
    unfolding ref_StreamOpenRequest_def
    by (rule pb_ok_codec_of) (auto simp: wf_StreamOpenRequest_def c_string_def nth_append)
  moreover have "pb_ok wf_TunnelOpenRequest 528 ref_TunnelOpenRequest"
    unfolding ref_TunnelOpenRequest_def
    by (rule pb_ok_codec_of) (auto simp: wf_TunnelOpenRequest_def c_string_def nth_append)
  moreover have "pb_ok (\<lambda>_. True) 24 ref_TunnelOpenResponse"
    unfolding ref_TunnelOpenResponse_def
    by (rule pb_ok_codec_of) (auto simp: drop_Cons')
  moreover have "pb_ok (\<lambda>_. True) 11 ref_TunnelCloseRequest"
    unfolding ref_TunnelCloseRequest_def
    by (rule pb_ok_codec_of) auto
  ultimately show ?thesis by (simp add: pb_lib_ok_def ref_pb_def)
qed

lemma ref_aead_ok: "aead_ok ref_aead"
  by (auto simp: aead_ok_def ref_aead_def ref_tag_def Let_def)

end
