(* ===== verification/Frame_Codec.thy ===== *)
theory Frame_Codec
  imports Reference_Libs
begin

text \<open>
  The contract between the cipher context and the mux connection that reads from it: what
  \<^verbatim>\<open>MuxConnection::ReadEvent\<close> relies on when it calls \<^verbatim>\<open>CipherContext::Decrypt\<close> on a
  growing buffer.  The contract is the locale \<open>frame_codec\<close>; its interpretation on
  \<open>CipherContext_Decrypt\<close> discharges the laws for every AEAD and message codec that behave as
  documented.  The theory also holds the properties of \<open>Encrypt\<close> and \<open>Decrypt\<close> as a pair.
\<close>

subsection \<open>The contract of a frame decoder\<close>

text \<open>
  \<open>framed r e f r'\<close>: \<open>f\<close> is a frame of event \<open>e\<close> for a decoder in state \<open>r\<close>, which is then in
  state \<open>r'\<close>.
\<close>

locale frame_codec =
  fixes dec :: "'r \<Rightarrow> bytes \<Rightarrow> (int + 'e \<times> nat) \<times> 'r"
    and framed :: "'r \<Rightarrow> 'e \<Rightarrow> bytes \<Rightarrow> 'r \<Rightarrow> bool"
    and bound :: nat
  assumes dec_frame: "framed r e f r' \<Longrightarrow> dec r (f @ rest) = (Inr (e, length f), r')"
    and dec_prefix: "framed r e f r' \<Longrightarrow> k < length f \<Longrightarrow>
      dec r (take k f) = (Inl ERR_NEED_MORE_INPUT_DATA, r)"
    and frame_size: "framed r e f r' \<Longrightarrow> 0 < length f \<and> length f \<le> bound"
begin

text \<open>A sequence of frames, each for the state its predecessors leave.\<close>

fun frames :: "'r \<Rightarrow> ('e \<times> bytes) list \<Rightarrow> 'r \<Rightarrow> bool" where
  "frames r [] r' \<longleftrightarrow> r' = r"
| "frames r ((e, f) # efs) r' \<longleftrightarrow> (\<exists>r1. framed r e f r1 \<and> frames r1 efs r')"

lemma dec_partial:
  assumes "framed r e f r'" "f @ rest = b @ p" "length b < length f"
  shows "dec r b = (Inl ERR_NEED_MORE_INPUT_DATA, r)"
proof -
  have "b = take (length b) f" using assms(2,3)
    by (metis append_eq_append_conv_if less_imp_le not_le)
  then show ?thesis using dec_prefix [OF assms(1,3)] by simp
qed

lemma dec_complete:
  assumes "framed r e f r'" "f @ rest = b @ p" "length f \<le> length b"
  shows "dec r b = (Inr (e, length f), r')" and "drop (length f) b @ p = rest"
proof -
  have b: "b = f @ drop (length f) b"
    using assms(2,3) by (metis append_eq_conv_conj append_take_drop_id take_append take_all diff_is_0_eq
        take0 append_Nil2)
  then show "dec r b = (Inr (e, length f), r')" using dec_frame [OF assms(1)] by metis
  from b assms(2) show "drop (length f) b @ p = rest" by (metis append_assoc append_same_eq same_append_eq)
qed

end

subsection \<open>The cipher context provides it\<close>

definition cipher_framed ::
  "'c aead \<Rightarrow> pb_lib \<Rightarrow> 'c CipherContext \<Rightarrow> MuxEvent \<Rightarrow> bytes \<Rightarrow> 'c CipherContext \<Rightarrow> bool" where
  "cipher_framed A L r e f r' \<longleftrightarrow> cipher_sized r \<and> r' = r\<lparr>decrypt_iv := decrypt_iv r + 1\<rparr> \<and>
     (\<exists>c bs. decrypt_ctx r = Some c \<and> frame_of A c (decrypt_iv r) e bs f \<and> length bs \<le> 8320 \<and>
        head_type (ev_head e) = event_type (ev_body e) \<and>
        (bs = [] \<longrightarrow> ev_body e = RetireConnRequest \<or> ev_body e = StreamCloseRequest \<or>
           ev_body e = StreamChunk [] 0) \<and>
        MuxEvent_Decode L (ev_head e) (ev_body e) bs = Inr (ev_body e))"

interpretation cipher: frame_codec "CipherContext_Decrypt A L" "cipher_framed A L" 8360 for A L
proof
  fix r e f r' and rest :: bytes
  assume "cipher_framed A L r e f r'"
  then obtain c bs where r: "cipher_sized r" "decrypt_ctx r = Some c" "decrypt_iv r = decrypt_iv r"
      "r' = r\<lparr>decrypt_iv := decrypt_iv r + 1\<rparr>"
    and fr: "frame_of A c (decrypt_iv r) e bs f" and len: "length bs \<le> 8320"
    and ty: "head_type (ev_head e) = event_type (ev_body e)"
    and empty: "bs = [] \<longrightarrow> ev_body e = RetireConnRequest \<or> ev_body e = StreamCloseRequest \<or>
           ev_body e = StreamChunk [] 0"
    and dec: "MuxEvent_Decode L (ev_head e) (ev_body e) bs = Inr (ev_body e)"
    unfolding cipher_framed_def by auto
  show "CipherContext_Decrypt A L r (f @ rest) = (Inr (e, length f), r')"
    unfolding r(4) by (rule Decrypt_frame [OF fr len ty empty dec r(1-3)])
  show "0 < length f \<and> length f \<le> 8360"
    using frame_length [OF fr] len by simp
  show "CipherContext_Decrypt A L r (take k f) = (Inl ERR_NEED_MORE_INPUT_DATA, r)"
    if "k < length f" for k
    by (rule Decrypt_prefix_frame [OF fr len that r(1-3)])
qed

lemma Encrypt_framed:
  assumes "aead_ok A" "pb_lib_ok L" "synced s r" "wf_event kMaxChunkSize e" "length out = 8456"
  shows "\<exists>f n s' r'. CipherContext_Encrypt A L s e out = (Inr f, s', with_len n e) \<and>
     cipher_framed A L r (with_len n e) f r' \<and> synced s' r' \<and> s' = s\<lparr>encrypt_iv := encrypt_iv s + 1\<rparr>"
proof -
  obtain bs f c where enc: "CipherContext_Encrypt A L s e out =
       (Inr f, s\<lparr>encrypt_iv := encrypt_iv s + 1\<rparr>, with_len (length bs) e)"
    and c: "encrypt_ctx s = Some c" and fr: "frame_of A c (encrypt_iv s) (with_len (length bs) e) bs f"
    and len: "length bs \<le> max 530 8192"
    and rest: "bs = [] \<longrightarrow> ev_body e = RetireConnRequest \<or> ev_body e = StreamCloseRequest \<or>
       ev_body e = StreamChunk [] 0"
      "MuxEvent_Decode L (ev_head (with_len (length bs) e)) (ev_body e) bs = Inr (ev_body e)"
    by (rule Encrypt_synced [OF assms(1-4) _ assms(5)]) (simp, blast)
  have ty: "head_type (ev_head e) = event_type (ev_body e)"
    using assms(4) by (simp add: wf_event_def)
  have s: "cipher_sized r" "decrypt_ctx r = Some c" "decrypt_iv r = encrypt_iv s"
    using assms(3) c by (auto simp: synced_def)
  have "cipher_framed A L r (with_len (length bs) e) f (r\<lparr>decrypt_iv := decrypt_iv r + 1\<rparr>)"
    unfolding cipher_framed_def using s fr len rest ty by auto
  moreover have "synced (s\<lparr>encrypt_iv := encrypt_iv s + 1\<rparr>) (r\<lparr>decrypt_iv := decrypt_iv r + 1\<rparr>)"
    using assms(3) by (auto simp: synced_def cipher_sized_def)
  ultimately show ?thesis using enc by blast
qed

subsection \<open>Properties of Encrypt and Decrypt\<close>

text \<open>C6: an event written by one context is read back by its peer.  With the two contexts
  synchronised (same key, same counter), every well-formed event with at most
  \<open>kMaxChunkSize\<close> bytes of chunk encrypts into the connection's write buffer; the receiver
  decrypts exactly that frame from the front of whatever follows it, gets the event back with
  its length field filled in, consumes exactly the frame, and the two stay synchronised.\<close>

theorem cipher_roundtrip:
  assumes "aead_ok A" "pb_lib_ok L" "synced s r" "wf_event kMaxChunkSize e" "length out = 8456"
  shows "\<exists>f n s' r'. CipherContext_Encrypt A L s e out = (Inr f, s', with_len n e) \<and>
     CipherContext_Decrypt A L r (f @ rest) = (Inr (with_len n e, length f), r') \<and> synced s' r'"
  using Encrypt_framed [OF assms] cipher.dec_frame by blast

definition sample_of :: "bytes \<Rightarrow> MuxEvent" where
  "sample_of d = \<lparr>ev_head = \<lparr>head_sid = 3, head_len = 0, head_type = 5, head_flags = MuxFlags_init\<rparr>,
     ev_body = StreamChunk d (word_of_nat (length d))\<rparr>"

definition sample_chunk :: MuxEvent where
  "sample_chunk = sample_of [1, 2]"

definition sample_ctx :: "bytes CipherContext" where
  "sample_ctx = the (CipherContext_New ref_aead ''chacha20_poly1305'' [7, 8, 9])"

lemma sample_ctx_synced: "synced sample_ctx sample_ctx"
proof -
  have "CipherContext_New ref_aead ''chacha20_poly1305'' [7, 8, 9] = Some sample_ctx"
    by (simp add: sample_ctx_def CipherContext_New_def get_cipher_aead_def)
  then show ?thesis using New_synced [OF ref_aead_ok] by blast
qed

lemma sample_chunk_wf: "wf_event 8192 sample_chunk"
  by (simp add: wf_event_def sample_chunk_def sample_of_def)

lemma sample_encrypts:
  "\<exists>f s'. CipherContext_Encrypt ref_aead ref_pb sample_ctx sample_chunk (replicate 8456 0) =
     (Inr f, s', with_len 2 sample_chunk) \<and> length f = 42"
proof (rule Encrypt_synced [OF ref_aead_ok ref_pb_ok sample_ctx_synced sample_chunk_wf])
  fix bs f c
  assume enc: "CipherContext_Encrypt ref_aead ref_pb sample_ctx sample_chunk (replicate 8456 0) =
       (Inr f, sample_ctx\<lparr>encrypt_iv := encrypt_iv sample_ctx + 1\<rparr>, with_len (length bs) sample_chunk)"
    and fr: "frame_of ref_aead c (encrypt_iv sample_ctx) (with_len (length bs) sample_chunk) bs f"
    and dec: "MuxEvent_Decode ref_pb (ev_head (with_len (length bs) sample_chunk)) (ev_body sample_chunk) bs =
        Inr (ev_body sample_chunk)"
  assume "length bs \<le> max 530 8192"
  then have "unat (word_of_nat (length bs) :: u16) = length bs" by (simp add: unat_of_nat)
  then have "length bs = 2"
    using dec by (auto simp: sample_chunk_def sample_of_def StreamChunk_Decode_def Let_def with_len_def
        split: if_splits)
  with enc frame_length [OF fr] show ?thesis
    by (auto simp: sample_chunk_def sample_of_def MuxFlags_init_def)
qed simp_all

theorem cipher_roundtrip_witness:
  "\<exists>f n s' r'. CipherContext_Encrypt ref_aead ref_pb sample_ctx sample_chunk (replicate 8456 0) =
       (Inr f, s', with_len n sample_chunk) \<and>
     CipherContext_Decrypt ref_aead ref_pb sample_ctx (f @ [9]) =
       (Inr (with_len n sample_chunk, length f), r') \<and> synced s' r'"
  using cipher_roundtrip [OF ref_aead_ok ref_pb_ok sample_ctx_synced sample_chunk_wf] by simp

text \<open>A frame that has not arrived completely is never misread.  On every strict prefix of
  a frame the peer's \<open>Decrypt\<close> asks for more input and changes nothing.\<close>

theorem decrypt_waits_for_frame:
  assumes "aead_ok A" "pb_lib_ok L" "synced s r" "wf_event kMaxChunkSize e" "length out = 8456"
    and "CipherContext_Encrypt A L s e out = (Inr f, s', e')" and "k < length f"
  shows "CipherContext_Decrypt A L r (take k f) = (Inl ERR_NEED_MORE_INPUT_DATA, r)"
  using Encrypt_framed [OF assms(1-5)] assms(6,7) cipher.dec_prefix by (metis Inr_inject prod.inject)

theorem decrypt_waits_for_frame_witness:
  "\<exists>f s' e'. CipherContext_Encrypt ref_aead ref_pb sample_ctx sample_chunk (replicate 8456 0) = (Inr f, s', e') \<and>
     30 < length f \<and>
     CipherContext_Decrypt ref_aead ref_pb sample_ctx (take 30 f) = (Inl ERR_NEED_MORE_INPUT_DATA, sample_ctx)"
proof -
  obtain f s' where f: "CipherContext_Encrypt ref_aead ref_pb sample_ctx sample_chunk (replicate 8456 0) =
      (Inr f, s', with_len 2 sample_chunk)" "length f = 42"
    using sample_encrypts by blast
  with decrypt_waits_for_frame [OF ref_aead_ok ref_pb_ok sample_ctx_synced sample_chunk_wf _ f(1), of 30]
  show ?thesis by auto
qed

text \<open>A chunk above the receiver's limit is sent but never accepted.  \<open>Encrypt\<close> takes a
  chunk of 8321 to 8416 bytes (the write buffer has room for it), and the peer answers the frame
  with \<open>ERR_INVALID_EVENT\<close>, the error on which its read loop closes the connection.\<close>

theorem oversized_chunk_rejected:
  assumes "aead_ok A" "pb_lib_ok L" "synced s r" "wf_event 8416 e" "length out = 8456"
    and "ev_body e = StreamChunk d n" and "8320 < length d"
  shows "\<exists>f s' e'. CipherContext_Encrypt A L s e out = (Inr f, s', e') \<and>
     CipherContext_Decrypt A L r (f @ rest) = (Inl ERR_INVALID_EVENT, r)"
proof (rule Encrypt_synced [OF assms(1-4) _ assms(5)])
  fix bs f c
  assume enc: "CipherContext_Encrypt A L s e out =
       (Inr f, s\<lparr>encrypt_iv := encrypt_iv s + 1\<rparr>, with_len (length bs) e)"
    and c: "encrypt_ctx s = Some c" and fr: "frame_of A c (encrypt_iv s) (with_len (length bs) e) bs f"
    and dec: "MuxEvent_Decode L (ev_head (with_len (length bs) e)) (ev_body e) bs = Inr (ev_body e)"
  have "8320 < length bs"
    using dec assms(6,7) by (auto simp: StreamChunk_Decode_def Let_def split: if_splits)
  moreover have "cipher_sized r" "decrypt_ctx r = Some c" "decrypt_iv r = encrypt_iv s"
    using assms(3) c by (auto simp: synced_def)
  ultimately have "CipherContext_Decrypt A L r (f @ rest) = (Inl ERR_INVALID_EVENT, r)"
    using Decrypt_oversized_frame [OF fr] by blast
  with enc show ?thesis by blast
qed simp

theorem oversized_chunk_rejected_witness:
  "\<exists>f s' e'. CipherContext_Encrypt ref_aead ref_pb sample_ctx (sample_of (replicate 8400 0)) (replicate 8456 0) =
       (Inr f, s', e') \<and>
     CipherContext_Decrypt ref_aead ref_pb sample_ctx (f @ []) = (Inl ERR_INVALID_EVENT, sample_ctx)"
proof (rule oversized_chunk_rejected [OF ref_aead_ok ref_pb_ok sample_ctx_synced,
      where d = "replicate 8400 0" and n = 8400])
  show "wf_event 8416 (sample_of (replicate 8400 0))"
    by (simp add: wf_event_def sample_of_def unat_of_nat)
qed (simp_all add: sample_of_def)

text \<open>C28: with cipher method "none" the body of every event is lost.  The head is encoded before
  the body, with the length field still zero, so the peer takes the first eight bytes for a whole
  event without contents and reads the body's bytes as the next head.\<close>

theorem none_cipher_loses_body:
  assumes "CipherContext_New A ''none'' key = Some s" "CipherContext_New A ''none'' key' = Some r"
    and "pb_lib_ok L" "wf_event kMaxChunkSize e" "head_len (ev_head e) = 0" "length out = 8456"
  shows "\<exists>body e0. CipherContext_Encrypt A L s e out = (Inr (head_bytes (ev_head e) @ body), s, e) \<and>
     MuxEvent_Encode L (ev_body e) 8448 = Inr body \<and> MuxEvent_NewEvent (ev_head e) = Some e0 \<and>
     CipherContext_Decrypt A L r ((head_bytes (ev_head e) @ body) @ rest) =
       (Inr (e0, 8), r\<lparr>decrypt_iv := decrypt_iv r + 1\<rparr>)"
proof -
  have s: "encrypt_ctx s = None" "cipher_tag_len s = 0" "decrypt_ctx r = None" "cipher_tag_len r = 0"
    using assms(1,2) by (auto simp: CipherContext_New_def get_cipher_aead_def Let_def CipherContext_init_def)
  have "wf_body kMaxChunkSize (ev_body e)" using assms(4) by (simp add: wf_event_def)
  then obtain body where body: "MuxEvent_Encode L (ev_body e) 8448 = Inr body" "length body \<le> 8192"
    using MuxEvent_body_roundtrip [OF assms(3), of kMaxChunkSize "ev_body e" 8448] by auto
  have out: "take 8 out @ drop 8 out = out" "length (take 8 out) = 8" using assms(6) by simp_all
  have "CipherContext_Encrypt A L s e out = (Inr (head_bytes (ev_head e) @ body), s, e)"
    using body s assms(6) by (simp add: CipherContext_Encrypt_def Let_def MuxEventHead_Encode_eq blit_def)
  moreover obtain e0 where new: "MuxEvent_NewEvent (ev_head e) = Some e0"
    using assms(4) unfolding wf_event_def by (metis NewEvent_of_event_type)
  moreover have "CipherContext_Decrypt A L r ((head_bytes (ev_head e) @ body) @ rest) =
       (Inr (e0, 8), r\<lparr>decrypt_iv := decrypt_iv r + 1\<rparr>)"
    using s new assms(5)
    by (simp add: CipherContext_Decrypt_def decrypt_head_def Let_def MuxEventHead_Decode_bytes)
  ultimately show ?thesis using body by blast
qed

definition plain_ctx :: "bytes CipherContext" where
  "plain_ctx = the (CipherContext_New ref_aead ''none'' [])"

theorem none_cipher_loses_body_witness:
  "\<exists>body e0. CipherContext_Encrypt ref_aead ref_pb plain_ctx sample_chunk (replicate 8456 0) =
       (Inr (head_bytes (ev_head sample_chunk) @ body), plain_ctx, sample_chunk) \<and>
     MuxEvent_Encode ref_pb (ev_body sample_chunk) 8448 = Inr body \<and>
     MuxEvent_NewEvent (ev_head sample_chunk) = Some e0 \<and>
     CipherContext_Decrypt ref_aead ref_pb plain_ctx ((head_bytes (ev_head sample_chunk) @ body) @ []) =
       (Inr (e0, 8), plain_ctx\<lparr>decrypt_iv := decrypt_iv plain_ctx + 1\<rparr>)"
proof (rule none_cipher_loses_body [OF _ _ ref_pb_ok sample_chunk_wf])
  show "CipherContext_New ref_aead ''none'' [] = Some plain_ctx"
    by (simp add: plain_ctx_def CipherContext_New_def get_cipher_aead_def)
  show "CipherContext_New ref_aead ''none'' [] = Some plain_ctx"
    by (simp add: plain_ctx_def CipherContext_New_def get_cipher_aead_def)
qed (simp_all add: sample_chunk_def sample_of_def)

end
