(* ===== verification/Io_Connection.thy ===== *)
theory Io_Connection
  imports Snova_Prelude
begin

text \<open>
  \<^verbatim>\<open>snova/io\<close>: the interface \<^verbatim>\<open>IOConnection\<close> of \<^verbatim>\<open>io.h\<close> as a locale, the buffering
  connection of \<^verbatim>\<open>buffered_io.cc\<close> that implements it over another connection, and the
  helpers of \<^verbatim>\<open>io_util.cc\<close> that are clients of it.

  A connection is a state and its \<open>AsyncRead\<close>: given the size of the buffer it returns the
  bytes put there, an error code (0 for none) and the next state.  Sockets are asio's and a
  parameter.  \<open>pending\<close> is the stream of bytes still to be read, however the network cuts it.
\<close>

type_synonym 's reader = "'s \<Rightarrow> nat \<Rightarrow> bytes \<times> int \<times> 's"

subsection \<open>The interface\<close>

locale io_connection =
  fixes AsyncRead :: "'s reader"
    and pending :: "'s \<Rightarrow> bytes"
    and ok :: "'s \<Rightarrow> bool"
  assumes read_within: "ok s \<Longrightarrow> AsyncRead s k = (bs, ec, s') \<Longrightarrow> length bs \<le> k"
    and read_stream: "ok s \<Longrightarrow> AsyncRead s k = (bs, 0, s') \<Longrightarrow> pending s = bs @ pending s'"
    and read_inv: "ok s \<Longrightarrow> AsyncRead s k = (bs, ec, s') \<Longrightarrow> ok s'"

text \<open>A connection whose peer has not failed: while bytes are pending, a read delivers some.\<close>

locale live_connection = io_connection +
  assumes read_live: "ok s \<Longrightarrow> 0 < k \<Longrightarrow> pending s \<noteq> [] \<Longrightarrow> AsyncRead s k = (bs, ec, s') \<Longrightarrow>
    ec = 0 \<and> bs \<noteq> []"
    and read_end: "ok s \<Longrightarrow> pending s = [] \<Longrightarrow> AsyncRead s k = (bs, ec, s') \<Longrightarrow>
      bs = [] \<and> pending s' = []"

subsection \<open>BufferedIO\<close>

record 's BufferedIO =
  recv_buffer :: bytes
  io :: 's
  buf_offset :: nat
  buf_length :: nat

definition BufferedIO_refill :: "'s reader \<Rightarrow> 's BufferedIO \<Rightarrow> int \<times> 's BufferedIO" where
  "BufferedIO_refill rd b =
     (if buf_length b \<le> buf_offset b
      then (case rd (io b) 8192 of (bs, ec, s') \<Rightarrow>
              if ec \<noteq> 0 then (ec, b\<lparr>buf_offset := 0, buf_length := 0, io := s'\<rparr>)
              else (0, b\<lparr>buf_offset := 0, buf_length := length bs, io := s',
                         recv_buffer := blit 0 bs (recv_buffer b)\<rparr>))
      else (0, b))"

definition BufferedIO_AsyncRead :: "'s reader \<Rightarrow> 's BufferedIO reader" where
  "BufferedIO_AsyncRead rd b k =
     (case BufferedIO_refill rd b of (ec, b1) \<Rightarrow>
        if ec \<noteq> 0 then ([], ec, b1)
        else if buf_offset b1 < buf_length b1
        then let read_len = min k (buf_length b1 - buf_offset b1)
             in (slice_of (buf_offset b1) read_len (recv_buffer b1), 0,
                 b1\<lparr>buf_offset := buf_offset b1 + read_len\<rparr>)
        else ([], 0, b1))"

definition buffered_pending :: "('s \<Rightarrow> bytes) \<Rightarrow> 's BufferedIO \<Rightarrow> bytes" where
  "buffered_pending pend b =
     slice_of (buf_offset b) (buf_length b - buf_offset b) (recv_buffer b) @ pend (io b)"

definition buffered_inv :: "('s \<Rightarrow> bool) \<Rightarrow> 's BufferedIO \<Rightarrow> bool" where
  "buffered_inv ok b \<longleftrightarrow> ok (io b) \<and> buf_length b \<le> length (recv_buffer b) \<and> 8192 \<le> length (recv_buffer b)"

subsection \<open>read\_exact and read\_until\<close>

partial_function (option) read_exact ::
  "'s reader \<Rightarrow> 's \<Rightarrow> nat \<Rightarrow> bytes \<Rightarrow> (bytes \<times> int \<times> 's) option" where
  "read_exact rd s rest acc =
     (if rest = 0 then Some (acc, 0, s)
      else case rd s rest of (bs, ec, s') \<Rightarrow>
        if ec \<noteq> 0 then Some (acc, ec, s')
        else read_exact rd s' (rest - length bs) (acc @ bs))"

text \<open>
  The buffer grows by doubling when less room than the marker is left.  The result is the
  position of the marker, or \<open>- 1\<close>, with the buffer, the bytes read into it and the state.
\<close>

definition vec_resize :: "nat \<Rightarrow> bytes \<Rightarrow> bytes" where
  "vec_resize n v = take n v @ replicate (n - length v) 0"

partial_function (option) read_until ::
  "'s reader \<Rightarrow> 's \<Rightarrow> bytes \<Rightarrow> nat \<Rightarrow> bytes \<Rightarrow> (int \<times> bytes \<times> nat \<times> 's) option" where
  "read_until rd s buf readed_len until =
     (case find_sub until (take readed_len buf) of
        Some pos \<Rightarrow> Some (int pos, buf, readed_len, s)
      | None \<Rightarrow>
          let buf1 = (if length buf - readed_len < length until then vec_resize (length buf * 2) buf else buf)
          in case rd s (length buf1 - readed_len) of (bs, ec, s') \<Rightarrow>
            if 0 < length bs
            then read_until rd s' (blit readed_len bs buf1) (readed_len + length bs) until
            else Some (- 1, buf1, readed_len, s'))"

text \<open>A position is one in the bytes read, on every connection.\<close>

lemma read_until_found:
  "read_until rd s buf n until = Some r \<Longrightarrow> 0 \<le> fst r \<Longrightarrow>
   find_sub until (take (fst (snd (snd r))) (fst (snd r))) = Some (nat (fst r))"
proof (induction rule: read_until.raw_induct [rotated 1, consumes 1])
  case (1 f rd s buf n until r)
  show ?case
  proof (cases "find_sub until (take n buf)")
    case (Some i)
    with 1(2) show ?thesis by auto
  next
    case None
    with 1 show ?thesis by (auto simp: Let_def split: prod.splits if_splits)
  qed
qed

subsection \<open>A simulated peer\<close>

text \<open>A socket whose peer sent the given segments and then closed: reads end at a segment.\<close>

fun script_read :: "bytes list reader" where
  "script_read [] k = ([], 2, [])"
| "script_read ([] # cs) k = script_read cs k"
| "script_read ((b # bs) # cs) k =
     (if length (b # bs) \<le> k then (b # bs, 0, cs)
      else (take k (b # bs), 0, drop k (b # bs) # cs))"

subsection \<open>Interpretations\<close>

lemma script_read_spec:
  "script_read s k = (bs, ec, s') \<Longrightarrow>
     length bs \<le> k \<and> (ec = 0 \<longrightarrow> concat s = bs @ concat s') \<and>
     (0 < k \<longrightarrow> concat s \<noteq> [] \<longrightarrow> ec = 0 \<and> bs \<noteq> []) \<and> (concat s = [] \<longrightarrow> bs = [] \<and> concat s' = [])"
proof (induction s k rule: script_read.induct)
  case (3 b bs cs k)
  have "take k (b # bs) @ drop k (b # bs) = b # bs" by (rule append_take_drop_id)
  with 3 show ?case by (fastforce split: if_splits)
qed auto

interpretation scripted: live_connection script_read concat "\<lambda>_. True"
  by unfold_locales (use script_read_spec in blast)+

lemma slice_of_split:
  "i \<le> n \<Longrightarrow> slice_of off n buf = slice_of off i buf @ slice_of (off + i) (n - i) buf"
proof -
  assume "i \<le> n"
  then have "take n (drop off buf) = take i (drop off buf) @ take (n - i) (drop i (drop off buf))"
    by (metis le_add_diff_inverse take_add)
  then show ?thesis by (simp add: slice_of_def add.commute)
qed

lemma buffered_serve:
  assumes "buffered_inv ok b" "n = min k (buf_length b - buf_offset b)"
  shows "length (slice_of (buf_offset b) n (recv_buffer b)) \<le> k"
    and "buffered_inv ok (b\<lparr>buf_offset := buf_offset b + n\<rparr>)"
    and "buffered_pending pend b =
      slice_of (buf_offset b) n (recv_buffer b) @ buffered_pending pend (b\<lparr>buf_offset := buf_offset b + n\<rparr>)"
  using assms slice_of_split [of n "buf_length b - buf_offset b" "buf_offset b" "recv_buffer b"]
  by (auto simp: buffered_inv_def buffered_pending_def slice_of_def)

context io_connection
begin

lemma buffered_refill:
  assumes ok: "buffered_inv ok b" and rf: "BufferedIO_refill AsyncRead b = (ec, b')"
  shows "buffered_inv ok b' \<and> (ec = 0 \<longrightarrow> buffered_pending pending b = buffered_pending pending b')"
proof (cases "buf_length b \<le> buf_offset b")
  case False
  with ok rf show ?thesis by (auto simp: BufferedIO_refill_def)
next
  case True
  obtain cs ec1 s1 where io: "AsyncRead (io b) 8192 = (cs, ec1, s1)" by (metis prod_cases3)
  have "ok (io b)" using ok by (simp add: buffered_inv_def)
  with io have "length cs \<le> 8192" "ok s1" "ec1 = 0 \<Longrightarrow> pending (io b) = cs @ pending s1"
    using read_within read_inv read_stream by blast+
  with True ok rf io show ?thesis
    by (auto simp: BufferedIO_refill_def buffered_inv_def buffered_pending_def slice_of_def blit_def
        split: if_splits)
qed

lemma buffered_read:
  assumes ok: "buffered_inv ok b" and rd: "BufferedIO_AsyncRead AsyncRead b k = (bs, ec, b')"
  shows "length bs \<le> k \<and> buffered_inv ok b' \<and>
    (ec = 0 \<longrightarrow> buffered_pending pending b = bs @ buffered_pending pending b')"
proof -
  obtain ec1 b1 where rf: "BufferedIO_refill AsyncRead b = (ec1, b1)" by fastforce
  note b1 = buffered_refill [OF ok rf]
  show ?thesis
  proof (cases "ec1 = 0 \<and> buf_offset b1 < buf_length b1")
    case True
    define n where "n = min k (buf_length b1 - buf_offset b1)"
    have "bs = slice_of (buf_offset b1) n (recv_buffer b1)" "ec = 0"
      "b' = b1\<lparr>buf_offset := buf_offset b1 + n\<rparr>"
      using rd rf True by (simp_all add: BufferedIO_AsyncRead_def Let_def n_def)
    with b1 True buffered_serve [OF conjunct1 [OF b1] n_def] show ?thesis by simp
  next
    case False
    with rd rf b1 show ?thesis by (auto simp: BufferedIO_AsyncRead_def split: if_splits)
  qed
qed

lemma buffered_connection:
  "io_connection (BufferedIO_AsyncRead AsyncRead) (buffered_pending pending) (buffered_inv ok)"
  by unfold_locales (use buffered_read in blast)+

end

context live_connection
begin

lemma refill_live:
  assumes ok: "buffered_inv ok b" and rf: "BufferedIO_refill AsyncRead b = (ec, b')"
  shows "buffered_pending pending b \<noteq> [] \<Longrightarrow> ec = 0 \<and> buf_offset b' < buf_length b'"
    and "buffered_pending pending b = [] \<Longrightarrow> buf_length b' \<le> buf_offset b' \<and> pending (io b') = []"
proof -
  obtain cs ec1 s1 where io: "AsyncRead (io b) 8192 = (cs, ec1, s1)" by (metis prod_cases3)
  have okio: "ok (io b)" using ok by (simp add: buffered_inv_def)
  have "pending (io b) = [] \<Longrightarrow> cs = [] \<and> pending s1 = []" by (rule read_end [OF okio _ io])
  moreover have "pending (io b) \<noteq> [] \<Longrightarrow> ec1 = 0 \<and> cs \<noteq> []" using read_live [OF okio _ _ io] by simp
  ultimately show "buffered_pending pending b \<noteq> [] \<Longrightarrow> ec = 0 \<and> buf_offset b' < buf_length b'"
    and "buffered_pending pending b = [] \<Longrightarrow> buf_length b' \<le> buf_offset b' \<and> pending (io b') = []"
    using ok rf io
    by (auto simp: BufferedIO_refill_def buffered_inv_def buffered_pending_def slice_of_def split: if_splits)
qed

lemma buffered_live:
  "live_connection (BufferedIO_AsyncRead AsyncRead) (buffered_pending pending) (buffered_inv ok)"
proof (intro live_connection.intro buffered_connection live_connection_axioms.intro)
  fix b k bs ec b'
  assume ok: "buffered_inv ok b" and rd: "BufferedIO_AsyncRead AsyncRead b k = (bs, ec, b')"
  obtain ec1 b1 where rf: "BufferedIO_refill AsyncRead b = (ec1, b1)" by fastforce
  have "buffered_inv ok b1" using buffered_refill [OF ok rf] by simp
  then have len: "buf_length b1 \<le> length (recv_buffer b1)" by (simp add: buffered_inv_def)
  {
    assume "0 < k" "buffered_pending pending b \<noteq> []"
    with refill_live(1) [OF ok rf] have "ec1 = 0" "buf_offset b1 < buf_length b1" by auto
    with \<open>0 < k\<close> len rd rf show "ec = 0 \<and> bs \<noteq> []"
      by (auto simp: BufferedIO_AsyncRead_def Let_def slice_of_def)
  }
  assume "buffered_pending pending b = []"
  with refill_live(2) [OF ok rf] rd rf show "bs = [] \<and> buffered_pending pending b' = []"
    by (auto simp: BufferedIO_AsyncRead_def Let_def slice_of_def buffered_pending_def split: if_splits)
qed

lemma read_exact_live:
  "ok s \<Longrightarrow> k \<le> length (pending s) \<Longrightarrow>
   \<exists>s'. read_exact AsyncRead s k acc = Some (acc @ take k (pending s), 0, s') \<and> ok s' \<and>
        pending s' = drop k (pending s)"
proof (induction k arbitrary: s acc rule: less_induct)
  case (less k)
  show ?case
  proof (cases "k = 0")
    case True
    with less.prems show ?thesis by (simp add: read_exact.simps)
  next
    case False
    obtain bs ec s1 where rd: "AsyncRead s k = (bs, ec, s1)" by (metis prod_cases3)
    have "pending s \<noteq> []" "0 < k" using False less.prems(2) by auto
    then have ec: "ec = 0" "bs \<noteq> []" using read_live [OF less.prems(1) _ _ rd] by auto
    have st: "pending s = bs @ pending s1" using read_stream less.prems(1) rd ec by blast
    have bl: "length bs \<le> k" using read_within [OF less.prems(1) rd] .
    have "k - length bs < k" using ec(2) False by simp
    moreover have "k - length bs \<le> length (pending s1)" using less.prems(2) st bl by simp
    ultimately obtain s' where "read_exact AsyncRead s1 (k - length bs) (acc @ bs) =
        Some ((acc @ bs) @ take (k - length bs) (pending s1), 0, s')" "ok s'"
        "pending s' = drop (k - length bs) (pending s1)"
      using less.IH [OF _ read_inv [OF less.prems(1) rd]] by blast
    with False rd ec st bl show ?thesis by (simp add: read_exact.simps [of _ s])
  qed
qed

lemma read_until_live:
  assumes "until \<noteq> []"
  shows "ok s \<Longrightarrow> n \<le> length buf \<Longrightarrow> 0 < length buf \<Longrightarrow>
   \<exists>buf' n' s'. read_until AsyncRead s buf n until =
       Some (case find_sub until (take n buf @ pending s) of Some i \<Rightarrow> int i | None \<Rightarrow> - 1, buf', n', s') \<and>
     ok s' \<and> n' \<le> length buf' \<and>
     take n' buf' @ pending s' = take n buf @ pending s"
proof (induction "length (pending s)" arbitrary: s buf n rule: less_induct)
  case less
  show ?case
  proof (cases "find_sub until (take n buf)")
    case (Some i)
    with less.prems find_sub_append [OF Some] show ?thesis
      by (simp add: read_until.simps)
  next
    case None
    define buf1 where
      "buf1 = (if length buf - n < length until then vec_resize (length buf * 2) buf else buf)"
    have "0 < length until" using assms by simp
    then have b1: "n < length buf1" using less.prems(2,3)
      by (simp add: buf1_def vec_resize_def del: length_greater_0_conv) linarith
    have b2: "take n buf1 = take n buf" using less.prems(2) by (simp add: buf1_def vec_resize_def)
    obtain bs ec s1 where rd: "AsyncRead s (length buf1 - n) = (bs, ec, s1)" by (metis prod_cases3)
    have bl: "length bs \<le> length buf1 - n" by (rule read_within [OF less.prems(1) rd])
    have ok1: "ok s1" by (rule read_inv [OF less.prems(1) rd])
    show ?thesis
    proof (cases "pending s = []")
      case True
      then have "bs = []" "pending s1 = []" using read_end [OF less.prems(1) _ rd] by auto
      then have "read_until AsyncRead s buf n until = Some (- 1, buf1, n, s1)"
        using None rd by (simp add: read_until.simps [of _ s] Let_def buf1_def)
      then show ?thesis using None True b1 b2 ok1 \<open>pending s1 = []\<close>
        by (intro exI [of _ buf1] exI [of _ n] exI [of _ s1]) simp
    next
      case False
      then have ec: "ec = 0" "bs \<noteq> []" using read_live [OF less.prems(1) _ False rd] b1 by auto
      have st: "pending s = bs @ pending s1" using read_stream less.prems(1) rd ec by blast
      have eq: "read_until AsyncRead s buf n until =
          read_until AsyncRead s1 (blit n bs buf1) (n + length bs) until"
        using None rd ec by (simp add: read_until.simps [of _ s] Let_def buf1_def)
      have tk: "take (n + length bs) (blit n bs buf1) = take n buf @ bs"
        using b1 b2 by (simp add: take_blit_upto)
      have len: "length (blit n bs buf1) = length buf1" using b1 bl by simp
      have "length (pending s1) < length (pending s)" using st ec by simp
      moreover have "n + length bs \<le> length buf1" "0 < length buf1" using b1 bl by auto
      ultimately show ?thesis
        using less.hyps [OF _ ok1, of "n + length bs" "blit n bs buf1"]
        unfolding eq tk len st append_assoc by blast
    qed
  qed
qed

end

interpretation buffered: live_connection "BufferedIO_AsyncRead script_read"
  "buffered_pending concat" "buffered_inv (\<lambda>_. True)"
  by (rule scripted.buffered_live)

end
