(* ===== verification/Async_Mutex.thy ===== *)
theory Async_Mutex
  imports Snova_Prelude
begin

text \<open>
  \<^verbatim>\<open>snova/util/async_channel_mutex.h\<close> and \<^verbatim>\<open>async_channel_mutex.cc\<close>: the mutex that
  serialises the writers of a connection, made of a flag and an asio channel of capacity one.
  Coroutines are interleaved at their suspension points only, so every stretch of code between two
  of them is one definition on the state (\<open>Lock_begin\<close>, \<open>Lock_resume\<close>, \<open>Unlock_begin\<close>, \<open>AsyncChannelMutex_Close\<close>),
  and \<open>mutex_step\<close> is the step relation of any number of coroutines that run
  \<^verbatim>\<open>Lock(); ...; Unlock();\<close> again and again while somebody may close the mutex.

  Of the channel the model keeps what asio documents: a receive takes a buffered value at once or
  parks; a send hands its value to a parked receiver, else buffers it, else waits; a parked
  operation is completed later by the executor; \<^verbatim>\<open>cancel\<close> completes parked operations with an
  error.
\<close>

subsection \<open>State\<close>

record AsyncChannelMutex =
  chan_open :: bool
  chan_buffered :: nat
  wait_count :: nat
  locked :: bool

definition AsyncChannelMutex_init :: AsyncChannelMutex where
  "AsyncChannelMutex_init = \<lparr>chan_open = True, chan_buffered = 0, wait_count = 0, locked = False\<rparr>"

text \<open>
  Where a coroutine is: outside; parked in \<^verbatim>\<open>async_receive\<close>; with a completed receive it has
  not resumed from (with a value, or with an error); after \<^verbatim>\<open>Lock\<close>; parked in \<^verbatim>\<open>async_send\<close>.
\<close>

datatype mutex_pc = Outside | Parked | Woken | Cancelled | Inside | Sending

text \<open>The loop of \<^verbatim>\<open>Lock\<close>, from its condition to its next suspension point or its return.\<close>

definition Lock_loop :: "AsyncChannelMutex \<Rightarrow> AsyncChannelMutex \<times> mutex_pc" where
  "Lock_loop m =
     (if locked m
      then let m1 = m\<lparr>wait_count := wait_count m + 1\<rparr> in
           if 0 < chan_buffered m1 then (m1\<lparr>chan_buffered := chan_buffered m1 - 1\<rparr>, Woken)
           else (m1, Parked)
      else (m\<lparr>locked := True\<rparr>, Inside))"

definition Lock_begin :: "AsyncChannelMutex \<Rightarrow> AsyncChannelMutex \<times> mutex_pc" where
  "Lock_begin m = (if \<not> chan_open m then (m, Inside) else Lock_loop m)"

text \<open>
  After the receive.  With an error \<^verbatim>\<open>Lock\<close> returns it; \<^verbatim>\<open>MuxConnection::Write\<close>, the only
  caller, ignores the result and goes on, so the coroutine is \<open>Inside\<close> then too.
\<close>

definition Lock_resume :: "bool \<Rightarrow> AsyncChannelMutex \<Rightarrow> AsyncChannelMutex \<times> mutex_pc" where
  "Lock_resume ec m =
     (let m1 = m\<lparr>wait_count := wait_count m - 1\<rparr> in
      if ec then (m1, Inside) else Lock_loop m1)"

datatype unlock_effect = NoSend | Send

definition Unlock_begin :: "AsyncChannelMutex \<Rightarrow> AsyncChannelMutex \<times> unlock_effect" where
  "Unlock_begin m =
     (if \<not> chan_open m then (m, NoSend)
      else let m1 = m\<lparr>locked := False\<rparr> in
           if 0 < wait_count m1 then (m1, Send) else (m1, NoSend))"

definition AsyncChannelMutex_Close :: "AsyncChannelMutex \<Rightarrow> AsyncChannelMutex" where
  "AsyncChannelMutex_Close m = m\<lparr>chan_open := False\<rparr>"

text \<open>\<^verbatim>\<open>cancel()\<close>: the operations that are parked complete.\<close>

definition cancel_parked :: "mutex_pc \<Rightarrow> mutex_pc" where
  "cancel_parked p = (case p of Parked \<Rightarrow> Cancelled | Sending \<Rightarrow> Outside | _ \<Rightarrow> p)"

subsection \<open>Interleaved coroutines\<close>

type_synonym mutex_state = "AsyncChannelMutex \<times> (nat \<Rightarrow> mutex_pc)"

text \<open>
  A coroutine comes out of a stretch of \<^verbatim>\<open>Lock\<close>; when it took the buffered value and a sender
  is waiting for room, the sender's value takes its place.
\<close>

inductive lock_enter :: "nat \<Rightarrow> AsyncChannelMutex \<times> mutex_pc \<Rightarrow> (nat \<Rightarrow> mutex_pc) \<Rightarrow> mutex_state \<Rightarrow> bool" where
  enter: "p \<noteq> Woken \<or> (\<forall>u. pc u \<noteq> Sending) \<Longrightarrow> lock_enter t (m, p) pc (m, pc(t := p))"
| enter_refill: "pc u = Sending \<Longrightarrow> u \<noteq> t \<Longrightarrow>
    lock_enter t (m, Woken) pc (m\<lparr>chan_buffered := chan_buffered m + 1\<rparr>, pc(t := Woken, u := Outside))"

inductive mutex_step :: "mutex_state \<Rightarrow> mutex_state \<Rightarrow> bool" where
  lock: "pc t = Outside \<Longrightarrow> lock_enter t (Lock_begin m) pc s' \<Longrightarrow> mutex_step (m, pc) s'"
| resume: "pc t = Woken \<Longrightarrow> lock_enter t (Lock_resume False m) pc s' \<Longrightarrow> mutex_step (m, pc) s'"
| resume_error: "pc t = Cancelled \<Longrightarrow> lock_enter t (Lock_resume True m) pc s' \<Longrightarrow> mutex_step (m, pc) s'"
| unlock: "pc t = Inside \<Longrightarrow> Unlock_begin m = (m', NoSend) \<Longrightarrow> mutex_step (m, pc) (m', pc(t := Outside))"
| unlock_wake: "pc t = Inside \<Longrightarrow> Unlock_begin m = (m', Send) \<Longrightarrow> pc u = Parked \<Longrightarrow>
    mutex_step (m, pc) (m', pc(t := Outside, u := Woken))"
| unlock_buffer: "pc t = Inside \<Longrightarrow> Unlock_begin m = (m', Send) \<Longrightarrow> \<forall>u. pc u \<noteq> Parked \<Longrightarrow>
    chan_buffered m' = 0 \<Longrightarrow>
    mutex_step (m, pc) (m'\<lparr>chan_buffered := 1\<rparr>, pc(t := Outside))"
| unlock_wait: "pc t = Inside \<Longrightarrow> Unlock_begin m = (m', Send) \<Longrightarrow> \<forall>u. pc u \<noteq> Parked \<Longrightarrow>
    0 < chan_buffered m' \<Longrightarrow>
    mutex_step (m, pc) (m', pc(t := Sending))"
| close: "mutex_step (m, pc) (AsyncChannelMutex_Close m, cancel_parked \<circ> pc)"

inductive mutex_reachable :: "mutex_state \<Rightarrow> bool" where
  start: "mutex_reachable (AsyncChannelMutex_init, \<lambda>_. Outside)"
| step: "mutex_reachable s \<Longrightarrow> mutex_step s s' \<Longrightarrow> mutex_reachable s'"

subsection \<open>The invariant\<close>

definition busy :: "(nat \<Rightarrow> mutex_pc) \<Rightarrow> nat set" where
  "busy pc = {t. pc t \<noteq> Outside}"

definition waiting :: "mutex_pc \<Rightarrow> bool" where
  "waiting p \<longleftrightarrow> p = Parked \<or> p = Woken \<or> p = Cancelled"

definition waiters :: "(nat \<Rightarrow> mutex_pc) \<Rightarrow> nat set" where
  "waiters pc = {t. waiting (pc t)}"

text \<open>The counter counts the coroutines between \<^verbatim>\<open>wait_count_++\<close> and \<^verbatim>\<open>wait_count_--\<close>.\<close>

definition count_inv :: "mutex_state \<Rightarrow> bool" where
  "count_inv s \<longleftrightarrow> finite (busy (snd s)) \<and> AsyncChannelMutex.wait_count (fst s) = card (waiters (snd s))"

text \<open>
  While the mutex is open, its flag is set exactly when a coroutine is inside, there is never a
  second one, and when it is free a parked coroutine is not forgotten: another one has been woken
  and has not run yet.
\<close>

definition excl_inv :: "mutex_state \<Rightarrow> bool" where
  "excl_inv s \<longleftrightarrow> (case s of (m, pc) \<Rightarrow> chan_open m \<longrightarrow>
     (\<forall>t. pc t \<noteq> Cancelled) \<and> (locked m \<longleftrightarrow> (\<exists>t. pc t = Inside)) \<and>
     (\<forall>t u. pc t = Inside \<longrightarrow> pc u = Inside \<longrightarrow> t = u) \<and>
     chan_buffered m \<le> 1 \<and>
     (\<forall>t. pc t = Parked \<longrightarrow> chan_buffered m = 0) \<and>
     (\<forall>t. pc t = Sending \<longrightarrow> chan_buffered m = 1) \<and>
     (\<forall>t. pc t = Parked \<longrightarrow> locked m \<or> (\<exists>u. pc u = Woken)))"

lemma waiting_simps [simp]:
  "waiting Parked" "waiting Woken" "waiting Cancelled"
  "\<not> waiting Outside" "\<not> waiting Inside" "\<not> waiting Sending"
  by (simp_all add: waiting_def)

lemma finite_update [simp]: "finite (busy pc) \<Longrightarrow> finite (busy (pc(u := p)))"
  by (rule finite_subset [of _ "insert u (busy pc)"]) (auto simp: busy_def)

lemma finite_waiters [simp]: "finite (busy pc) \<Longrightarrow> finite (waiters pc)"
  by (rule finite_subset [of _ "busy pc"]) (auto simp: waiters_def waiting_def busy_def)

lemma waiters_update:
  "waiters (pc(t := p)) = (if waiting p then insert t (waiters pc) else waiters pc - {t})"
  by (auto simp: waiters_def)

lemma waiters_mem: "t \<in> waiters pc \<longleftrightarrow> waiting (pc t)"
  by (simp add: waiters_def)

lemma card_waiters_update:
  assumes "finite (busy pc)"
  shows "card (waiters (pc(t := p))) =
    (if waiting p then (if waiting (pc t) then card (waiters pc) else card (waiters pc) + 1)
     else (if waiting (pc t) then card (waiters pc) - 1 else card (waiters pc)))"
  using finite_waiters [OF assms]
  by (simp add: waiters_update card_insert_if waiters_mem card_Diff_singleton_if)

lemma waiters_cancel: "waiters (cancel_parked \<circ> pc) = waiters pc"
proof -
  have "waiting (cancel_parked p) = waiting p" for p by (cases p) (simp_all add: cancel_parked_def)
  then show ?thesis by (simp add: waiters_def)
qed

lemma waiters_pos: "finite (busy pc) \<Longrightarrow> waiting (pc t) \<Longrightarrow> 0 < card (waiters pc)"
  using finite_waiters [of pc] waiters_mem [of t pc] card_gt_0_iff [of "waiters pc"] by blast

lemmas lock_defs = Lock_begin_def Lock_resume_def Lock_loop_def Unlock_begin_def Let_def

lemma count_inv_enter:
  assumes "lock_enter t (m', p) pc s'" "finite (busy pc)"
    and "AsyncChannelMutex.wait_count m' = card (waiters (pc(t := p)))"
  shows "count_inv s'"
  using assms(1)
proof cases
  case enter
  with assms(2,3) show ?thesis by (simp add: count_inv_def)
next
  case (enter_refill u)
  have fin: "finite (busy (pc(t := Woken)))" by (rule finite_update [OF assms(2)])
  show ?thesis unfolding enter_refill count_inv_def
    using assms(3) enter_refill finite_update [OF fin, of u Outside] card_waiters_update [OF fin, of u Outside]
    by simp
qed

lemma count_inv_step: "mutex_step s s' \<Longrightarrow> count_inv s \<Longrightarrow> count_inv s'"
proof (induction rule: mutex_step.induct)
  case (lock pc t m s')
  then have fin: "finite (busy pc)" by (simp add: count_inv_def)
  show ?case
    using lock count_inv_enter [OF _ fin, of t "fst (Lock_begin m)" "snd (Lock_begin m)"]
    by (auto simp: lock_defs count_inv_def card_waiters_update [OF fin] split: if_splits)
next
  case (resume pc t m s')
  then have fin: "finite (busy pc)" and pos: "0 < card (waiters pc)"
    using waiters_pos [of pc t] by (simp_all add: count_inv_def)
  show ?case
    using resume pos count_inv_enter [OF _ fin, of t "fst (Lock_resume False m)" "snd (Lock_resume False m)"]
    by (auto simp: lock_defs count_inv_def card_waiters_update [OF fin] split: if_splits)
next
  case (resume_error pc t m s')
  then have fin: "finite (busy pc)" by (simp add: count_inv_def)
  show ?case
    using resume_error count_inv_enter [OF _ fin, of t "fst (Lock_resume True m)" "snd (Lock_resume True m)"]
    by (auto simp: lock_defs count_inv_def card_waiters_update [OF fin] split: if_splits)
next
  case (unlock pc t m m')
  then have fin: "finite (busy pc)" by (simp add: count_inv_def)
  with unlock show ?case
    by (auto simp: lock_defs count_inv_def card_waiters_update [OF fin] split: if_splits)
next
  case (unlock_wake pc t m m' u)
  then have fin: "finite (busy pc)" by (simp add: count_inv_def)
  have fin': "finite (busy (pc(t := Outside)))" by (rule finite_update [OF fin])
  have "u \<noteq> t" using unlock_wake by auto
  with unlock_wake finite_update [OF fin', of u Woken] show ?case
    by (auto simp: lock_defs count_inv_def card_waiters_update [OF fin'] card_waiters_update [OF fin]
        split: if_splits)
next
  case (unlock_buffer pc t m m')
  then have fin: "finite (busy pc)" by (simp add: count_inv_def)
  with unlock_buffer show ?case
    by (auto simp: lock_defs count_inv_def card_waiters_update [OF fin] split: if_splits)
next
  case (unlock_wait pc t m m')
  then have fin: "finite (busy pc)" by (simp add: count_inv_def)
  with unlock_wait show ?case
    by (auto simp: lock_defs count_inv_def card_waiters_update [OF fin] split: if_splits)
next
  case (close m pc)
  have "busy (cancel_parked \<circ> pc) \<subseteq> busy pc"
    by (auto simp: cancel_parked_def busy_def)
  with close show ?case by (auto simp: count_inv_def AsyncChannelMutex_Close_def waiters_cancel intro: finite_subset)
qed

lemma excl_invD:
  assumes "excl_inv (m, pc)" "chan_open m"
  shows "pc t \<noteq> Cancelled" "locked m \<longleftrightarrow> (\<exists>t. pc t = Inside)" "pc t = Inside \<Longrightarrow> pc u = Inside \<Longrightarrow> t = u"
    "chan_buffered m \<le> 1" "pc t = Parked \<Longrightarrow> chan_buffered m = 0" "pc t = Sending \<Longrightarrow> chan_buffered m = 1"
    "pc t = Parked \<Longrightarrow> locked m \<or> (\<exists>u. pc u = Woken)"
  using assms unfolding excl_inv_def by blast+

lemma excl_inv_Inside:
  assumes "excl_inv (m, pc)" "chan_open m" "\<not> locked m"
    "m' = m\<lparr>wait_count := n, locked := True\<rparr>"
  shows "excl_inv (m', pc(t := Inside))"
  using excl_invD [OF assms(1,2)] assms(3,4) unfolding excl_inv_def by (simp, metis)

text \<open>A change that keeps the flag set and who is inside keeps the exclusion.\<close>

lemma excl_inv_kept:
  assumes inv: "excl_inv (m, pc)" and opn: "chan_open m" and lk: "locked m" "locked m'"
    and ins: "\<And>x. pc' x = Inside \<longleftrightarrow> pc x = Inside" and can: "\<And>x. pc' x \<noteq> Cancelled"
    and buf: "chan_buffered m' \<le> 1" "\<And>x. pc' x = Parked \<Longrightarrow> chan_buffered m' = 0"
      "\<And>x. pc' x = Sending \<Longrightarrow> chan_buffered m' = 1"
  shows "excl_inv (m', pc')"
  using excl_invD(2,3) [OF inv opn] assms(3-) unfolding excl_inv_def by blast

lemma excl_inv_enter:
  assumes inv: "excl_inv (m, pc)" and opn: "chan_open m"
    and en: "lock_enter t (Lock_loop (m\<lparr>wait_count := n\<rparr>)) pc s'" and t: "pc t = Outside \<or> pc t = Woken"
  shows "excl_inv s'"
proof (cases "locked m")
  case False
  with en have "s' = (m\<lparr>wait_count := n, locked := True\<rparr>, pc(t := Inside))"
    by (auto simp: Lock_loop_def elim: lock_enter.cases)
  then show ?thesis using excl_inv_Inside [OF inv opn False] by simp
next
  case lk: True
  note D = excl_invD [OF inv opn]
  from en show ?thesis
  proof cases
    case (enter p m')
    with lk t D(1,4,5,6) show ?thesis
      by (auto simp: Lock_loop_def Let_def intro!: excl_inv_kept [OF inv opn lk] split: if_splits)
  next
    case (enter_refill u m')
    with lk t D(1,4,5,6) show ?thesis
      by (auto simp: Lock_loop_def Let_def intro!: excl_inv_kept [OF inv opn lk] split: if_splits)
  qed
qed

text \<open>The coroutine that is inside leaves; nobody else is, and parked ones see one woken.\<close>

lemma excl_inv_unlock:
  assumes inv: "excl_inv (m, pc)" and opn: "chan_open m" and t: "pc t = Inside"
    and m': "locked m' = False" and pc': "pc' t \<noteq> Inside" "\<And>x. pc' x = Inside \<Longrightarrow> pc x = Inside"
    and can: "\<And>x. pc' x \<noteq> Cancelled"
    and buf: "chan_buffered m' \<le> 1" "\<And>x. pc' x = Parked \<Longrightarrow> chan_buffered m' = 0"
      "\<And>x. pc' x = Sending \<Longrightarrow> chan_buffered m' = 1"
    and woken: "\<And>x. pc' x = Parked \<Longrightarrow> \<exists>u. pc' u = Woken"
  shows "excl_inv (m', pc')"
  using excl_invD(3) [OF inv opn, OF t] assms(4-) unfolding excl_inv_def by blast

lemma excl_inv_step: "mutex_step s s' \<Longrightarrow> count_inv s \<Longrightarrow> excl_inv s \<Longrightarrow> excl_inv s'"
proof (induction rule: mutex_step.induct)
  case (lock pc t m s')
  show ?case
  proof (cases "chan_open m")
    case True
    with lock excl_inv_enter [of m pc t "wait_count m" s'] show ?thesis by (simp add: Lock_begin_def)
  next
    case False
    with lock show ?thesis
      by (auto simp: Lock_begin_def excl_inv_def elim: lock_enter.cases)
  qed
next
  case (resume pc t m s')
  show ?case
  proof (cases "chan_open m")
    case True
    with resume excl_inv_enter [of m pc t "wait_count m - 1" s'] show ?thesis
      by (simp add: Lock_resume_def Let_def)
  next
    case False
    with resume show ?thesis
      by (auto simp: Lock_resume_def Lock_loop_def Let_def excl_inv_def elim!: lock_enter.cases split: if_splits)
  qed
next
  case (resume_error pc t m s')
  then have "\<not> chan_open m" using excl_invD(1) [of m pc t] by blast
  with resume_error show ?case
    by (auto simp: Lock_resume_def Let_def excl_inv_def elim: lock_enter.cases)
next
  case (unlock pc t m m')
  show ?case
  proof (cases "chan_open m")
    case True
    with unlock have "wait_count m = 0" and m': "m' = m\<lparr>locked := False\<rparr>"
      by (auto simp: Unlock_begin_def Let_def split: if_splits)
    then have "waiters pc = {}" using unlock.prems(1) by (auto simp: count_inv_def)
    then have "pc x \<noteq> Parked" for x using waiters_mem [of x pc] by auto
    with unlock True m' excl_invD(1,4,6) [OF unlock.prems(2) True] show ?thesis
      by (intro excl_inv_unlock [OF unlock.prems(2) True, of t]) (auto split: if_splits)
  qed (use unlock in \<open>auto simp: Unlock_begin_def excl_inv_def\<close>)
next
  case (unlock_wake pc t m m' u)
  then have opn: "chan_open m" and m': "m' = m\<lparr>locked := False\<rparr>"
    by (auto simp: Unlock_begin_def Let_def split: if_splits)
  with unlock_wake excl_invD(1,4,5,6) [OF unlock_wake.prems(2) opn] show ?case
    by (intro excl_inv_unlock [OF unlock_wake.prems(2) opn, of t])
      (auto intro: exI [of _ u] split: if_splits)
next
  case (unlock_buffer pc t m m')
  then have opn: "chan_open m" and m': "m' = m\<lparr>locked := False\<rparr>"
    by (auto simp: Unlock_begin_def Let_def split: if_splits)
  with unlock_buffer excl_invD(1,6) [OF unlock_buffer.prems(2) opn] show ?case
    by (intro excl_inv_unlock [OF unlock_buffer.prems(2) opn, of t]) (auto split: if_splits)
next
  case (unlock_wait pc t m m')
  then have opn: "chan_open m" and m': "m' = m\<lparr>locked := False\<rparr>"
    by (auto simp: Unlock_begin_def Let_def split: if_splits)
  with unlock_wait excl_invD(1,4,6) [OF unlock_wait.prems(2) opn] show ?case
    by (intro excl_inv_unlock [OF unlock_wait.prems(2) opn, of t]) (auto split: if_splits)
next
  case (close m pc)
  show ?case by (simp add: excl_inv_def AsyncChannelMutex_Close_def)
qed

lemma mutex_reachable_inv: "mutex_reachable s \<Longrightarrow> count_inv s \<and> excl_inv s"
proof (induction rule: mutex_reachable.induct)
  case start
  show ?case
    by (simp add: count_inv_def excl_inv_def AsyncChannelMutex_init_def busy_def waiters_def)
next
  case (step s s')
  then show ?case using count_inv_step excl_inv_step by blast
qed

subsection \<open>Properties\<close>

text \<open>C9: mutual exclusion.  In every interleaving, as long as the mutex has not been closed, at
  most one coroutine is between \<^verbatim>\<open>Lock\<close> and \<^verbatim>\<open>Unlock\<close>, and the flag \<open>locked\<close> says whether there
  is one.\<close>

theorem mutex_exclusive:
  assumes "mutex_reachable (m, pc)" "chan_open m"
  shows "(locked m \<longleftrightarrow> (\<exists>t. pc t = Inside)) \<and> (\<forall>t u. pc t = Inside \<longrightarrow> pc u = Inside \<longrightarrow> t = u)"
  using mutex_reachable_inv [OF assms(1)] excl_invD(2,3) [OF _ assms(2)] by blast

text \<open>C26: no lost wake-up.  In every interleaving, the counter \<open>wait_count\<close>, by which connections
  are compared, is the number of coroutines waiting for the mutex; and while the mutex is open and
  free, a coroutine can be parked only if another has already been woken and will run.\<close>

theorem mutex_no_lost_wakeup:
  assumes "mutex_reachable (m, pc)"
  shows "wait_count m = card {t. pc t = Parked \<or> pc t = Woken \<or> pc t = Cancelled} \<and>
    (chan_open m \<longrightarrow> \<not> locked m \<longrightarrow> pc t = Parked \<longrightarrow> (\<exists>u. pc u = Woken))"
  using mutex_reachable_inv [OF assms] excl_invD(7) [of m pc t]
  by (auto simp: count_inv_def waiters_def waiting_def)

text \<open>A run in which the second coroutine parks and the first one's \<^verbatim>\<open>Unlock\<close> wakes it.\<close>

definition sample_inside :: "nat \<Rightarrow> mutex_pc" where
  "sample_inside t = (if t = 0 then Inside else Outside)"

definition sample_parked :: "nat \<Rightarrow> mutex_pc" where
  "sample_parked t = (if t = 0 then Inside else if t = 1 then Parked else Outside)"

definition sample_woken :: "nat \<Rightarrow> mutex_pc" where
  "sample_woken t = (if t = 1 then Woken else Outside)"

definition mutex_at :: "nat \<Rightarrow> bool \<Rightarrow> AsyncChannelMutex" where
  "mutex_at n l = \<lparr>chan_open = True, chan_buffered = 0, wait_count = n, locked = l\<rparr>"

lemma mutex_sample_parked: "mutex_reachable (mutex_at 1 True, sample_parked)"
proof -
  have 1: "lock_enter 0 (mutex_at 0 True, Inside) (\<lambda>_. Outside) (mutex_at 0 True, (\<lambda>_. Outside)(0 := Inside))"
    by (rule lock_enter.enter) simp
  have 2: "lock_enter 1 (mutex_at 1 True, Parked) sample_inside (mutex_at 1 True, sample_inside(1 := Parked))"
    by (rule lock_enter.enter) simp
  have eqs: "(\<lambda>_. Outside)(0 := Inside) = sample_inside" "sample_inside(1 := Parked) = sample_parked"
    by (auto simp: sample_inside_def sample_parked_def)
  have "Lock_begin AsyncChannelMutex_init = (mutex_at 0 True, Inside)"
      "Lock_begin (mutex_at 0 True) = (mutex_at 1 True, Parked)"
    by (simp_all add: lock_defs mutex_at_def AsyncChannelMutex_init_def)
  with 1 2 eqs have "mutex_step (AsyncChannelMutex_init, \<lambda>_. Outside) (mutex_at 0 True, sample_inside)"
      "mutex_step (mutex_at 0 True, sample_inside) (mutex_at 1 True, sample_parked)"
    using mutex_step.lock [of "\<lambda>_. Outside" 0] mutex_step.lock [of sample_inside 1]
    by (simp_all add: sample_inside_def)
  then show ?thesis using mutex_reachable.intros by blast
qed

lemma mutex_sample_woken: "mutex_reachable (mutex_at 1 False, sample_woken)"
proof -
  have "sample_parked(0 := Outside, 1 := Woken) = sample_woken"
    by (auto simp: sample_woken_def sample_parked_def)
  moreover have "Unlock_begin (mutex_at 1 True) = (mutex_at 1 False, Send)"
    by (simp add: lock_defs mutex_at_def)
  ultimately have "mutex_step (mutex_at 1 True, sample_parked) (mutex_at 1 False, sample_woken)"
    using mutex_step.unlock_wake [of sample_parked 0 "mutex_at 1 True" "mutex_at 1 False" 1]
    by (simp add: sample_parked_def)
  then show ?thesis by (rule mutex_reachable.step [OF mutex_sample_parked])
qed

theorem mutex_exclusive_witness:
  "locked (mutex_at 1 True) \<and> {t. sample_parked t = Inside} = {0}"
proof -
  have "sample_parked 0 = Inside" by (simp add: sample_parked_def)
  with mutex_exclusive [OF mutex_sample_parked] show ?thesis by (auto simp: mutex_at_def)
qed

theorem mutex_no_lost_wakeup_witness:
  "1 = card {t. sample_woken t = Parked \<or> sample_woken t = Woken \<or> sample_woken t = Cancelled}"
  using mutex_no_lost_wakeup [OF mutex_sample_woken] by (simp add: mutex_at_def)

end
