(* ===== verification/Mux_Connection.thy ===== *)
theory Mux_Connection
  imports Frame_Codec Io_Connection Async_Mutex
begin

text \<open>
  \<^verbatim>\<open>snova/mux/mux_connection.h\<close> and \<^verbatim>\<open>mux_connection.cc\<close>: one encrypted connection that
  carries the events of many streams.  The connection is the record \<open>MuxConnection\<close>, polymorphic
  in the state \<open>'r\<close> of the cipher context and in the state \<open>'s\<close> of the world its \<open>IOConnection\<close>
  talks to.  \<open>Bytes\<close> is a span into \<open>read_buffer\<close>, kept as an offset and a size, so that the
  \<^verbatim>\<open>memmove\<close> to the front and the reads behind the kept bytes are explicit.

  \<^verbatim>\<open>time(nullptr)\<close> is the parameter \<open>tm\<close>, the wall clock of a world state.
\<close>

subsection \<open>State\<close>

datatype MuxConnectionType = MUX_ENTRY_CONN | MUX_EXIT_CONN

datatype MuxConnReadState = STATE_INIT | STATE_READING | STATE_READED | STATE_CLOSING_STREAM
  | STATE_OFFER_CHUNK | STATE_READ_LOOP_EXIT

record ('r, 's) MuxConnection =
  conn_type :: MuxConnectionType
  io_conn :: 's
  cipher_ctx :: 'r
  write_mutex :: AsyncChannelMutex
  write_buffer :: bytes
  read_buffer :: bytes
  readable_data :: "nat \<times> nat"
  auth_user :: bytes
  client_id :: u64
  conn_idx :: u32
  expire_at_unix_secs :: u32
  last_unmatch_stream_id :: u32
  last_active_write_unix_secs :: u32
  last_active_read_unix_secs :: u32
  recv_bytes :: u64
  send_bytes :: u64
  read_state :: MuxConnReadState
  latest_window_recv_bytes :: "u32 list"
  latest_window_send_bytes :: "u32 list"
  is_local :: bool
  is_authed :: bool
  retired :: bool

definition MuxConnection_new ::
  "MuxConnectionType \<Rightarrow> 's \<Rightarrow> 'r \<Rightarrow> bool \<Rightarrow> u64 \<Rightarrow> u64 \<Rightarrow> u64 \<Rightarrow> ('r, 's) MuxConnection" where
  "MuxConnection_new ty conn ctx local now expire_secs rand = \<lparr>
     conn_type = ty, io_conn = conn, cipher_ctx = ctx,
     write_mutex = AsyncChannelMutex_init,
     write_buffer = replicate (kMaxChunkSize + kEventHeadSize + kReservedBufferSize) 0,
     read_buffer = replicate (2 * kMaxChunkSize) 0, readable_data = (0, 0),
     auth_user = [], client_id = 0, conn_idx = 0,
     expire_at_unix_secs = ucast (now + expire_secs + rand),
     last_unmatch_stream_id = 0, last_active_write_unix_secs = 0, last_active_read_unix_secs = 0,
     recv_bytes = 0, send_bytes = 0, read_state = STATE_INIT,
     latest_window_recv_bytes = replicate 32 0, latest_window_send_bytes = replicate 32 0,
     is_local = local, is_authed = False, retired = False\<rparr>"

subsection \<open>Counters\<close>

definition window_add :: "u64 \<Rightarrow> nat \<Rightarrow> u32 list \<Rightarrow> u32 list" where
  "window_add now n w = (let i = unat now mod length w in w[i := w ! i + word_of_nat n])"

definition GetLatestWindowRecvBytes :: "('r, 's) MuxConnection \<Rightarrow> u64" where
  "GetLatestWindowRecvBytes c = foldl (\<lambda>n v. n + ucast v) 0 (latest_window_recv_bytes c)"

definition GetLatestWindowSendBytes :: "('r, 's) MuxConnection \<Rightarrow> u64" where
  "GetLatestWindowSendBytes c = foldl (\<lambda>n v. n + ucast v) 0 (latest_window_send_bytes c)"

definition ResetCounter :: "u32 \<Rightarrow> ('r, 's) MuxConnection \<Rightarrow> ('r, 's) MuxConnection" where
  "ResetCounter now c = foldl (\<lambda>c i. c\<lparr>
       latest_window_recv_bytes :=
         (latest_window_recv_bytes c)[unat (now + 1 + i) mod length (latest_window_recv_bytes c) := 0],
       latest_window_send_bytes :=
         (latest_window_send_bytes c)[unat (now + 1 + i) mod length (latest_window_send_bytes c) := 0]\<rparr>)
     c [0, 1]"

definition GetLastActiveUnixSecs :: "('r, 's) MuxConnection \<Rightarrow> u32" where
  "GetLastActiveUnixSecs c =
     (if last_active_read_unix_secs c < last_active_write_unix_secs c
      then last_active_write_unix_secs c else last_active_read_unix_secs c)"

subsection \<open>Reading events\<close>

type_synonym ('r, 'e) decoder = "'r \<Rightarrow> bytes \<Rightarrow> (int + 'e \<times> nat) \<times> 'r"

text \<open>The second component of a span is its size; the span is not moved by the \<^verbatim>\<open>memmove\<close>.\<close>

definition ReadEventFromBuffer ::
  "('r, 'e) decoder \<Rightarrow> ('r, 's) MuxConnection \<Rightarrow> nat \<times> nat \<Rightarrow>
     int \<times> 'e option \<times> (nat \<times> nat) \<times> ('r, 's) MuxConnection" where
  "ReadEventFromBuffer dec c buffer = (case buffer of (off, len) \<Rightarrow>
     if len = 0 then (ERR_NEED_MORE_INPUT_DATA, None, (off, len), c)
     else let view = slice_of off len (read_buffer c) in
       case dec (cipher_ctx c) view of
         (Inr (ev, decrypt_len), r') \<Rightarrow>
           (0, Some ev, (off + decrypt_len, len - decrypt_len), c\<lparr>cipher_ctx := r'\<rparr>)
       | (Inl rc, r') \<Rightarrow>
           if rc \<noteq> ERR_NEED_MORE_INPUT_DATA then (rc, None, (off, len), c\<lparr>cipher_ctx := r'\<rparr>)
           else (ERR_NEED_MORE_INPUT_DATA, None, (off, len),
                 c\<lparr>cipher_ctx := r',
                   read_buffer := (if off \<noteq> 0 then blit 0 view (read_buffer c) else read_buffer c)\<rparr>))"

definition count_read :: "u64 \<Rightarrow> nat \<Rightarrow> ('r, 's) MuxConnection \<Rightarrow> ('r, 's) MuxConnection" where
  "count_read now n c = c\<lparr>last_active_read_unix_secs := ucast now,
     latest_window_recv_bytes := window_add now n (latest_window_recv_bytes c),
     recv_bytes := recv_bytes c + word_of_nat n\<rparr>"

partial_function (option) ReadEvent_loop ::
  "('r, 'e) decoder \<Rightarrow> 's reader \<Rightarrow> ('s \<Rightarrow> u64) \<Rightarrow> ('r, 's) MuxConnection \<Rightarrow> nat \<times> nat \<Rightarrow>
     (int \<times> 'e option \<times> ('r, 's) MuxConnection) option" where
  "ReadEvent_loop dec rd tm c current_read_buffer =
     (case ReadEventFromBuffer dec c current_read_buffer of (rc, event, cur, c1) \<Rightarrow>
        if rc \<noteq> ERR_NEED_MORE_INPUT_DATA then Some (rc, event, c1\<lparr>readable_data := cur\<rparr>)
        else let read_pos = snd cur in
          case rd (io_conn c1) (length (read_buffer c1) - read_pos) of (bs, ec, s') \<Rightarrow>
            let c2 = c1\<lparr>io_conn := s', read_buffer := blit read_pos bs (read_buffer c1)\<rparr> in
            if ec \<noteq> 0 then Some (ec, None, c2\<lparr>readable_data := cur\<rparr>)
            else if length bs = 0 then Some (ERR_READ_EOF, None, c2\<lparr>readable_data := cur\<rparr>)
            else ReadEvent_loop dec rd tm (count_read (tm s') (length bs) c2) (0, read_pos + length bs))"

definition ReadEvent ::
  "('r, 'e) decoder \<Rightarrow> 's reader \<Rightarrow> ('s \<Rightarrow> u64) \<Rightarrow> ('r, 's) MuxConnection \<Rightarrow>
     (int \<times> 'e option \<times> ('r, 's) MuxConnection) option" where
  "ReadEvent dec rd tm c = ReadEvent_loop dec rd tm c (readable_data c)"

subsection \<open>Writing events\<close>

type_synonym ('r, 'e) encoder = "'r \<Rightarrow> 'e \<Rightarrow> bytes \<Rightarrow> (int + bytes) \<times> 'r \<times> 'e"
type_synonym 's writer = "'s \<Rightarrow> bytes \<Rightarrow> int \<times> 's"

definition count_write :: "u64 \<Rightarrow> nat \<Rightarrow> ('r, 's) MuxConnection \<Rightarrow> ('r, 's) MuxConnection" where
  "count_write now n c = c\<lparr>send_bytes := send_bytes c + word_of_nat n,
     latest_window_send_bytes := window_add now n (latest_window_send_bytes c)\<rparr>"

definition write_unlock :: "('r, 's) MuxConnection \<Rightarrow> ('r, 's) MuxConnection" where
  "write_unlock c = c\<lparr>write_mutex := fst (Unlock_begin (write_mutex c))\<rparr>"

definition write_lock :: "('r, 's) MuxConnection \<Rightarrow> ('r, 's) MuxConnection" where
  "write_lock c = c\<lparr>write_mutex := fst (Lock_begin (write_mutex c))\<rparr>"

text \<open>
  \<open>c\<close> is the connection at the moment \<^verbatim>\<open>Lock\<close> finds the mutex free (or closed); how long the
  coroutine waited for it is the concern of the mutex.  The stretch from there to \<^verbatim>\<open>Unlock\<close> is one
  step of the model: by the exclusion the mutex provides no other writer uses the cipher context or
  the buffer in between.
\<close>

definition MuxConnection_Write ::
  "('r, 'e) encoder \<Rightarrow> 's writer \<Rightarrow> ('s \<Rightarrow> u64) \<Rightarrow> ('r, 's) MuxConnection \<Rightarrow> 'e \<Rightarrow>
     bool \<times> ('r, 's) MuxConnection" where
  "MuxConnection_Write enc wr tm c write_ev =
     (let now = tm (io_conn c);
          c1 = (write_lock c)\<lparr>last_active_write_unix_secs := ucast now\<rparr>
      in case enc (cipher_ctx c1) write_ev (write_buffer c1) of
           (Inl rc, r', _) \<Rightarrow> (False, write_unlock (c1\<lparr>cipher_ctx := r'\<rparr>))
         | (Inr wbuffer, r', _) \<Rightarrow>
             let c2 = c1\<lparr>cipher_ctx := r', write_buffer := blit 0 wbuffer (write_buffer c1)\<rparr> in
             case wr (io_conn c2) wbuffer of (ec, s') \<Rightarrow>
               let c3 = write_unlock (c2\<lparr>io_conn := s'\<rparr>) in
               if ec \<noteq> 0 then (False, c3)
               else (True, count_write now (length wbuffer) c3))"

definition MuxConnection_Close :: "('s \<Rightarrow> 's) \<Rightarrow> ('r, 's) MuxConnection \<Rightarrow> ('r, 's) MuxConnection" where
  "MuxConnection_Close io_close c =
     c\<lparr>io_conn := io_close (io_conn c), write_mutex := AsyncChannelMutex_Close (write_mutex c)\<rparr>"

subsection \<open>ReadEvent always returns\<close>

definition spans_ok :: "nat \<times> nat \<Rightarrow> ('r, 's) MuxConnection \<Rightarrow> bool" where
  "spans_ok sp c \<longleftrightarrow> fst sp + snd sp \<le> length (read_buffer c)"

lemma ReadEventFromBuffer_need:
  assumes "ReadEventFromBuffer dec c sp = (ERR_NEED_MORE_INPUT_DATA, ev, sp', c')" "spans_ok sp c"
  shows "sp' = sp" "length (read_buffer c') = length (read_buffer c)" "io_conn c' = io_conn c"
  using assms
  by (auto simp: ReadEventFromBuffer_def Let_def spans_ok_def blit_def slice_of_def
      split: prod.splits sum.splits if_splits)

text \<open>A result of \<open>ReadEvent\<close> is an event that the decoder gave, with code 0, or another code and no event.\<close>

definition decoder_ok :: "('e \<Rightarrow> bool) \<Rightarrow> ('r, 'e) decoder \<Rightarrow> bool" where
  "decoder_ok P dec \<longleftrightarrow> (\<forall>r v. case dec r v of (Inr (e, n), r') \<Rightarrow> P e | (Inl rc, r') \<Rightarrow> rc \<noteq> 0)"

definition event_or_code :: "('e \<Rightarrow> bool) \<Rightarrow> int \<Rightarrow> 'e option \<Rightarrow> bool" where
  "event_or_code P rc ev \<longleftrightarrow> (case ev of None \<Rightarrow> rc \<noteq> 0 | Some e \<Rightarrow> rc = 0 \<and> P e)"

lemma ReadEventFromBuffer_result:
  assumes "decoder_ok P dec" "ReadEventFromBuffer dec c sp = (rc, ev, sp', c1)"
  shows "event_or_code P rc ev"
proof -
  obtain off len where sp: "sp = (off, len)" by fastforce
  obtain d r' where d: "dec (cipher_ctx c) (slice_of off len (read_buffer c)) = (d, r')" by fastforce
  have "case dec (cipher_ctx c) (slice_of off len (read_buffer c)) of (Inr (e, n), r') \<Rightarrow> P e | (Inl rc, r') \<Rightarrow> rc \<noteq> 0"
    using assms(1) by (simp only: decoder_ok_def)
  with d assms(2) sp show ?thesis
    by (auto simp: ReadEventFromBuffer_def event_or_code_def Let_def split: sum.splits if_splits)
qed

lemma ReadEvent_loop_result:
  "ReadEvent_loop dec rd tm c sp = Some y \<Longrightarrow> decoder_ok P dec \<Longrightarrow> event_or_code P (fst y) (fst (snd y))"
proof (induction rule: ReadEvent_loop.raw_induct [rotated 1, consumes 1])
  case (1 f dec rd tm c sp y)
  obtain rc ev sp' c1 where fb: "ReadEventFromBuffer dec c sp = (rc, ev, sp', c1)" using prod_cases4 by blast
  from 1 fb ReadEventFromBuffer_result [OF 1(3) fb] show ?case
    by (auto simp: Let_def event_or_code_def split: prod.splits if_splits option.splits)
qed

lemma ReadEvent_loop_returns:
  assumes rd: "\<And>s k bs ec s'. rd s k = (bs, ec, s') \<Longrightarrow> length bs \<le> k"
  shows "spans_ok sp c \<Longrightarrow> \<exists>y. ReadEvent_loop dec rd tm c sp = Some y"
proof (induction "length (read_buffer c) - snd sp" arbitrary: c sp rule: less_induct)
  case less
  obtain rc ev sp1 c1 where fb: "ReadEventFromBuffer dec c sp = (rc, ev, sp1, c1)"
    by (metis prod_cases4)
  show ?case
  proof (cases "rc = ERR_NEED_MORE_INPUT_DATA")
    case False
    with fb show ?thesis by (subst ReadEvent_loop.simps) simp
  next
    case True
    note fb' = ReadEventFromBuffer_need [OF fb [unfolded True] less.prems]
    obtain bs ec s' where r: "rd (io_conn c1) (length (read_buffer c1) - snd sp1) = (bs, ec, s')"
      by (metis prod_cases3)
    let ?c2 = "c1\<lparr>io_conn := s', read_buffer := blit (snd sp1) bs (read_buffer c1)\<rparr>"
    let ?c3 = "count_read (tm s') (length bs) ?c2"
    show ?thesis
    proof (cases "ec \<noteq> 0 \<or> bs = []")
      case True
      with \<open>rc = _\<close> fb r show ?thesis by (subst ReadEvent_loop.simps) (auto simp: Let_def)
    next
      case False
      have fits: "snd sp + length bs \<le> length (read_buffer c)"
        using rd [OF r] less.prems fb' False by (auto simp: spans_ok_def)
      then have len: "length (read_buffer ?c3) = length (read_buffer c)"
        using fb' by (simp add: count_read_def)
      have pos: "0 < length bs" using False by simp
      have "\<exists>y. ReadEvent_loop dec rd tm ?c3 (0, snd sp1 + length bs) = Some y"
        by (rule less.hyps)
          (use len fits pos fb'(1) in \<open>simp_all add: spans_ok_def del: length_greater_0_conv\<close>)
      with False \<open>rc = _\<close> fb r show ?thesis by (subst ReadEvent_loop.simps) (simp add: Let_def)
    qed
  qed
qed

subsection \<open>ReadEvent reassembles frames\<close>

text \<open>The bytes the connection still has to decode: those in its buffer, then those on the wire.\<close>

definition unread :: "('s \<Rightarrow> bytes) \<Rightarrow> ('r, 's) MuxConnection \<Rightarrow> bytes" where
  "unread pend c = (case readable_data c of (off, len) \<Rightarrow> slice_of off len (read_buffer c)) @ pend (io_conn c)"

definition reader_ok :: "('s \<Rightarrow> bool) \<Rightarrow> ('r, 's) MuxConnection \<Rightarrow> bool" where
  "reader_ok ok c \<longleftrightarrow> ok (io_conn c) \<and> spans_ok (readable_data c) c \<and> length (read_buffer c) = 2 * kMaxChunkSize"

text \<open>What reading leaves alone.\<close>

definition write_side :: "('r, 's) MuxConnection \<Rightarrow> bytes \<times> AsyncChannelMutex \<times> bool \<times> u64 \<times> bytes" where
  "write_side c = (write_buffer c, write_mutex c, is_local c, client_id c, auth_user c)"

lemma ReadEvent_loop_write_side: "ReadEvent_loop dec rd tm c sp = Some y \<Longrightarrow> write_side (snd (snd y)) = write_side c"
proof (induction rule: ReadEvent_loop.raw_induct [rotated 1, consumes 1])
  case (1 f dec rd tm c sp y)
  obtain rc ev sp' c1 where fb: "ReadEventFromBuffer dec c sp = (rc, ev, sp', c1)" using prod_cases4 by blast
  have "write_side c1 = write_side c"
    using fb by (auto simp: ReadEventFromBuffer_def write_side_def Let_def split: prod.splits sum.splits if_splits)
  moreover obtain bs ec s' where r: "rd (io_conn c1) (length (read_buffer c1) - snd sp') = (bs, ec, s')" using prod_cases3 by blast
  moreover have "write_side (snd (snd y)) =
      write_side (count_read (tm s') (length bs) (c1\<lparr>io_conn := s', read_buffer := blit (snd sp') bs (read_buffer c1)\<rparr>))"
    if "rc = ERR_NEED_MORE_INPUT_DATA" "ec = 0" "bs \<noteq> []"
    by (rule 1(1)) (use 1(2) fb r that in \<open>simp add: Let_def\<close>)
  ultimately show ?case using 1(2) fb
    by (cases "rc = ERR_NEED_MORE_INPUT_DATA"; cases "ec = 0"; cases "bs = []") (auto simp: Let_def write_side_def count_read_def)
qed

text \<open>Reading a given number of events, one after the other.\<close>

fun read_events ::
  "('r, 'e) decoder \<Rightarrow> 's reader \<Rightarrow> ('s \<Rightarrow> u64) \<Rightarrow> nat \<Rightarrow> ('r, 's) MuxConnection \<Rightarrow>
     ('e list \<times> ('r, 's) MuxConnection) option" where
  "read_events dec rd tm 0 c = Some ([], c)"
| "read_events dec rd tm (Suc n) c =
     (case ReadEvent dec rd tm c of
        Some (rc, Some e, c') \<Rightarrow>
          if rc = 0 then map_option (\<lambda>(es, c'). (e # es, c')) (read_events dec rd tm n c') else None
      | _ \<Rightarrow> None)"

locale event_reader = live_connection AsyncRead pending ok + frame_codec dec framed bound
  for AsyncRead :: "'s reader" and pending ok and dec :: "('r, 'e) decoder" and framed bound +
  fixes tm :: "'s \<Rightarrow> u64"
  assumes frames_fit: "bound \<le> 2 * kMaxChunkSize"
begin

lemma ReadEventFromBuffer_complete:
  assumes "spans_ok (off, len) c" "slice_of off len (read_buffer c) @ p = f @ rest"
    and fr: "framed (cipher_ctx c) e f r'" and "length f \<le> len"
  shows "ReadEventFromBuffer dec c (off, len) =
      (0, Some e, (off + length f, len - length f), c\<lparr>cipher_ctx := r'\<rparr>)"
    and "slice_of (off + length f) (len - length f) (read_buffer c) @ p = rest"
proof -
  let ?b = "slice_of off len (read_buffer c)"
  have b: "length ?b = len" using assms(1) by (simp add: spans_ok_def)
  with assms have "dec (cipher_ctx c) ?b = (Inr (e, length f), r')" "drop (length f) ?b @ p = rest"
    using dec_complete [OF fr, of rest ?b p] by simp_all
  moreover have "len \<noteq> 0" using frame_size [OF fr] assms(4) by (cases len) auto
  ultimately show "ReadEventFromBuffer dec c (off, len) =
      (0, Some e, (off + length f, len - length f), c\<lparr>cipher_ctx := r'\<rparr>)"
    and "slice_of (off + length f) (len - length f) (read_buffer c) @ p = rest"
    by (simp_all add: ReadEventFromBuffer_def slice_of_def drop_take add.commute)
qed

lemma ReadEventFromBuffer_partial:
  assumes sp: "spans_ok (off, len) c" and view: "slice_of off len (read_buffer c) @ p = f @ rest"
    and fr: "framed (cipher_ctx c) e f r'" and len: "len < length f"
  obtains rb where "ReadEventFromBuffer dec c (off, len) =
      (ERR_NEED_MORE_INPUT_DATA, None, (off, len), c\<lparr>read_buffer := rb\<rparr>)"
    and "take len rb = slice_of off len (read_buffer c)" and "length rb = length (read_buffer c)"
proof -
  let ?b = "slice_of off len (read_buffer c)"
  let ?rb = "if len = 0 \<or> off = 0 then read_buffer c else blit 0 ?b (read_buffer c)"
  have b: "length ?b = len" using sp by (simp add: spans_ok_def)
  have "dec (cipher_ctx c) ?b = (Inl ERR_NEED_MORE_INPUT_DATA, cipher_ctx c)"
    using dec_partial [OF fr, of rest ?b p] view len b by simp
  then have "ReadEventFromBuffer dec c (off, len) =
      (ERR_NEED_MORE_INPUT_DATA, None, (off, len), c\<lparr>read_buffer := ?rb\<rparr>)"
    by (simp add: ReadEventFromBuffer_def)
  moreover have "take len ?rb = ?b" using b by (auto simp: blit_def slice_of_def)
  moreover have "length ?rb = length (read_buffer c)"
    using b sp by (auto simp: spans_ok_def)
  ultimately show ?thesis by (rule that)
qed

lemma ReadEvent_loop_frame:
  assumes "ok (io_conn c)" "spans_ok (off, len) c" "length (read_buffer c) = 2 * kMaxChunkSize"
    and "slice_of off len (read_buffer c) @ pending (io_conn c) = f @ rest"
    and "framed (cipher_ctx c) e f r'"
  shows "\<exists>c'. ReadEvent_loop dec AsyncRead tm c (off, len) = Some (0, Some e, c') \<and>
    reader_ok ok c' \<and> unread pending c' = rest \<and> cipher_ctx c' = r' \<and> write_side c' = write_side c"
  using assms
proof (induction "length (pending (io_conn c))" arbitrary: c off len rule: less_induct)
  case less
  show ?case
  proof (cases "length f \<le> len")
    case True
    note fb = ReadEventFromBuffer_complete [OF less.prems(2,4,5) True]
    have "len - length f + length f = len" using True by simp
    then show ?thesis using fb less.prems(1-3)
      by (subst ReadEvent_loop.simps) (simp add: reader_ok_def unread_def spans_ok_def write_side_def)
  next
    case False
    then obtain rb where fb: "ReadEventFromBuffer dec c (off, len) =
        (ERR_NEED_MORE_INPUT_DATA, None, (off, len), c\<lparr>read_buffer := rb\<rparr>)"
      and rb: "take len rb = slice_of off len (read_buffer c)" "length rb = 16384"
      using ReadEventFromBuffer_partial [OF less.prems(2,4,5)] less.prems(3) by auto
    have room: "len < 16384" using False frame_size [OF less.prems(5)] frames_fit by simp
    have "pending (io_conn c) \<noteq> []"
    proof
      assume "pending (io_conn c) = []"
      then have "length f \<le> length (slice_of off len (read_buffer c))" using less.prems(4) by simp
      with False less.prems(2) show False by (simp add: spans_ok_def)
    qed
    moreover obtain bs ec s' where rd: "AsyncRead (io_conn c) (16384 - len) = (bs, ec, s')"
      by (metis prod_cases3)
    ultimately have ec: "ec = 0" "bs \<noteq> []" using read_live [OF less.prems(1) _ _ rd] room by auto
    have st: "pending (io_conn c) = bs @ pending s'" using read_stream less.prems(1) rd ec by blast
    have bl: "length bs \<le> 16384 - len" by (rule read_within [OF less.prems(1) rd])
    let ?c3 = "count_read (tm s') (length bs) (c\<lparr>io_conn := s', read_buffer := blit len bs rb\<rparr>)"
    have eq: "ReadEvent_loop dec AsyncRead tm c (off, len) =
        ReadEvent_loop dec AsyncRead tm ?c3 (0, len + length bs)"
      using fb rd rb ec by (subst ReadEvent_loop.simps) (simp add: Let_def)
    have "slice_of 0 (len + length bs) (blit len bs rb) = slice_of off len (read_buffer c) @ bs"
      using take_blit_upto [of len rb bs] rb room by (simp add: slice_of_def)
    then have "\<exists>c'. ReadEvent_loop dec AsyncRead tm ?c3 (0, len + length bs) = Some (0, Some e, c') \<and>
        reader_ok ok c' \<and> unread pending c' = rest \<and> cipher_ctx c' = r' \<and> write_side c' = write_side ?c3"
      using read_inv [OF less.prems(1) rd] less.prems(4,5) st ec bl rb room
      by (intro less.hyps) (auto simp: count_read_def spans_ok_def)
    then show ?thesis unfolding eq by (simp add: write_side_def count_read_def)
  qed
qed

lemma ReadEvent_frame:
  assumes "reader_ok ok c" "unread pending c = f @ rest" "framed (cipher_ctx c) e f r'"
  shows "\<exists>c'. ReadEvent dec AsyncRead tm c = Some (0, Some e, c') \<and> reader_ok ok c' \<and>
    unread pending c' = rest \<and> cipher_ctx c' = r' \<and> write_side c' = write_side c"
proof -
  obtain off len where "readable_data c = (off, len)" by fastforce
  with ReadEvent_loop_frame [of c off len f rest e r'] assms show ?thesis
    by (simp add: ReadEvent_def reader_ok_def unread_def)
qed

lemma read_events_frames:
  "reader_ok ok c \<Longrightarrow> frames (cipher_ctx c) efs r' \<Longrightarrow> unread pending c = concat (map snd efs) @ rest \<Longrightarrow>
   \<exists>c'. read_events dec AsyncRead tm (length efs) c = Some (map fst efs, c') \<and>
     reader_ok ok c' \<and> unread pending c' = rest \<and> cipher_ctx c' = r'"
proof (induction efs arbitrary: c)
  case Nil
  then show ?case by simp
next
  case (Cons ef efs)
  obtain e f r1 where ef: "ef = (e, f)" "framed (cipher_ctx c) e f r1" "frames r1 efs r'"
    using Cons.prems(2) by (cases ef) auto
  obtain c1 where c1: "ReadEvent dec AsyncRead tm c = Some (0, Some e, c1)" "reader_ok ok c1"
      "unread pending c1 = concat (map snd efs) @ rest" "cipher_ctx c1 = r1"
    using ReadEvent_frame [of c f "concat (map snd efs) @ rest" e r1] Cons.prems ef by auto
  with Cons.IH [of c1] ef show ?case by auto
qed

end

subsection \<open>The reader on the model's own cipher\<close>

interpretation mux_reader: event_reader script_read concat "\<lambda>_. True" "CipherContext_Decrypt A L"
  "cipher_framed A L" 8360 tm for A L tm
  by unfold_locales simp

lemma cipher_event_reader:
  assumes "live_connection rd pend ok"
  shows "event_reader rd pend ok (CipherContext_Decrypt A L) (cipher_framed A L) 8360"
  by (intro event_reader.intro event_reader_axioms.intro assms cipher.frame_codec_axioms) simp

text \<open>Events written one after the other; the world of the sender is the bytes sent so far.\<close>

definition wire_write :: "bytes writer" where
  "wire_write s bs = (0, s @ bs)"

fun write_events ::
  "('r, 'e) encoder \<Rightarrow> (bytes \<Rightarrow> u64) \<Rightarrow> ('r, bytes) MuxConnection \<Rightarrow> 'e list \<Rightarrow>
     ('r, bytes) MuxConnection option" where
  "write_events enc tm c [] = Some c"
| "write_events enc tm c (e # es) =
     (case MuxConnection_Write enc wire_write tm c e of
        (True, c') \<Rightarrow> write_events enc tm c' es
      | (False, c') \<Rightarrow> None)"

definition writer_ok :: "('r, 's) MuxConnection \<Rightarrow> bool" where
  "writer_ok c \<longleftrightarrow> length (write_buffer c) = 8456 \<and> write_mutex c = AsyncChannelMutex_init"

lemma Write_through:
  assumes "writer_ok w" "enc (cipher_ctx w) e (write_buffer w) = (Inr f, r', e')" "length f \<le> 8456" "wr (io_conn w) f = (0, s')"
  shows "\<exists>w'. MuxConnection_Write enc wr tm w e = (True, w') \<and> writer_ok w' \<and> cipher_ctx w' = r' \<and> io_conn w' = s' \<and>
    is_local w' = is_local w \<and> client_id w' = client_id w \<and> read_buffer w' = read_buffer w \<and> readable_data w' = readable_data w"
  using assms
  by (simp add: MuxConnection_Write_def lock_defs AsyncChannelMutex_init_def writer_ok_def
      write_lock_def write_unlock_def count_write_def)

text \<open>What a write leaves alone.\<close>

lemma Write_keeps:
  assumes "MuxConnection_Write enc wr tm c ev = (ok, c')"
  shows "client_id c' = client_id c \<and> last_unmatch_stream_id c' = last_unmatch_stream_id c \<and>
    auth_user c' = auth_user c \<and> retired c' = retired c \<and> conn_type c' = conn_type c \<and>
    expire_at_unix_secs c' = expire_at_unix_secs c"
proof -
  obtain o1 r1 e1 where e: "enc (cipher_ctx (write_lock c)) ev (write_buffer (write_lock c)) = (o1, r1, e1)" by (metis prod_cases3)
  show ?thesis
  proof (cases o1)
    case (Inl rc)
    with assms e show ?thesis by (auto simp: MuxConnection_Write_def write_lock_def write_unlock_def)
  next
    case (Inr b)
    obtain ec s' where "wr (io_conn c) b = (ec, s')" by fastforce
    with assms e Inr show ?thesis
      by (cases "ec = 0") (auto simp: MuxConnection_Write_def write_lock_def write_unlock_def count_write_def Let_def)
  qed
qed

text \<open>A well-formed event is sealed, and the frame is written, over any transport that takes it.\<close>

lemma Write_framed:
  assumes "aead_ok A" "pb_lib_ok L" "writer_ok w" "synced (cipher_ctx w) r" "wf_event kMaxChunkSize e"
    and wr: "\<And>f. wr (io_conn w) f = (0, after f)"
  shows "\<exists>w' f n r'. MuxConnection_Write (CipherContext_Encrypt A L) wr tm w e = (True, w') \<and> writer_ok w' \<and>
    io_conn w' = after f \<and> cipher_framed A L r (with_len n e) f r' \<and> synced (cipher_ctx w') r' \<and>
    cipher_ctx w' = (cipher_ctx w)\<lparr>encrypt_iv := encrypt_iv (cipher_ctx w) + 1\<rparr> \<and>
    is_local w' = is_local w \<and> client_id w' = client_id w \<and> read_buffer w' = read_buffer w \<and> readable_data w' = readable_data w"
proof -
  obtain f n s1 r1 where enc: "CipherContext_Encrypt A L (cipher_ctx w) e (write_buffer w) = (Inr f, s1, with_len n e)"
    and fr: "cipher_framed A L r (with_len n e) f r1" "synced s1 r1" "s1 = (cipher_ctx w)\<lparr>encrypt_iv := encrypt_iv (cipher_ctx w) + 1\<rparr>"
    using Encrypt_framed [OF assms(1,2,4,5), of "write_buffer w"] assms(3) by (auto simp: writer_ok_def)
  have "length f \<le> 8456" using cipher.frame_size [OF fr(1)] by simp
  from Write_through [where enc = "CipherContext_Encrypt A L" and tm = tm and wr = wr and s' = "after f", OF assms(3) enc this wr] fr show ?thesis by metis
qed

lemma Wire_framed:
  assumes "aead_ok A" "pb_lib_ok L" "writer_ok w" "synced (cipher_ctx w) r" "wf_event kMaxChunkSize e"
  shows "\<exists>w' f n r'. MuxConnection_Write (CipherContext_Encrypt A L) wire_write tm w e = (True, w') \<and> writer_ok w' \<and>
    io_conn w' = io_conn w @ f \<and> cipher_framed A L r (with_len n e) f r' \<and> synced (cipher_ctx w') r'"
  using Write_framed [OF assms, of wire_write "\<lambda>f. io_conn w @ f" tm] by (auto simp: wire_write_def)

lemma write_events_frames:
  assumes A: "aead_ok A" and L: "pb_lib_ok L"
  shows "writer_ok w \<Longrightarrow> synced (cipher_ctx w) r \<Longrightarrow> (\<forall>e\<in>set es. wf_event kMaxChunkSize e) \<Longrightarrow>
    \<exists>w' efs r'. write_events (CipherContext_Encrypt A L) tm w es = Some w' \<and> writer_ok w' \<and>
      cipher.frames A L r efs r' \<and> synced (cipher_ctx w') r' \<and>
      io_conn w' = io_conn w @ concat (map snd efs) \<and>
      list_all2 (\<lambda>e ef. \<exists>n. fst ef = with_len n e) es efs"
proof (induction es arbitrary: w r)
  case Nil
  then show ?case by (intro exI [of _ w] exI [of _ "[]"] exI [of _ r]) simp
next
  case (Cons e es)
  have "wf_event kMaxChunkSize e" using Cons.prems(3) by simp
  from Wire_framed [OF A L Cons.prems(1,2) this, of tm] obtain w1 f n r1 where
    w1: "MuxConnection_Write (CipherContext_Encrypt A L) wire_write tm w e = (True, w1)" "writer_ok w1" "io_conn w1 = io_conn w @ f"
    and fr: "cipher_framed A L r (with_len n e) f r1" and sy: "synced (cipher_ctx w1) r1" by blast
  from Cons.IH [OF w1(2), of r1] sy Cons.prems(3)
  obtain w' efs r' where IH: "write_events (CipherContext_Encrypt A L) tm w1 es = Some w'" "writer_ok w'"
      "cipher.frames A L r1 efs r'" "synced (cipher_ctx w') r'"
      "io_conn w' = io_conn w1 @ concat (map snd efs)"
      "list_all2 (\<lambda>e ef. \<exists>n. fst ef = with_len n e) es efs" by auto
  have "cipher.frames A L r ((with_len n e, f) # efs) r'" using fr IH(3) by auto
  with IH w1 show ?case
    by (intro exI [of _ w'] exI [of _ "(with_len n e, f) # efs"] exI [of _ r']) auto
qed

subsection \<open>Properties of the event stream\<close>

text \<open>C3: end to end, the events one connection writes are the events its peer reads, in order.
  For every list of well-formed events: the sender's \<open>Write\<close> succeeds on each; and a peer whose
  cipher context is synchronised with the sender's, and whose connection delivers the written bytes
  however the network cuts them, reads exactly these events (with their length field filled in),
  leaves what follows them unread, and is again synchronised.\<close>

theorem mux_end_to_end:
  assumes "aead_ok A" "pb_lib_ok L" "live_connection rd pend ok"
    and "writer_ok w" "synced (cipher_ctx w) r" "\<forall>e\<in>set es. wf_event kMaxChunkSize e"
  shows "\<exists>w' bs es'. write_events (CipherContext_Encrypt A L) tm w es = Some w' \<and>
    io_conn w' = io_conn w @ bs \<and> list_all2 (\<lambda>e e'. \<exists>n. e' = with_len n e) es es' \<and>
    (\<forall>c rest. cipher_ctx c = r \<longrightarrow> reader_ok ok c \<longrightarrow> unread pend c = bs @ rest \<longrightarrow>
       (\<exists>c'. read_events (CipherContext_Decrypt A L) rd tm' (length es) c = Some (es', c') \<and>
          reader_ok ok c' \<and> unread pend c' = rest \<and> synced (cipher_ctx w') (cipher_ctx c')))"
proof -
  obtain w' efs r' where w: "write_events (CipherContext_Encrypt A L) tm w es = Some w'"
      "cipher.frames A L r efs r'" "synced (cipher_ctx w') r'"
      "io_conn w' = io_conn w @ concat (map snd efs)"
    and len: "list_all2 (\<lambda>e ef. \<exists>n. fst ef = with_len n e) es efs"
    using write_events_frames [OF assms(1,2,4,5,6)] by blast
  have "length es = length efs" using len by (rule list_all2_lengthD)
  moreover have "list_all2 (\<lambda>e e'. \<exists>n. e' = with_len n e) es (map fst efs)"
    using len by (simp add: list.rel_map)
  moreover note event_reader.read_events_frames [OF cipher_event_reader [OF assms(3)], where r' = r' and efs = efs]
  ultimately show ?thesis using w
    by (intro exI [of _ w'] exI [of _ "concat (map snd efs)"] exI [of _ "map fst efs"]) fastforce
qed

definition sample_conn :: "'s \<Rightarrow> (bytes CipherContext, 's) MuxConnection" where
  "sample_conn s = MuxConnection_new MUX_ENTRY_CONN s sample_ctx True 1700000000 1800 7"

lemma sample_conn_simps:
  "writer_ok (sample_conn s)" "reader_ok (\<lambda>_. True) (sample_conn s)" "cipher_ctx (sample_conn s) = sample_ctx"
  "io_conn (sample_conn s) = s" "unread pend (sample_conn s) = pend s"
  by (simp_all add: sample_conn_def MuxConnection_new_def writer_ok_def reader_ok_def spans_ok_def unread_def
      slice_of_def)

text \<open>Two chunks, delivered to the peer one byte at a time.\<close>

theorem mux_end_to_end_witness:
  "\<exists>w' bs es' c'. write_events (CipherContext_Encrypt ref_aead ref_pb) (\<lambda>_. 1700000000) (sample_conn [])
      [sample_chunk, sample_chunk] = Some w' \<and> io_conn w' = bs \<and>
    list_all2 (\<lambda>e e'. \<exists>n. e' = with_len n e) [sample_chunk, sample_chunk] es' \<and>
    read_events (CipherContext_Decrypt ref_aead ref_pb) script_read (\<lambda>_. 1700000001) 2
      (sample_conn (map (\<lambda>b. [b]) bs)) = Some (es', c') \<and> unread concat c' = []"
proof -
  define es where "es = [sample_chunk, sample_chunk]"
  have es: "\<forall>e\<in>set es. wf_event kMaxChunkSize e" "length es = 2"
    using sample_chunk_wf by (simp_all add: es_def)
  have sy: "synced (cipher_ctx (sample_conn [])) sample_ctx"
    using sample_ctx_synced by (simp add: sample_conn_simps)
  obtain w' bs es' where w: "write_events (CipherContext_Encrypt ref_aead ref_pb) (\<lambda>_. 1700000000) (sample_conn []) es = Some w'"
      "io_conn w' = io_conn (sample_conn []) @ bs" "list_all2 (\<lambda>e e'. \<exists>n. e' = with_len n e) es es'"
    and rd: "\<And>(c :: (bytes CipherContext, bytes list) MuxConnection) rest. cipher_ctx c = sample_ctx \<Longrightarrow>
       reader_ok (\<lambda>_. True) c \<Longrightarrow> unread concat c = bs @ rest \<Longrightarrow>
       \<exists>c'. read_events (CipherContext_Decrypt ref_aead ref_pb) script_read (\<lambda>_. 1700000001) 2 c = Some (es', c') \<and>
          unread concat c' = rest"
    using mux_end_to_end [OF ref_aead_ok ref_pb_ok scripted.live_connection_axioms sample_conn_simps(1) sy es(1),
        of "\<lambda>_. 1700000000" "\<lambda>_. 1700000001", unfolded es(2)] by blast
  have "concat (map (\<lambda>b. [b]) bs) = bs" by (induction bs) auto
  then have "unread concat (sample_conn (map (\<lambda>b. [b]) bs)) = bs @ []" by (simp add: sample_conn_simps)
  from rd [OF sample_conn_simps(3,2) this] w show ?thesis
    unfolding es_def sample_conn_simps append_Nil by blast
qed

text \<open>C27: \<open>ReadEvent\<close> always returns.  Whatever the decoder does and whatever the peer sends, an
  event, an error code or end of file comes back after finitely many reads: every read that is not
  the last fills more of the buffer, and a full buffer makes the next read empty.\<close>

theorem ReadEvent_terminates:
  assumes "\<And>s k bs ec s'. rd s k = (bs, ec, s') \<Longrightarrow> length bs \<le> k"
    and "spans_ok (readable_data c) c"
  shows "\<exists>rc ev c'. ReadEvent dec rd tm c = Some (rc, ev, c')"
proof -
  obtain y where "ReadEvent_loop dec rd tm c (readable_data c) = Some y"
    using ReadEvent_loop_returns [of rd] assms by blast
  then show ?thesis unfolding ReadEvent_def by (cases y) auto
qed

theorem ReadEvent_terminates_witness:
  "\<exists>rc ev c'. ReadEvent (CipherContext_Decrypt ref_aead ref_pb) script_read (\<lambda>_. 0)
     (sample_conn [[1, 2, 3], [4]]) = Some (rc, ev, c')"
proof (rule ReadEvent_terminates)
  show "spans_ok (readable_data (sample_conn [[1, 2, 3], [4 :: u8]])) (sample_conn [[1, 2, 3], [4 :: u8]])"
    using sample_conn_simps(2) [of "[[1, 2, 3], [4 :: u8]]"] unfolding reader_ok_def by blast
qed (use script_read_spec in blast)

end
