(* ===== verification/Mux_Stream.thy ===== *)
theory Mux_Stream
  imports Mux_Event
begin

text \<open>
  \<^verbatim>\<open>snova/mux/mux_stream.h\<close> and \<^verbatim>\<open>mux_stream.cc\<close>: the streams multiplexed over mux
  connections, their global table \<^verbatim>\<open>g_streams\<close> and the two id counters.  Streams are shared
  objects, so they live in a store (\<open>stream_objs\<close>, from references to records) and the table maps a
  client id and a stream id to a reference.

  The \<^verbatim>\<open>EventWriterFactory\<close> and the \<^verbatim>\<open>EventWriter\<close>s it makes are \<^verbatim>\<open>std::function\<close> values
  handed to the stream; they are the parameter \<open>writer_ops\<close>, acting on an outer world \<open>'w\<close>.  An
  operation of the stream's data channel that suspends is the result \<open>None\<close>.
\<close>

subsection \<open>State\<close>

record ('k, 'w) writer_ops =
  make_writer :: "'w \<Rightarrow> 'k option"
  run_writer :: "'k \<Rightarrow> MuxEvent \<Rightarrow> 'w \<Rightarrow> bool \<times> 'w"

datatype errc = Ok | NoLink | ChannelError

record 'k MuxStream =
  event_writer :: "'k option"
  data_channel :: "(bytes \<times> nat) list"
  channel_closed :: bool
  write_bytes :: u64
  stream_client_id :: u64
  stream_sid :: u32
  is_tls :: bool
  closed :: bool

record ('k, 'w) mux_world =
  g_streams :: "u64 \<times> u32 \<rightharpoonup> nat"
  stream_objs :: "nat \<rightharpoonup> 'k MuxStream"
  next_ref :: nat
  g_active_stream_size :: u32
  g_client_sid :: u32
  g_server_sid :: u32
  outer :: 'w

definition mux_world_init :: "'w \<Rightarrow> ('k, 'w) mux_world" where
  "mux_world_init w = \<lparr>g_streams = Map.empty, stream_objs = Map.empty, next_ref = 0,
     g_active_stream_size = 0, g_client_sid = 1, g_server_sid = 2, outer = w\<rparr>"

subsection \<open>The table\<close>

definition MuxStream_NextID :: "bool \<Rightarrow> ('k, 'w) mux_world \<Rightarrow> u32 \<times> ('k, 'w) mux_world" where
  "MuxStream_NextID is_client W =
     (if is_client then (g_client_sid W, W\<lparr>g_client_sid := g_client_sid W + 2\<rparr>)
      else (g_server_sid W, W\<lparr>g_server_sid := g_server_sid W + 2\<rparr>))"

text \<open>\<^verbatim>\<open>emplace\<close> does not replace an entry that is there.\<close>

definition MuxStream_New ::
  "('k, 'w) writer_ops \<Rightarrow> u64 \<Rightarrow> u32 \<Rightarrow> ('k, 'w) mux_world \<Rightarrow> nat \<times> ('k, 'w) mux_world" where
  "MuxStream_New ops cid sid W =
     (let p = next_ref W;
          s = \<lparr>event_writer = make_writer ops (outer W), data_channel = [], channel_closed = False,
               write_bytes = 0, stream_client_id = cid, stream_sid = sid, is_tls = False, closed = False\<rparr>;
          W1 = W\<lparr>stream_objs := (stream_objs W)(p \<mapsto> s), next_ref := p + 1,
                 g_active_stream_size := g_active_stream_size W + 1\<rparr>
      in (p, case g_streams W1 (cid, sid) of
               None \<Rightarrow> W1\<lparr>g_streams := (g_streams W1)((cid, sid) \<mapsto> p)\<rparr>
             | Some _ \<Rightarrow> W1))"

definition MuxStream_Get :: "u64 \<Rightarrow> u32 \<Rightarrow> ('k, 'w) mux_world \<Rightarrow> nat option" where
  "MuxStream_Get cid sid W = g_streams W (cid, sid)"

definition MuxStream_Remove :: "u64 \<Rightarrow> u32 \<Rightarrow> ('k, 'w) mux_world \<Rightarrow> ('k, 'w) mux_world" where
  "MuxStream_Remove cid sid W = W\<lparr>g_streams := (g_streams W)((cid, sid) := None)\<rparr>"

text \<open>The destructor, when the last reference to a stream goes.\<close>

definition MuxStream_destroy :: "nat \<Rightarrow> ('k, 'w) mux_world \<Rightarrow> ('k, 'w) mux_world" where
  "MuxStream_destroy p W = W\<lparr>stream_objs := (stream_objs W)(p := None),
     g_active_stream_size := g_active_stream_size W - 1\<rparr>"

definition put_stream :: "nat \<Rightarrow> 'k MuxStream \<Rightarrow> ('k, 'w) mux_world \<Rightarrow> ('k, 'w) mux_world" where
  "put_stream p s W = W\<lparr>stream_objs := (stream_objs W)(p \<mapsto> s)\<rparr>"

subsection \<open>WriteEvent and Close\<close>

text \<open>The attempts of the loop: the writer, if there is one; then a fresh writer.\<close>

fun write_tries ::
  "('k, 'w) writer_ops \<Rightarrow> nat \<Rightarrow> MuxEvent \<Rightarrow> 'k option \<Rightarrow> 'w \<Rightarrow> bool \<times> 'k option \<times> 'w" where
  "write_tries ops 0 ev k w = (False, k, w)"
| "write_tries ops (Suc n) ev k w =
     (case k of
        None \<Rightarrow> write_tries ops n ev (make_writer ops w) w
      | Some wr \<Rightarrow>
          (case run_writer ops wr ev w of (success, w1) \<Rightarrow>
             if success then (True, k, w1)
             else write_tries ops n ev (make_writer ops w1) w1))"

definition StreamCloseRequest_of :: "u32 \<Rightarrow> MuxEvent" where
  "StreamCloseRequest_of sid = (let e = make_event StreamCloseRequest in
     e\<lparr>ev_head := (ev_head e)\<lparr>head_sid := sid\<rparr>\<rparr>)"

text \<open>The part of \<open>Close\<close> before it writes.\<close>

definition close_stream :: "nat \<Rightarrow> 'k MuxStream \<Rightarrow> ('k, 'w) mux_world \<Rightarrow> ('k, 'w) mux_world" where
  "close_stream p s W = put_stream p (s\<lparr>closed := True, channel_closed := True\<rparr>)
     (MuxStream_Remove (stream_client_id s) (stream_sid s) W)"

definition open_stream :: "nat \<Rightarrow> ('k, 'w) mux_world \<Rightarrow> nat" where
  "open_stream p W = (case stream_objs W p of Some s \<Rightarrow> (if closed s then 0 else 1) | None \<Rightarrow> 0)"

text \<open>\<open>WriteEvent\<close> closes the stream when it gives up, and \<open>Close\<close> writes: they call each other.\<close>

function (sequential)
  MuxStream_WriteEvent ::
    "('k, 'w) writer_ops \<Rightarrow> nat \<Rightarrow> MuxEvent \<Rightarrow> ('k, 'w) mux_world \<Rightarrow> bool \<times> ('k, 'w) mux_world"
and MuxStream_Close ::
    "('k, 'w) writer_ops \<Rightarrow> nat \<Rightarrow> bool \<Rightarrow> ('k, 'w) mux_world \<Rightarrow> errc \<times> ('k, 'w) mux_world" where
  "MuxStream_WriteEvent ops p ev W =
     (case stream_objs W p of
        None \<Rightarrow> (False, W)
      | Some s \<Rightarrow>
          (case write_tries ops 3 ev (event_writer s) (outer W) of (success, k, w1) \<Rightarrow>
             let W1 = put_stream p (s\<lparr>event_writer := k\<rparr>) (W\<lparr>outer := w1\<rparr>) in
             if success then (True, W1)
             else (False, snd (MuxStream_Close ops p False W1))))"
| "MuxStream_Close ops p close_by_remote W =
     (case stream_objs W p of
        None \<Rightarrow> (Ok, W)
      | Some s \<Rightarrow>
          if closed s then (Ok, W)
          else let W1 = close_stream p s W in
            if close_by_remote then (Ok, W1)
            else (case MuxStream_WriteEvent ops p (StreamCloseRequest_of (stream_sid s)) W1 of
                    (success, W2) \<Rightarrow> (if success then Ok else NoLink, W2)))"
  by pat_completeness auto

termination
  by (relation "measure (case_sum (\<lambda>(ops, p, ev, W). 2 * open_stream p W + 1)
        (\<lambda>(ops, p, r, W). 2 * open_stream p W))")
    (auto simp: open_stream_def put_stream_def close_stream_def MuxStream_Remove_def)

declare MuxStream_WriteEvent.simps [simp del] MuxStream_Close.simps [simp del]

subsection \<open>Open, Offer, Read and Write\<close>

definition StreamOpenRequest_of :: "u32 \<Rightarrow> bytes \<Rightarrow> u16 \<Rightarrow> bool \<Rightarrow> bool \<Rightarrow> MuxEvent" where
  "StreamOpenRequest_of sid host port tcp tls =
     (let e = make_event (StreamOpenRequest \<lparr>so_remote_host = snprintf_s 512 host,
                so_remote_port = ucast port, so_is_tcp = tcp, so_is_tls = tls\<rparr>)
      in e\<lparr>ev_head := (ev_head e)\<lparr>head_sid := sid\<rparr>\<rparr>)"

definition MuxStream_Open ::
  "('k, 'w) writer_ops \<Rightarrow> nat \<Rightarrow> bytes \<Rightarrow> u16 \<Rightarrow> bool \<Rightarrow> bool \<Rightarrow> ('k, 'w) mux_world \<Rightarrow>
     errc \<times> ('k, 'w) mux_world" where
  "MuxStream_Open ops p host port tcp tls W =
     (case stream_objs W p of
        None \<Rightarrow> (NoLink, W)
      | Some s \<Rightarrow>
          (case MuxStream_WriteEvent ops p (StreamOpenRequest_of (stream_sid s) host port tcp tls)
                  (put_stream p (s\<lparr>is_tls := tls\<rparr>) W) of
             (success, W1) \<Rightarrow> (if success then Ok else NoLink, W1)))"

text \<open>
  The channel holds one value; a send beyond that suspends until a receive makes room, so that
  with one producer the order of sends is the order of receives.
\<close>

definition MuxStream_Offer ::
  "nat \<Rightarrow> bytes \<Rightarrow> nat \<Rightarrow> ('k, 'w) mux_world \<Rightarrow> (errc \<times> ('k, 'w) mux_world) option" where
  "MuxStream_Offer p buf len W =
     (case stream_objs W p of
        None \<Rightarrow> Some (NoLink, W)
      | Some s \<Rightarrow>
          if closed s then Some (NoLink, W)
          else if channel_closed s then Some (ChannelError, W)
          else if 1 \<le> length (data_channel s) then None
          else Some (Ok, put_stream p (s\<lparr>data_channel := data_channel s @ [(buf, len)]\<rparr>) W))"

definition MuxStream_Read ::
  "nat \<Rightarrow> ('k, 'w) mux_world \<Rightarrow> ((bytes option \<times> nat \<times> errc) \<times> ('k, 'w) mux_world) option" where
  "MuxStream_Read p W =
     (case stream_objs W p of
        None \<Rightarrow> Some ((None, 0, NoLink), W)
      | Some s \<Rightarrow>
          if closed s then Some ((None, 0, NoLink), W)
          else (case data_channel s of
                  (buf, len) # rest \<Rightarrow>
                    Some ((Some buf, len, Ok), put_stream p (s\<lparr>data_channel := rest\<rparr>) W)
                | [] \<Rightarrow> if channel_closed s then Some ((None, 0, ChannelError), W) else None))"

definition StreamChunk_of :: "u32 \<Rightarrow> bool \<Rightarrow> bytes \<Rightarrow> nat \<Rightarrow> MuxEvent" where
  "StreamChunk_of sid no_encrypt buf len =
     (let e = make_event (StreamChunk buf (word_of_nat len)) in
      e\<lparr>ev_head := (ev_head e)\<lparr>head_sid := sid,
          head_flags := (head_flags (ev_head e))\<lparr>body_no_encrypt := no_encrypt\<rparr>\<rparr>\<rparr>)"

definition MuxStream_Write ::
  "('k, 'w) writer_ops \<Rightarrow> bool \<Rightarrow> nat \<Rightarrow> bytes \<Rightarrow> nat \<Rightarrow> ('k, 'w) mux_world \<Rightarrow>
     errc \<times> ('k, 'w) mux_world" where
  "MuxStream_Write ops is_entry_node p buf len W =
     (case stream_objs W p of
        None \<Rightarrow> (NoLink, W)
      | Some s \<Rightarrow>
          let no_encrypt = (if is_tls s
                then (if write_bytes s = 0 \<and> is_entry_node then False else True) else False);
              W1 = put_stream p (s\<lparr>write_bytes := write_bytes s + word_of_nat len\<rparr>) W
          in (case MuxStream_WriteEvent ops p (StreamChunk_of (stream_sid s) no_encrypt buf len) W1 of
                (success, W2) \<Rightarrow> (if success then Ok else NoLink, W2)))"

definition MuxStream_SetTLS :: "nat \<Rightarrow> bool \<Rightarrow> ('k, 'w) mux_world \<Rightarrow> ('k, 'w) mux_world" where
  "MuxStream_SetTLS p v W =
     (case stream_objs W p of None \<Rightarrow> W | Some s \<Rightarrow> put_stream p (s\<lparr>is_tls := v\<rparr>) W)"

subsection \<open>The table invariant\<close>

text \<open>
  What the table registers is an open stream with the ids it is registered under; references not
  yet handed out are free.
\<close>

definition stream_inv :: "('k, 'w) mux_world \<Rightarrow> bool" where
  "stream_inv W \<longleftrightarrow>
     (\<forall>cid sid p. g_streams W (cid, sid) = Some p \<longrightarrow>
        (\<exists>s. stream_objs W p = Some s \<and> \<not> closed s \<and> stream_client_id s = cid \<and> stream_sid s = sid)) \<and>
     (\<forall>p. next_ref W \<le> p \<longrightarrow> stream_objs W p = None)"

text \<open>Everything the rest of the program does with streams; a stream dies when unregistered.\<close>

inductive stream_reachable :: "('k, 'w) writer_ops \<Rightarrow> ('k, 'w) mux_world \<Rightarrow> bool" for ops where
  init: "stream_reachable ops (mux_world_init w)"
| next_id: "stream_reachable ops W \<Longrightarrow> stream_reachable ops (snd (MuxStream_NextID b W))"
| new: "stream_reachable ops W \<Longrightarrow> stream_reachable ops (snd (MuxStream_New ops cid sid W))"
| remove: "stream_reachable ops W \<Longrightarrow> stream_reachable ops (MuxStream_Remove cid sid W)"
| opened: "stream_reachable ops W \<Longrightarrow> stream_reachable ops (snd (MuxStream_Open ops p host port tcp tls W))"
| offer: "stream_reachable ops W \<Longrightarrow> MuxStream_Offer p buf len W = Some (e, W') \<Longrightarrow> stream_reachable ops W'"
| readed: "stream_reachable ops W \<Longrightarrow> MuxStream_Read p W = Some (r, W') \<Longrightarrow> stream_reachable ops W'"
| written: "stream_reachable ops W \<Longrightarrow> stream_reachable ops (snd (MuxStream_Write ops entry p buf len W))"
| closing: "stream_reachable ops W \<Longrightarrow> stream_reachable ops (snd (MuxStream_Close ops p by_remote W))"
| set_tls: "stream_reachable ops W \<Longrightarrow> stream_reachable ops (MuxStream_SetTLS p v W)"
| outside: "stream_reachable ops W \<Longrightarrow> stream_reachable ops (W\<lparr>outer := w\<rparr>)"
| destroy: "stream_reachable ops W \<Longrightarrow> p \<notin> ran (g_streams W) \<Longrightarrow> stream_reachable ops (MuxStream_destroy p W)"

named_theorems stream_simps \<open>operations on the stream store\<close>

lemma stream_inv_put [stream_simps]:
  assumes "stream_inv W" "stream_objs W p = Some s" "closed s' = closed s"
    "stream_client_id s' = stream_client_id s" "stream_sid s' = stream_sid s"
  shows "stream_inv (put_stream p s' W)"
proof -
  have "p < next_ref W" using assms(1,2) by (metis not_le option.distinct(1) stream_inv_def)
  with assms show ?thesis
    by (fastforce simp: stream_inv_def put_stream_def split: if_splits)
qed

lemma stream_inv_outer [stream_simps]: "stream_inv W \<Longrightarrow> stream_inv (W\<lparr>outer := w\<rparr>)"
  by (simp add: stream_inv_def)

lemma stream_inv_close_stream:
  assumes "stream_inv W" "stream_objs W p = Some s"
  shows "stream_inv (close_stream p s W)"
proof -
  have "p < next_ref W" using assms(1,2) by (metis not_le option.distinct(1) stream_inv_def)
  with assms show ?thesis
    by (fastforce simp: stream_inv_def close_stream_def put_stream_def MuxStream_Remove_def split: if_splits)
qed

lemma stream_inv_WriteEvent_Close:
  "stream_inv W \<Longrightarrow> stream_inv (snd (MuxStream_WriteEvent ops p ev W))"
  "stream_inv V \<Longrightarrow> stream_inv (snd (MuxStream_Close ops q r V))"
proof (induction ops p ev W and ops q r V rule: MuxStream_WriteEvent_MuxStream_Close.induct)
  case (1 ops p ev W)
  show ?case
  proof (cases "stream_objs W p")
    case None
    with 1 show ?thesis by (simp add: MuxStream_WriteEvent.simps)
  next
    case (Some s)
    obtain ok k w1 where t: "write_tries ops 3 ev (event_writer s) (outer W) = (ok, k, w1)"
      by (metis prod_cases3)
    have "stream_inv (put_stream p (s\<lparr>event_writer := k\<rparr>) (W\<lparr>outer := w1\<rparr>))"
      by (rule stream_inv_put [OF stream_inv_outer [OF 1(2)]]) (use Some in simp_all)
    with Some t 1(1) [OF Some t [symmetric]] show ?thesis
      by (simp add: MuxStream_WriteEvent.simps Let_def)
  qed
next
  case (2 ops p r W)
  show ?case
  proof (cases "stream_objs W p")
    case None
    with 2 show ?thesis by (simp add: MuxStream_Close.simps)
  next
    case (Some s)
    note cs = stream_inv_close_stream [OF 2(2) Some]
    have IH: "\<not> closed s \<Longrightarrow> \<not> r \<Longrightarrow>
        stream_inv (snd (MuxStream_WriteEvent ops p (StreamCloseRequest_of (stream_sid s)) (close_stream p s W)))"
      using 2(1) [OF Some _ refl _ cs] .
    show ?thesis
      by (subst MuxStream_Close.simps) (use Some IH cs 2(2) in \<open>auto simp: Let_def split: prod.split\<close>)
  qed
qed

lemma stream_reachable_inv: "stream_reachable ops W \<Longrightarrow> stream_inv W"
proof (induction rule: stream_reachable.induct)
  case (init w)
  show ?case by (simp add: stream_inv_def mux_world_init_def)
next
  case (next_id W b)
  then show ?case by (simp add: stream_inv_def MuxStream_NextID_def)
next
  case (new W cid sid)
  then show ?case
    by (fastforce simp: stream_inv_def MuxStream_New_def Let_def split: option.splits if_splits)
next
  case (remove W cid sid)
  then show ?case by (auto simp: stream_inv_def MuxStream_Remove_def)
next
  case (opened W p host port tcp tls)
  show ?case
  proof (cases "stream_objs W p")
    case (Some s)
    then have "stream_inv (put_stream p (s\<lparr>is_tls := tls\<rparr>) W)"
      by (intro stream_inv_put [OF opened.IH]) auto
    from stream_inv_WriteEvent_Close(1) [OF this, of ops p] Some show ?thesis
      by (auto simp: MuxStream_Open_def split: prod.splits) (metis snd_conv)
  qed (use opened in \<open>simp add: MuxStream_Open_def\<close>)
next
  case (offer W p buf len e W')
  then show ?case
    by (auto simp: MuxStream_Offer_def intro!: stream_inv_put split: option.splits if_splits)
next
  case (readed W p r W')
  then show ?case
    by (auto simp: MuxStream_Read_def intro!: stream_inv_put split: option.splits if_splits list.splits)
next
  case (written W entry p buf len)
  show ?case
  proof (cases "stream_objs W p")
    case (Some s)
    then have "stream_inv (put_stream p (s\<lparr>write_bytes := write_bytes s + word_of_nat len\<rparr>) W)"
      by (intro stream_inv_put [OF written.IH]) auto
    from stream_inv_WriteEvent_Close(1) [OF this, of ops p] Some show ?thesis
      by (auto simp: MuxStream_Write_def Let_def split: prod.splits) (metis snd_conv)+
  qed (use written in \<open>simp add: MuxStream_Write_def\<close>)
next
  case (closing W p by_remote)
  show ?case by (rule stream_inv_WriteEvent_Close(2) [OF closing.IH])
next
  case (set_tls W p v)
  then show ?case by (auto simp: MuxStream_SetTLS_def intro!: stream_inv_put split: option.splits)
next
  case (outside W w)
  show ?case by (rule stream_inv_outer [OF outside.IH])
next
  case (destroy W p)
  then show ?case by (fastforce simp: stream_inv_def MuxStream_destroy_def ran_def)
qed

subsection \<open>What WriteEvent and Close do\<close>

text \<open>
  The contract of an event writer: it reports success exactly when the event went out.  \<open>sent\<close>
  is the list of events that went out so far.
\<close>

locale event_sink =
  fixes ops :: "('k, 'w) writer_ops" and sent :: "'w \<Rightarrow> MuxEvent list"
  assumes run_success: "run_writer ops k ev w = (True, w') \<Longrightarrow> sent w' = sent w @ [ev]"
    and run_failure: "run_writer ops k ev w = (False, w') \<Longrightarrow> sent w' = sent w"
begin

lemma write_tries_sent:
  "write_tries ops n ev k w = (ok, k', w') \<Longrightarrow> sent w' = sent w @ (if ok then [ev] else [])"
proof (induction n arbitrary: k w)
  case (Suc n)
  then show ?case
    by (auto split: option.splits prod.splits if_splits dest: run_success run_failure)
qed auto

end

lemma write_tries_sent_of:
  assumes "event_sink ops sent" "write_tries ops n ev k w = (ok, k', w')"
  shows "sent w' = sent w @ (if ok then [ev] else [])"
  by (rule event_sink.write_tries_sent [OF assms])

text \<open>\<open>WriteEvent\<close> on a stream that is closed already only tries; on an open one it may close it.\<close>

lemma WriteEvent_closed:
  assumes "stream_objs W p = Some s" "closed s"
    and t: "write_tries ops 3 ev (event_writer s) (outer W) = (ok, k, w1)"
  shows "MuxStream_WriteEvent ops p ev W = (ok, put_stream p (s\<lparr>event_writer := k\<rparr>) (W\<lparr>outer := w1\<rparr>))"
  using assms by (simp add: MuxStream_WriteEvent.simps MuxStream_Close.simps Let_def put_stream_def)

lemma Close_closed: "stream_objs W p = Some s \<Longrightarrow> closed s \<Longrightarrow> MuxStream_Close ops p r W = (Ok, W)"
  by (simp add: MuxStream_Close.simps)

lemma Close_remote:
  "stream_objs W p = Some s \<Longrightarrow> \<not> closed s \<Longrightarrow> MuxStream_Close ops p True W = (Ok, close_stream p s W)"
  by (simp add: MuxStream_Close.simps Let_def)

lemma Close_local:
  assumes s: "stream_objs W p = Some s" "\<not> closed s"
    and t: "write_tries ops 3 (StreamCloseRequest_of (stream_sid s)) (event_writer s) (outer W) = (ok, k, w1)"
  shows "MuxStream_Close ops p False W = (if ok then Ok else NoLink,
    (close_stream p (s\<lparr>event_writer := k\<rparr>) W)\<lparr>outer := w1\<rparr>)"
proof -
  let ?W1 = "close_stream p s W"
  have s1: "stream_objs ?W1 p = Some (s\<lparr>closed := True, channel_closed := True\<rparr>)" "outer ?W1 = outer W"
    by (simp_all add: close_stream_def put_stream_def MuxStream_Remove_def)
  with t have w: "MuxStream_WriteEvent ops p (StreamCloseRequest_of (stream_sid s)) ?W1 =
      (ok, put_stream p (s\<lparr>closed := True, channel_closed := True, event_writer := k\<rparr>) (?W1\<lparr>outer := w1\<rparr>))"
    using WriteEvent_closed [OF s1(1)] by simp
  have "put_stream p (s\<lparr>closed := True, channel_closed := True, event_writer := k\<rparr>) (?W1\<lparr>outer := w1\<rparr>) =
      (close_stream p (s\<lparr>event_writer := k\<rparr>) W)\<lparr>outer := w1\<rparr>"
    by (cases W, cases s) (simp add: put_stream_def close_stream_def MuxStream_Remove_def)
  with s w show ?thesis by (simp add: MuxStream_Close.simps Let_def)
qed

lemma WriteEvent_open:
  assumes s: "stream_objs W p = Some s" "\<not> closed s"
    and t: "write_tries ops 3 ev (event_writer s) (outer W) = (ok, k, w1)"
    and t2: "write_tries ops 3 (StreamCloseRequest_of (stream_sid s)) k w1 = (ok2, k2, w2)"
  shows "MuxStream_WriteEvent ops p ev W =
    (if ok then (True, put_stream p (s\<lparr>event_writer := k\<rparr>) (W\<lparr>outer := w1\<rparr>))
     else (False, (close_stream p (s\<lparr>event_writer := k2\<rparr>) W)\<lparr>outer := w2\<rparr>))"
proof -
  let ?s1 = "s\<lparr>event_writer := k\<rparr>"
  let ?W1 = "put_stream p ?s1 (W\<lparr>outer := w1\<rparr>)"
  have "stream_objs ?W1 p = Some ?s1" "\<not> closed ?s1" using s by (simp_all add: put_stream_def)
  note cl = Close_local [OF this, of ops ok2 k2 w2]
  have "(close_stream p (s\<lparr>event_writer := k2\<rparr>) ?W1)\<lparr>outer := w2\<rparr> =
      (close_stream p (s\<lparr>event_writer := k2\<rparr>) W)\<lparr>outer := w2\<rparr>"
    by (cases W, cases s) (simp add: put_stream_def close_stream_def MuxStream_Remove_def)
  with cl t2 have "snd (MuxStream_Close ops p False ?W1) =
      (close_stream p (s\<lparr>event_writer := k2\<rparr>) W)\<lparr>outer := w2\<rparr>"
    by (simp add: put_stream_def)
  with s t show ?thesis by (simp add: MuxStream_WriteEvent.simps Let_def)
qed

lemma close_stream_effect:
  "stream_objs (close_stream p s W) p = Some (s\<lparr>closed := True, channel_closed := True\<rparr>)"
  "g_streams (close_stream p s W) (stream_client_id s, stream_sid s) = None"
  "outer (close_stream p s W) = outer W"
  by (simp_all add: close_stream_def put_stream_def MuxStream_Remove_def)

subsection \<open>A sink that accepts or refuses\<close>

text \<open>The simplest writers: the world is what went out and how many more calls will fail.\<close>

definition log_sink :: "(unit, MuxEvent list \<times> nat) writer_ops" where
  "log_sink = \<lparr>make_writer = (\<lambda>_. Some ()),
     run_writer = (\<lambda>_ ev (l, n). if n = 0 then (True, l @ [ev], 0) else (False, l, n - 1))\<rparr>"

interpretation log_sink: event_sink log_sink fst
  by unfold_locales (auto simp: log_sink_def split: if_splits)

lemma write_event_outcome_aux:
  assumes "event_sink ops sent" "stream_objs W p = Some s" "\<not> closed s"
    and "MuxStream_WriteEvent ops p ev W = (ok, W')"
  shows "if ok then sent (outer W') = sent (outer W) @ [ev] \<and> g_streams W' = g_streams W \<and>
           (\<exists>k. stream_objs W' p = Some (s\<lparr>event_writer := k\<rparr>))
         else (sent (outer W') = sent (outer W) \<or>
               sent (outer W') = sent (outer W) @ [StreamCloseRequest_of (stream_sid s)]) \<and>
           MuxStream_Get (stream_client_id s) (stream_sid s) W' = None \<and>
           (\<exists>s'. stream_objs W' p = Some s' \<and> closed s')"
proof -
  obtain ok1 k w1 where t: "write_tries ops 3 ev (event_writer s) (outer W) = (ok1, k, w1)"
    by (metis prod_cases3)
  obtain ok2 k2 w2 where t2: "write_tries ops 3 (StreamCloseRequest_of (stream_sid s)) k w1 = (ok2, k2, w2)"
    by (metis prod_cases3)
  note sent = write_tries_sent_of [OF assms(1) t] write_tries_sent_of [OF assms(1) t2]
  from assms(4) WriteEvent_open [OF assms(2,3) t t2] sent show ?thesis
    using close_stream_effect [of p "s\<lparr>event_writer := k2\<rparr>" W]
    by (auto simp: put_stream_def MuxStream_Get_def split: if_splits)
qed

subsection \<open>Properties\<close>

text \<open>C8: the stream table is consistent in every reachable state.  Whatever the program does with
  streams, a stream found in the table under a client id and a stream id is alive, not closed, and
  has these ids; so no chunk is ever routed to a closed stream or to another client's stream.\<close>

theorem stream_table_consistent:
  assumes "stream_reachable ops W" "MuxStream_Get cid sid W = Some p"
  shows "\<exists>s. stream_objs W p = Some s \<and> \<not> closed s \<and> stream_client_id s = cid \<and> stream_sid s = sid"
  using stream_reachable_inv [OF assms(1)] assms(2) by (simp add: stream_inv_def MuxStream_Get_def)

definition sample_world :: "(unit, MuxEvent list \<times> nat) mux_world" where
  "sample_world = snd (MuxStream_New log_sink 9 1 (mux_world_init ([], 0)))"

lemma sample_world_reachable: "stream_reachable log_sink sample_world"
  unfolding sample_world_def by (intro stream_reachable.intros)

lemma sample_world_stream:
  "stream_objs sample_world 0 = Some \<lparr>event_writer = Some (), data_channel = [], channel_closed = False,
     write_bytes = 0, stream_client_id = 9, stream_sid = 1, is_tls = False, closed = False\<rparr>"
  "MuxStream_Get 9 1 sample_world = Some 0" "outer sample_world = ([], 0)"
  by (simp_all add: sample_world_def MuxStream_New_def mux_world_init_def Let_def log_sink_def MuxStream_Get_def)

theorem stream_table_consistent_witness:
  "\<exists>s. stream_objs sample_world 0 = Some s \<and> \<not> closed s \<and> stream_client_id s = 9 \<and> stream_sid s = 1"
  by (rule stream_table_consistent [OF sample_world_reachable sample_world_stream(2)])

text \<open>An event is written at most once, and a stream that cannot write closes.  With writers that
  report truthfully, \<open>WriteEvent\<close> on an open stream either returns true, and then exactly this event
  has gone out and the stream is as before but for its writer; or it returns false after three
  attempts, and then the event has not gone out, the stream is closed and no longer registered, and
  the only thing that may have gone out is the notice that it closed.\<close>

theorem write_event_outcome:
  assumes "event_sink ops sent" "stream_objs W p = Some s" "\<not> closed s"
    and "MuxStream_WriteEvent ops p ev W = (ok, W')"
  shows "if ok then sent (outer W') = sent (outer W) @ [ev] \<and> g_streams W' = g_streams W \<and>
           (\<exists>k. stream_objs W' p = Some (s\<lparr>event_writer := k\<rparr>))
         else (sent (outer W') = sent (outer W) \<or>
               sent (outer W') = sent (outer W) @ [StreamCloseRequest_of (stream_sid s)]) \<and>
           MuxStream_Get (stream_client_id s) (stream_sid s) W' = None \<and>
           (\<exists>s'. stream_objs W' p = Some s' \<and> closed s')"
  by (rule write_event_outcome_aux [OF assms])

theorem write_event_outcome_witness:
  "\<exists>W'. MuxStream_WriteEvent log_sink 0 (make_event RetireConnRequest) (sample_world\<lparr>outer := ([], 2)\<rparr>) = (True, W') \<and>
     fst (outer W') = [make_event RetireConnRequest]"
proof -
  let ?W = "sample_world\<lparr>outer := ([], 2)\<rparr>"
  obtain ok W' where w: "MuxStream_WriteEvent log_sink 0 (make_event RetireConnRequest) ?W = (ok, W')" by fastforce
  have s: "stream_objs ?W 0 = stream_objs sample_world 0" by simp
  have "ok"
    using w by (simp add: MuxStream_WriteEvent.simps s sample_world_stream log_sink_def numeral_3_eq_3 Let_def)
  with write_event_outcome [OF log_sink.event_sink_axioms s [unfolded sample_world_stream] _ w]
  show ?thesis using w by auto
qed

text \<open>Closing a stream.  \<open>Close\<close> on an open stream unregisters and closes it; by the remote side
  it sends nothing, by the local side it sends one close notice unless the writers fail, and then
  reports \<^verbatim>\<open>no_link\<close>; and any further \<open>Close\<close> is without effect.\<close>

theorem close_once:
  assumes "event_sink ops sent" "stream_objs W p = Some s" "\<not> closed s"
    and "MuxStream_Close ops p by_remote W = (e, W')"
  shows "MuxStream_Get (stream_client_id s) (stream_sid s) W' = None \<and>
    sent (outer W') = sent (outer W) @
      (if \<not> by_remote \<and> e = Ok then [StreamCloseRequest_of (stream_sid s)] else []) \<and>
    (\<forall>r. MuxStream_Close ops p r W' = (Ok, W'))"
proof -
  obtain ok k w1 where t: "write_tries ops 3 (StreamCloseRequest_of (stream_sid s)) (event_writer s) (outer W) =
      (ok, k, w1)" by (metis prod_cases3)
  show ?thesis
    using assms(4) Close_remote [OF assms(2,3)] Close_local [OF assms(2,3) t] write_tries_sent_of [OF assms(1) t]
      close_stream_effect [of p s W] close_stream_effect [of p "s\<lparr>event_writer := k\<rparr>" W]
    by (cases by_remote) (auto simp: MuxStream_Get_def Close_closed split: if_splits)
qed

theorem close_once_witness:
  "\<exists>W'. MuxStream_Close log_sink 0 False sample_world = (Ok, W') \<and>
     MuxStream_Get 9 1 W' = None \<and> fst (outer W') = [StreamCloseRequest_of 1] \<and>
     MuxStream_Close log_sink 0 True W' = (Ok, W')"
proof -
  obtain e W' where w: "MuxStream_Close log_sink 0 False sample_world = (e, W')" by fastforce
  have "e = Ok"
    using w Close_local [OF sample_world_stream(1), of log_sink True "Some ()" "([StreamCloseRequest_of 1], 0)"]
    by (simp add: sample_world_stream log_sink_def numeral_3_eq_3)
  with close_once [OF log_sink.event_sink_axioms sample_world_stream(1) _ w] w show ?thesis
    by (simp add: sample_world_stream)
qed

text \<open>Which chunks travel without body encryption.  A successful \<open>Write\<close> sends exactly one chunk
  event with the stream's id and the given bytes; its body is left to the TLS session it carries
  (flag \<open>body_no_encrypt\<close>) exactly when the stream is marked as TLS and this is not the first write of
  an entry node, the one that carries the client hello.\<close>

theorem write_chunk_flag:
  assumes "event_sink ops sent" "stream_objs W p = Some s" "\<not> closed s"
    and "MuxStream_Write ops is_entry_node p buf len W = (Ok, W')"
  shows "sent (outer W') = sent (outer W) @
     [StreamChunk_of (stream_sid s) (is_tls s \<and> \<not> (write_bytes s = 0 \<and> is_entry_node)) buf len]"
proof -
  let ?s1 = "s\<lparr>write_bytes := write_bytes s + word_of_nat len\<rparr>"
  let ?ev = "StreamChunk_of (stream_sid s) (is_tls s \<and> \<not> (write_bytes s = 0 \<and> is_entry_node)) buf len"
  obtain ok W2 where w: "MuxStream_WriteEvent ops p ?ev (put_stream p ?s1 W) = (ok, W2)" by fastforce
  have flag: "(if is_tls s then (if write_bytes s = 0 \<and> is_entry_node then False else True) else False) =
      (is_tls s \<and> \<not> (write_bytes s = 0 \<and> is_entry_node))" by simp
  have "ok" "W' = W2"
    using assms(2,4) w unfolding MuxStream_Write_def Let_def flag by (auto split: if_splits)
  moreover have "stream_objs (put_stream p ?s1 W) p = Some ?s1" "\<not> closed ?s1"
    using assms(3) by (simp_all add: put_stream_def)
  ultimately show ?thesis
    using write_event_outcome_aux [OF assms(1) _ _ w] by (simp add: put_stream_def)
qed

definition sample_tls_world :: "(unit, MuxEvent list \<times> nat) mux_world" where
  "sample_tls_world = MuxStream_SetTLS 0 True sample_world"

theorem write_chunk_flag_witness:
  "\<exists>W'. MuxStream_Write log_sink True 0 [1, 2] 2 sample_tls_world = (Ok, W') \<and>
     fst (outer W') = [StreamChunk_of 1 False [1, 2] 2]"
proof -
  obtain e W' where w: "MuxStream_Write log_sink True 0 [1, 2] 2 sample_tls_world = (e, W')" by fastforce
  have s: "stream_objs sample_tls_world 0 = Some \<lparr>event_writer = Some (), data_channel = [], channel_closed = False,
     write_bytes = 0, stream_client_id = 9, stream_sid = 1, is_tls = True, closed = False\<rparr>"
    "outer sample_tls_world = ([], 0)"
    by (simp_all add: sample_tls_world_def MuxStream_SetTLS_def sample_world_stream put_stream_def)
  have "e = Ok"
    using w by (auto simp: MuxStream_Write_def Let_def s MuxStream_WriteEvent.simps put_stream_def log_sink_def
        numeral_3_eq_3 split: if_splits)
  with write_chunk_flag [OF log_sink.event_sink_axioms s(1) _ w [unfolded \<open>e = Ok\<close>]] w show ?thesis
    by (auto simp: s)
qed

fun next_ids :: "bool \<Rightarrow> nat \<Rightarrow> ('k, 'w) mux_world \<Rightarrow> u32 list" where
  "next_ids is_client 0 W = []"
| "next_ids is_client (Suc n) W = (case MuxStream_NextID is_client W of (i, W1) \<Rightarrow> i # next_ids is_client n W1)"

lemma next_ids_eq:
  "next_ids b n W = map (\<lambda>i. (if b then g_client_sid W else g_server_sid W) + 2 * word_of_nat i) [0..<n]"
proof (induction n arbitrary: W)
  case (Suc n)
  have "[0..<Suc n] = 0 # map Suc [0..<n]" by (simp only: map_Suc_upt upt_conv_Cons zero_less_Suc)
  with Suc show ?case by (auto simp: MuxStream_NextID_def algebra_simps)
qed simp

lemma twice_word_inj:
  assumes "i < 2 ^ 31" "j < 2 ^ 31" "2 * word_of_nat i = (2 * word_of_nat j :: u32)"
  shows "i = j"
proof -
  have "unat (2 * word_of_nat k :: u32) = 2 * k" if "k < 2 ^ 31" for k
    using that unat_of_nat [of "2 * k", where ?'a = 32] by simp
  with assms show ?thesis by (metis mult_cancel1 zero_neq_numeral)
qed

text \<open>Stream ids.  The ids a side draws one after the other are pairwise distinct for \<open>2^31\<close>
  draws, odd on the client side and even on the server side, so that two sides never draw the
  same id.\<close>

theorem stream_ids_distinct:
  assumes "n \<le> 2 ^ 31"
  shows "distinct (next_ids True n (mux_world_init w)) \<and> distinct (next_ids False n (mux_world_init w)) \<and>
    (\<forall>i\<in>set (next_ids True n (mux_world_init w)). odd (unat i)) \<and>
    (\<forall>i\<in>set (next_ids False n (mux_world_init w)). even (unat i))"
proof -
  have inj: "inj_on (\<lambda>i. c + 2 * word_of_nat i :: u32) (set [0..<n])" for c
    using assms twice_word_inj by (auto intro!: inj_onI)
  have par: "even (unat (c + 2 * word_of_nat i :: u32)) \<longleftrightarrow> even (unat c)" for c i
    by (simp add: unat_word_ariths dvd_mod_iff)
  show ?thesis
    using inj [of 1] inj [of 2] par [of 1] par [of 2]
    by (auto simp: next_ids_eq mux_world_init_def distinct_map)
qed

theorem stream_ids_distinct_witness:
  "distinct (next_ids True 3 (mux_world_init () :: (unit, unit) mux_world))"
  by (rule stream_ids_distinct [THEN conjunct1]) simp

text \<open>The data channel hands chunks over, but not across a close.  On an open stream with an
  empty channel an offered chunk is what the next \<open>Read\<close> returns, and a second offer before that
  suspends.  When the remote close comes first, the chunk that was already accepted is never
  returned: \<open>Read\<close> answers \<^verbatim>\<open>no_link\<close>.\<close>

theorem offer_read:
  assumes "stream_objs W p = Some s" "\<not> closed s" "\<not> channel_closed s" "data_channel s = []"
  shows "\<exists>W1 W2. MuxStream_Offer p buf len W = Some (Ok, W1) \<and>
    MuxStream_Offer p buf' len' W1 = None \<and>
    MuxStream_Read p W1 = Some ((Some buf, len, Ok), W2) \<and>
    MuxStream_Read p (snd (MuxStream_Close ops p True W1)) =
      Some ((None, 0, NoLink), snd (MuxStream_Close ops p True W1))"
proof -
  let ?s1 = "s\<lparr>data_channel := [(buf, len)]\<rparr>"
  let ?W1 = "put_stream p ?s1 W"
  have s1: "stream_objs ?W1 p = Some ?s1" by (simp add: put_stream_def)
  with assms Close_remote [OF s1, of ops] close_stream_effect [of p ?s1 ?W1] show ?thesis
    by (intro exI [of _ ?W1] exI) (simp add: MuxStream_Offer_def MuxStream_Read_def)
qed

theorem offer_read_witness:
  "\<exists>W1 W2. MuxStream_Offer 0 [5] 1 sample_world = Some (Ok, W1) \<and>
    MuxStream_Offer 0 [6] 1 W1 = None \<and>
    MuxStream_Read 0 W1 = Some ((Some [5], 1, Ok), W2) \<and>
    MuxStream_Read 0 (snd (MuxStream_Close log_sink 0 True W1)) =
      Some ((None, 0, NoLink), snd (MuxStream_Close log_sink 0 True W1))"
  by (rule offer_read [OF sample_world_stream(1)]) simp_all

text \<open>Two streams with one id.  When the ids are taken, \<open>New\<close> makes a stream that the table
  does not know; the table still finds the older one.  Closing the newer one unregisters the older
  one, which stays open but receives nothing any more.\<close>

theorem duplicate_stream_id:
  assumes "stream_reachable ops W" "MuxStream_Get cid sid W = Some q"
    and "MuxStream_New ops cid sid W = (p, W1)"
  shows "p \<noteq> q \<and> MuxStream_Get cid sid W1 = Some q \<and>
    MuxStream_Get cid sid (snd (MuxStream_Close ops p True W1)) = None \<and>
    (\<exists>s. stream_objs (snd (MuxStream_Close ops p True W1)) q = Some s \<and> \<not> closed s)"
proof -
  have inv: "stream_inv W" by (rule stream_reachable_inv [OF assms(1)])
  then obtain s where q: "stream_objs W q = Some s" "\<not> closed s"
    using assms(2) unfolding stream_inv_def MuxStream_Get_def by blast
  have p: "p = next_ref W" "stream_objs W p = None"
    using assms(3) inv by (auto simp: MuxStream_New_def Let_def stream_inv_def)
  then have "p \<noteq> q" using q by auto
  moreover have new: "MuxStream_Get cid sid W1 = Some q" "stream_objs W1 q = Some s"
    using assms(2,3) q p \<open>p \<noteq> q\<close> by (auto simp: MuxStream_New_def Let_def MuxStream_Get_def)
  moreover obtain s1 where s1: "stream_objs W1 p = Some s1" "\<not> closed s1" "stream_client_id s1 = cid" "stream_sid s1 = sid"
    using assms(2,3) p by (auto simp: MuxStream_New_def Let_def MuxStream_Get_def)
  ultimately show ?thesis
    using Close_remote [OF s1(1,2), of ops] q(2)
    by (simp add: close_stream_def put_stream_def MuxStream_Remove_def MuxStream_Get_def)
qed

theorem duplicate_stream_id_witness:
  "\<exists>W1. MuxStream_New log_sink 9 1 sample_world = (1, W1) \<and> (1 :: nat) \<noteq> 0 \<and>
     MuxStream_Get 9 1 W1 = Some 0 \<and> MuxStream_Get 9 1 (snd (MuxStream_Close log_sink 1 True W1)) = None"
proof -
  obtain p W1 where n: "MuxStream_New log_sink 9 1 sample_world = (p, W1)" by fastforce
  have "p = 1" using n by (simp add: MuxStream_New_def sample_world_def mux_world_init_def Let_def split: option.splits)
  with duplicate_stream_id [OF sample_world_reachable sample_world_stream(2) n] n show ?thesis by auto
qed

end
