(* ===== verification/Mux_Conn_Manager.thy ===== *)
theory Mux_Conn_Manager
  imports Mux_Connection Mux_Stream "HOL-Library.AList" "HOL-Library.Product_Lexorder"
begin

text \<open>
  \<^verbatim>\<open>snova/mux/mux_conn_manager.h\<close> and \<^verbatim>\<open>mux_conn_manager.cc\<close>: which connections a user's
  client has, and which of them carries the next event of a stream.  Users, sessions and
  connections are shared objects; sessions and connections are references into stores.  A session
  table is an association list whose order stands for the iteration order of the hash map.
\<close>

subsection \<open>Comparing connections\<close>

definition ComparePriority :: "('r, 's) MuxConnection \<Rightarrow> ('r, 's) MuxConnection \<Rightarrow> int" where
  "ComparePriority c other =
     (if wait_count (write_mutex c) < wait_count (write_mutex other) then 1
      else if wait_count (write_mutex other) < wait_count (write_mutex c) then - 1
      else if \<not> locked (write_mutex c) \<and> locked (write_mutex other) then 1
      else if locked (write_mutex c) \<and> \<not> locked (write_mutex other) then - 1
      else let latest_send_bytes = GetLatestWindowSendBytes c;
               other_latest_send_bytes = GetLatestWindowSendBytes other
           in if latest_send_bytes < other_latest_send_bytes then 1
              else if other_latest_send_bytes < latest_send_bytes then - 1
              else 0)"

text \<open>What it compares by: waiting writers, then the lock, then the bytes lately sent.\<close>

definition load :: "('r, 's) MuxConnection \<Rightarrow> nat \<times> bool \<times> u64" where
  "load c = (wait_count (write_mutex c), locked (write_mutex c), GetLatestWindowSendBytes c)"

subsection \<open>State\<close>

record MuxSession =
  conns :: "nat option list"
  tunnel_servers :: "u64 list"

record ('r, 's) MuxConnManager =
  mux_conns :: "bytes \<rightharpoonup> (MuxConnectionType \<Rightarrow> (u64 \<times> nat) list)"
  sess_store :: "nat \<rightharpoonup> MuxSession"
  next_sess :: nat
  conn_store :: "nat \<rightharpoonup> ('r, 's) MuxConnection"

definition MuxConnManager_init :: "(nat \<rightharpoonup> ('r, 's) MuxConnection) \<Rightarrow> ('r, 's) MuxConnManager" where
  "MuxConnManager_init cs =
     \<lparr>mux_conns = Map.empty, sess_store = Map.empty, next_sess = 0, conn_store = cs\<rparr>"

subsection \<open>Sessions\<close>

definition GetUserMuxConn :: "bytes \<Rightarrow> ('r, 's) MuxConnManager \<Rightarrow> ('r, 's) MuxConnManager" where
  "GetUserMuxConn user m =
     (case mux_conns m user of
        None \<Rightarrow> m\<lparr>mux_conns := (mux_conns m)(user \<mapsto> (\<lambda>_. []))\<rparr>
      | Some _ \<Rightarrow> m)"

definition find_session :: "bytes \<Rightarrow> u64 \<Rightarrow> MuxConnectionType \<Rightarrow> ('r, 's) MuxConnManager \<Rightarrow> nat option" where
  "find_session user cid ty m =
     (case mux_conns m user of None \<Rightarrow> None | Some tabs \<Rightarrow> map_of (tabs ty) cid)"

definition GetSession ::
  "bytes \<Rightarrow> u64 \<Rightarrow> MuxConnectionType \<Rightarrow> ('r, 's) MuxConnManager \<Rightarrow> nat \<times> ('r, 's) MuxConnManager" where
  "GetSession user cid ty m =
     (let m1 = GetUserMuxConn user m; tabs = the (mux_conns m1 user) in
      case map_of (tabs ty) cid of
        Some sr \<Rightarrow> (sr, m1)
      | None \<Rightarrow>
          (let sr = next_sess m1 in
           (sr, m1\<lparr>next_sess := sr + 1,
                   sess_store := (sess_store m1)(sr \<mapsto> \<lparr>conns = [], tunnel_servers = []\<rparr>),
                   mux_conns := (mux_conns m1)(user \<mapsto> tabs(ty := AList.update cid sr (tabs ty)))\<rparr>)))"

fun first_empty :: "'a option list \<Rightarrow> nat option" where
  "first_empty [] = None"
| "first_empty (c # cs) = (if c = None then Some 0 else map_option Suc (first_empty cs))"

definition put_conn :: "nat \<Rightarrow> nat option list \<Rightarrow> nat \<times> nat option list" where
  "put_conn conn cs =
     (case first_empty cs of
        Some i \<Rightarrow> (i, cs[i := Some conn])
      | None \<Rightarrow> (length cs, cs @ [Some conn]))"

text \<open>The result: the session, the index of the connection, the manager.\<close>

definition MuxConnManager_Add ::
  "bytes \<Rightarrow> u64 \<Rightarrow> nat \<Rightarrow> ('r, 's) MuxConnManager \<Rightarrow> nat \<times> nat \<times> ('r, 's) MuxConnManager" where
  "MuxConnManager_Add user cid conn m =
     (case GetSession user cid (conn_type (the (conn_store m conn))) m of (sr, m1) \<Rightarrow>
        let s = the (sess_store m1 sr) in
        case put_conn conn (conns s) of (idx, cs) \<Rightarrow>
          (sr, idx, m1\<lparr>sess_store := (sess_store m1)(sr \<mapsto> s\<lparr>conns := cs\<rparr>)\<rparr>))"

text \<open>The loop of \<^verbatim>\<open>Remove\<close>: it stops at the first connection after the one it cleared.\<close>

fun remove_loop :: "nat \<Rightarrow> bool \<Rightarrow> bool \<Rightarrow> nat option list \<Rightarrow> nat option list \<times> bool" where
  "remove_loop conn matched all_empty [] = ([], all_empty)"
| "remove_loop conn matched all_empty (c # cs) =
     (case (if c = Some conn then (None, True) else (c, matched)) of (c1, matched1) \<Rightarrow>
        if c1 \<noteq> None
        then if matched1 then (c1 # cs, False)
             else (case remove_loop conn matched1 False cs of (cs1, ae) \<Rightarrow> (c1 # cs1, ae))
        else (case remove_loop conn matched1 all_empty cs of (cs1, ae) \<Rightarrow> (c1 # cs1, ae)))"

definition MuxConnManager_Remove ::
  "bytes \<Rightarrow> u64 \<Rightarrow> nat \<Rightarrow> ('r, 's) MuxConnManager \<Rightarrow> ('r, 's) MuxConnManager" where
  "MuxConnManager_Remove user cid conn m =
     (case mux_conns m user of
        None \<Rightarrow> m
      | Some tabs \<Rightarrow>
          let ty = conn_type (the (conn_store m conn)) in
          case map_of (tabs ty) cid of
            None \<Rightarrow> m
          | Some sr \<Rightarrow>
              let s = the (sess_store m sr) in
              case remove_loop conn False True (conns s) of (cs, all_empty) \<Rightarrow>
                let m1 = m\<lparr>sess_store := (sess_store m)(sr \<mapsto> s\<lparr>conns := cs\<rparr>)\<rparr> in
                if all_empty
                then m1\<lparr>mux_conns := (mux_conns m1)(user \<mapsto> tabs(ty := AList.delete cid (tabs ty)))\<rparr>
                else m1)"

subsection \<open>Event writers\<close>

fun select_loop :: "('c \<Rightarrow> 'c \<Rightarrow> int) \<Rightarrow> 'c option list \<Rightarrow> nat \<Rightarrow> 'c option list \<Rightarrow> int \<Rightarrow> int" where
  "select_loop cmp cs i [] select_idx = select_idx"
| "select_loop cmp cs i (c # rest) select_idx =
     select_loop cmp cs (i + 1) rest
       (case c of
          None \<Rightarrow> select_idx
        | Some x \<Rightarrow>
            if select_idx = - 1 then int i
            else (case cs ! nat select_idx of
                    Some y \<Rightarrow> if 0 < cmp x y then int i else select_idx
                  | None \<Rightarrow> select_idx))"

definition select_conn :: "('r, 's) MuxConnManager \<Rightarrow> nat option list \<Rightarrow> int" where
  "select_conn m cs = select_loop
     (\<lambda>x y. ComparePriority (the (conn_store m x)) (the (conn_store m y))) cs 0 cs (- 1)"

text \<open>
  The factory of a session, and the writer it makes: the session and the selected index.  The
  writer looks the connection up again when it runs.
\<close>

definition session_writer :: "nat \<Rightarrow> ('r, 's) MuxConnManager \<Rightarrow> (nat \<times> nat) option" where
  "session_writer sr m =
     (let i = select_conn m (conns (the (sess_store m sr))) in
      if i < 0 then None else Some (sr, nat i))"

definition session_write ::
  "('r, MuxEvent) encoder \<Rightarrow> 's writer \<Rightarrow> ('s \<Rightarrow> u64) \<Rightarrow> nat \<times> nat \<Rightarrow> MuxEvent \<Rightarrow>
     ('r, 's) MuxConnManager \<Rightarrow> bool \<times> ('r, 's) MuxConnManager" where
  "session_write enc wr tm k ev m = (case k of (sr, select_idx) \<Rightarrow>
     let cs = conns (the (sess_store m sr)) in
     if length cs \<le> select_idx then (False, m)
     else case cs ! select_idx of
       None \<Rightarrow> (False, m)
     | Some x \<Rightarrow>
         (case MuxConnection_Write enc wr tm (the (conn_store m x)) ev of
            (ok, c') \<Rightarrow> (ok, m\<lparr>conn_store := (conn_store m)(x \<mapsto> c')\<rparr>)))"

text \<open>The session whose factory is returned; \<open>None\<close> is the empty function.\<close>

definition MuxConnManager_GetEventWriterFactory ::
  "bytes \<Rightarrow> u64 \<Rightarrow> MuxConnectionType \<Rightarrow> ('r, 's) MuxConnManager \<Rightarrow> nat option" where
  "MuxConnManager_GetEventWriterFactory user cid ty m =
     (case mux_conns m user of
        None \<Rightarrow> None
      | Some tabs \<Rightarrow> (case map_of (tabs ty) cid of None \<Rightarrow> None | Some sr \<Rightarrow> Some sr))"

definition MuxConnManager_GetRelayEventWriterFactory ::
  "bytes \<Rightarrow> ('r, 's) MuxConnManager \<Rightarrow> (u64 \<times> nat) option" where
  "MuxConnManager_GetRelayEventWriterFactory user m =
     (case mux_conns m user of
        None \<Rightarrow> None
      | Some tabs \<Rightarrow> List.find (\<lambda>(cid, sr). length (conns (the (sess_store m sr))) \<noteq> 0) (tabs MUX_EXIT_CONN))"

subsection \<open>Selecting a connection\<close>

text \<open>\<open>sel\<close> is the first of the best among the first \<open>n\<close> slots, or \<open>- 1\<close> when they are empty.\<close>

definition best_slot :: "('c \<Rightarrow> 'k::linorder) \<Rightarrow> 'c option list \<Rightarrow> nat \<Rightarrow> int \<Rightarrow> bool" where
  "best_slot key cs n sel \<longleftrightarrow>
     (sel = - 1 \<and> (\<forall>j<n. cs ! j = None)) \<or>
     (0 \<le> sel \<and> nat sel < n \<and>
      (\<exists>y. cs ! nat sel = Some y \<and> (\<forall>j<n. \<forall>x. cs ! j = Some x \<longrightarrow> key y \<le> key x) \<and>
         (\<forall>j<nat sel. \<forall>x. cs ! j = Some x \<longrightarrow> key y < key x)))"

text \<open>What the selection relies on: the comparison is by a key, and less is better.\<close>

locale priority =
  fixes cmp :: "'c \<Rightarrow> 'c \<Rightarrow> int" and key :: "'c \<Rightarrow> 'k::linorder"
  assumes cmp_pos: "0 < cmp x y \<longleftrightarrow> key x < key y"
begin

lemma best_None: "best_slot key cs n sel \<Longrightarrow> cs ! n = None \<Longrightarrow> best_slot key cs (Suc n) sel"
  by (auto simp: best_slot_def less_Suc_eq)

lemma best_first: "best_slot key cs n (- 1) \<Longrightarrow> cs ! n = Some x \<Longrightarrow> best_slot key cs (Suc n) (int n)"
  by (auto simp: best_slot_def less_Suc_eq)

lemma best_keep:
  "best_slot key cs n sel \<Longrightarrow> 0 \<le> sel \<Longrightarrow> cs ! nat sel = Some y \<Longrightarrow> cs ! n = Some x \<Longrightarrow> \<not> key x < key y \<Longrightarrow>
   best_slot key cs (Suc n) sel"
  by (auto simp: best_slot_def less_Suc_eq)

lemma best_better:
  assumes "best_slot key cs n sel" "0 \<le> sel" "cs ! nat sel = Some y" "cs ! n = Some x" "key x < key y"
  shows "best_slot key cs (Suc n) (int n)"
proof -
  have "\<forall>j<n. \<forall>z. cs ! j = Some z \<longrightarrow> key x < key z"
    using assms unfolding best_slot_def by (metis less_le_trans neg_0_le_iff_le not_one_le_zero option.inject)
  with assms(4) show ?thesis by (auto simp: best_slot_def less_Suc_eq less_imp_le)
qed

lemma best_sel: "best_slot key cs n sel \<Longrightarrow> sel \<noteq> - 1 \<Longrightarrow> 0 \<le> sel \<and> (\<exists>y. cs ! nat sel = Some y)"
  by (auto simp: best_slot_def)

lemma select_loop_best:
  "best_slot key cs i sel \<Longrightarrow> rest = drop i cs \<Longrightarrow> i \<le> length cs \<Longrightarrow> best_slot key cs (length cs) (select_loop cmp cs i rest sel)"
proof (induction rest arbitrary: i sel)
  case Nil
  then show ?case by simp
next
  case (Cons c rest)
  have i: "i < length cs" using Cons.prems(2) by (metis drop_all list.distinct(1) not_le)
  have c: "cs ! i = c" "rest = drop (Suc i) cs"
    using Cons.prems(2) i by (simp_all add: Cons_nth_drop_Suc [symmetric])
  let ?sel = "case c of None \<Rightarrow> sel | Some x \<Rightarrow> if sel = - 1 then int i
      else (case cs ! nat sel of Some y \<Rightarrow> if 0 < cmp x y then int i else sel | None \<Rightarrow> sel)"
  have "best_slot key cs (Suc i) ?sel"
  proof (cases c)
    case None
    with Cons.prems(1) c show ?thesis by (simp add: best_None)
  next
    case (Some x)
    show ?thesis
    proof (cases "sel = - 1")
      case True
      with Some Cons.prems(1) c show ?thesis by (simp add: best_first)
    next
      case False
      with best_sel [OF Cons.prems(1)] obtain y where y: "0 \<le> sel" "cs ! nat sel = Some y" by blast
      with False Some Cons.prems(1) c show ?thesis
        using best_keep [of cs i sel y x] best_better [of cs i sel y x] by (simp add: cmp_pos)
    qed
  qed
  from Cons.IH [OF this c(2)] i show ?case by simp
qed

lemma select_best: "best_slot key cs (length cs) (select_loop cmp cs 0 cs (- 1))"
  by (rule select_loop_best) (simp_all add: best_slot_def)

end

lemma ComparePriority_load: "0 < ComparePriority c d \<longleftrightarrow> load c < load d"
  by (auto simp: ComparePriority_def load_def Let_def)

lemma ComparePriority_antisym: "ComparePriority d c = - ComparePriority c d"
  by (auto simp: ComparePriority_def Let_def)

interpretation conn_priority: priority
  "\<lambda>x y. ComparePriority (the (conn_store m x)) (the (conn_store m y))"
  "\<lambda>x. load (the (conn_store m x))" for m
  by unfold_locales (rule ComparePriority_load)

subsection \<open>Slots\<close>

lemma first_empty_Some: "first_empty cs = Some i \<Longrightarrow> i < length cs \<and> cs ! i = None \<and> (\<forall>j<i. cs ! j \<noteq> None)"
proof (induction cs arbitrary: i)
  case (Cons c cs)
  show ?case
  proof (cases "c = None")
    case False
    with Cons.prems obtain k where k: "first_empty cs = Some k" "i = Suc k" by auto
    with Cons.IH [OF k(1)] False show ?thesis by (auto simp: less_Suc_eq_0_disj)
  qed (use Cons.prems in simp)
qed simp

lemma first_empty_None: "first_empty cs = None \<longleftrightarrow> None \<notin> set cs"
  by (induction cs) auto

lemma put_conn_spec:
  assumes "put_conn x cs = (i, cs')"
  shows "i < length cs' \<and> cs' ! i = Some x \<and> (i < length cs \<longrightarrow> cs ! i = None) \<and>
    (\<forall>j<length cs. j \<noteq> i \<longrightarrow> cs' ! j = cs ! j) \<and> (\<forall>j<i. cs' ! j \<noteq> None) \<and> length cs \<le> length cs' \<and>
    length cs' \<le> max (length cs) (i + 1)"
proof (cases "first_empty cs")
  case None
  then have "None \<notin> set cs" by (simp add: first_empty_None)
  then have "\<forall>j<length cs. cs ! j \<noteq> None" by (metis nth_mem)
  with None assms show ?thesis by (auto simp: put_conn_def nth_append)
next
  case (Some k)
  with assms first_empty_Some [OF Some] show ?thesis by (auto simp: put_conn_def)
qed

lemma remove_loop_matched:
  "Some x \<notin> set cs \<Longrightarrow> remove_loop x True ae cs = (cs, ae \<and> (\<forall>c\<in>set cs. c = None))"
  by (induction cs arbitrary: ae) (auto split: prod.splits)

lemma remove_loop_spec:
  "distinct (filter (\<lambda>c. c \<noteq> None) cs) \<Longrightarrow>
   remove_loop x False ae cs = (map (\<lambda>c. if c = Some x then None else c) cs,
     ae \<and> (\<forall>c\<in>set cs. c = None \<or> c = Some x))"
proof (induction cs arbitrary: ae)
  case (Cons c cs)
  show ?case
  proof (cases "c = Some x")
    case True
    then have "Some x \<notin> set cs" using Cons.prems by auto
    then have "map (\<lambda>c. if c = Some x then None else c) cs = cs"
      by (intro map_idI) auto
    with True \<open>Some x \<notin> set cs\<close> show ?thesis by (auto simp: remove_loop_matched)
  next
    case False
    with Cons.IH [of ae] Cons.IH [of False] Cons.prems show ?thesis by (auto split: if_splits)
  qed
qed simp

subsection \<open>The manager's tables\<close>

definition session_conns :: "nat \<Rightarrow> ('r, 's) MuxConnManager \<Rightarrow> nat option list" where
  "session_conns sr m = conns (the (sess_store m sr))"

text \<open>
  A registered session exists, has its own place, holds no connection twice and is not empty.
\<close>

definition manager_inv :: "('r, 's) MuxConnManager \<Rightarrow> bool" where
  "manager_inv m \<longleftrightarrow>
     (\<forall>u c t sr. find_session u c t m = Some sr \<longrightarrow>
        sr < next_sess m \<and> sess_store m sr \<noteq> None \<and>
        distinct (filter (\<lambda>c. c \<noteq> None) (session_conns sr m)) \<and> (\<exists>c\<in>set (session_conns sr m). c \<noteq> None)) \<and>
     (\<forall>u c t u' c' t' sr. find_session u c t m = Some sr \<longrightarrow> find_session u' c' t' m = Some sr \<longrightarrow>
        u = u' \<and> c = c' \<and> t = t')"

text \<open>What a server does: it adds a connection once its peer has authenticated, and removes it.\<close>

inductive manager_reachable :: "('r, 's) MuxConnManager \<Rightarrow> bool" where
  init: "manager_reachable (MuxConnManager_init cs)"
| add: "manager_reachable m \<Longrightarrow> (\<forall>sr s. sess_store m sr = Some s \<longrightarrow> Some conn \<notin> set (conns s)) \<Longrightarrow>
    manager_reachable (snd (snd (MuxConnManager_Add user cid conn m)))"
| remove: "manager_reachable m \<Longrightarrow> manager_reachable (MuxConnManager_Remove user cid conn m)"
| conn: "manager_reachable m \<Longrightarrow> manager_reachable (m\<lparr>conn_store := cs\<rparr>)"

lemma find_session_GetUser [simp]: "find_session u c t (GetUserMuxConn user m) = find_session u c t m"
  by (auto simp: find_session_def GetUserMuxConn_def split: option.splits)

lemma GetUser_simps [simp]:
  "sess_store (GetUserMuxConn user m) = sess_store m" "next_sess (GetUserMuxConn user m) = next_sess m"
  "conn_store (GetUserMuxConn user m) = conn_store m" "mux_conns (GetUserMuxConn user m) user \<noteq> None"
  by (auto simp: GetUserMuxConn_def split: option.splits)

lemma find_session_the:
  "map_of (the (mux_conns (GetUserMuxConn user m) user) ty) cid = find_session user cid ty m"
  by (auto simp: find_session_def GetUserMuxConn_def split: option.splits)

lemma find_session_put:
  assumes "mux_conns m user = Some tabs" "mux_conns m' = (mux_conns m)(user \<mapsto> tabs(ty := al))"
    and "map_of al = (map_of (tabs ty))(cid := v)"
  shows "find_session u c t m' = (if u = user \<and> c = cid \<and> t = ty then v else find_session u c t m)"
  using assms by (auto simp: find_session_def split: option.splits)

text \<open>\<open>GetSession\<close> finds the session or registers a new, empty one.\<close>

lemma GetSession_found:
  "find_session user cid ty m = Some sr \<Longrightarrow> GetSession user cid ty m = (sr, GetUserMuxConn user m)"
  by (simp add: GetSession_def Let_def find_session_the)

lemma GetSession_new:
  assumes "find_session user cid ty m = None" "GetSession user cid ty m = (sr, m1)"
  shows "sr = next_sess m" "next_sess m1 = next_sess m + 1"
    "sess_store m1 = (sess_store m)(sr \<mapsto> \<lparr>conns = [], tunnel_servers = []\<rparr>)"
    "find_session u c t m1 = (if u = user \<and> c = cid \<and> t = ty then Some sr else find_session u c t m)"
    "conn_store m1 = conn_store m"
proof -
  show "sr = next_sess m" "next_sess m1 = next_sess m + 1"
    "sess_store m1 = (sess_store m)(sr \<mapsto> \<lparr>conns = [], tunnel_servers = []\<rparr>)" "conn_store m1 = conn_store m"
    using assms by (auto simp: GetSession_def Let_def find_session_the)
  show "find_session u c t m1 = (if u = user \<and> c = cid \<and> t = ty then Some sr else find_session u c t m)"
  proof -
    obtain tabs where tabs: "mux_conns (GetUserMuxConn user m) user = Some tabs"
      using GetUser_simps(4) by blast
    have "mux_conns m1 = (mux_conns (GetUserMuxConn user m))(user \<mapsto> tabs(ty := AList.update cid sr (tabs ty)))"
      using assms tabs find_session_the [of user m ty cid] by (auto simp: GetSession_def Let_def)
    from find_session_put [OF tabs this, of cid "Some sr"] show ?thesis by (simp add: update_conv')
  qed
qed

text \<open>\<open>Add\<close>: the session is registered, and only its slots change.\<close>

lemma Add_spec:
  assumes "manager_inv m" "MuxConnManager_Add user cid conn m = (sr, idx, m')"
    and ty: "ty = conn_type (the (conn_store m conn))"
    and old: "old = (case find_session user cid ty m of Some r \<Rightarrow> session_conns r m | None \<Rightarrow> [])"
  shows "put_conn conn old = (idx, session_conns sr m')"
    "find_session u c t m' = (if u = user \<and> c = cid \<and> t = ty then Some sr else find_session u c t m)"
    "r \<noteq> sr \<Longrightarrow> sess_store m' r = sess_store m r" "sess_store m' sr \<noteq> None" "next_sess m \<le> next_sess m'"
    "sr < next_sess m'" "find_session user cid ty m = None \<Longrightarrow> sr = next_sess m" "conn_store m' = conn_store m"
proof -
  obtain sr1 m1 where g: "GetSession user cid ty m = (sr1, m1)" by fastforce
  obtain i cs where p: "put_conn conn (session_conns sr1 m1) = (i, cs)" by fastforce
  from assms(2) g p have r: "sr = sr1" "idx = i"
      "m' = m1\<lparr>sess_store := (sess_store m1)(sr1 \<mapsto> (the (sess_store m1 sr1))\<lparr>conns := cs\<rparr>)\<rparr>"
    unfolding MuxConnManager_Add_def ty [symmetric] session_conns_def by (auto simp: Let_def)
  have fs: "find_session u c t m' = find_session u c t m1" for u c t by (simp add: r find_session_def)
  have "session_conns sr m' = cs" by (simp add: r session_conns_def)
  moreover have "session_conns sr1 m1 = old"
    using GetSession_found [of user cid ty m] GetSession_new(1,3) [of user cid ty m sr1 m1] g old
    by (cases "find_session user cid ty m") (auto simp: session_conns_def)
  ultimately show "put_conn conn old = (idx, session_conns sr m')" using p r by simp
  show "find_session u c t m' = (if u = user \<and> c = cid \<and> t = ty then Some sr else find_session u c t m)"
    using GetSession_found [of user cid ty m] GetSession_new(4) [of user cid ty m sr1 m1 u c t] g fs r(1)
    by (cases "find_session user cid ty m") auto
  show "r \<noteq> sr \<Longrightarrow> sess_store m' r = sess_store m r"
    using GetSession_found [of user cid ty m] GetSession_new(3) [of user cid ty m sr1 m1] g r
    by (cases "find_session user cid ty m") auto
  show "sess_store m' sr \<noteq> None" by (simp add: r)
  show "next_sess m \<le> next_sess m'" "sr < next_sess m'" "conn_store m' = conn_store m"
    using GetSession_found [of user cid ty m] GetSession_new(1,2,5) [of user cid ty m sr1 m1] g r assms(1)
    by (cases "find_session user cid ty m"; auto simp: manager_inv_def)+
  show "find_session user cid ty m = None \<Longrightarrow> sr = next_sess m"
    using GetSession_new(1) [of user cid ty m sr1 m1] g r by simp
qed

text \<open>\<open>Remove\<close>: the slot is cleared, and the session goes when nothing is left in it.\<close>

definition clear_slot :: "nat \<Rightarrow> nat option list \<Rightarrow> nat option list" where
  "clear_slot x cs = map (\<lambda>c. if c = Some x then None else c) cs"

lemma Remove_absent:
  "find_session user cid (conn_type (the (conn_store m conn))) m = None \<Longrightarrow>
   MuxConnManager_Remove user cid conn m = m"
  by (auto simp: MuxConnManager_Remove_def find_session_def Let_def split: option.splits)

lemma Remove_spec:
  assumes inv: "manager_inv m" and ty: "ty = conn_type (the (conn_store m conn))"
    and fs: "find_session user cid ty m = Some sr" and m': "m' = MuxConnManager_Remove user cid conn m"
  shows "session_conns sr m' = clear_slot conn (session_conns sr m)"
    "r \<noteq> sr \<Longrightarrow> sess_store m' r = sess_store m r" "sess_store m' sr \<noteq> None" "next_sess m' = next_sess m"
    "find_session u c t m' =
      (if u = user \<and> c = cid \<and> t = ty \<and> (\<forall>c\<in>set (session_conns sr m'). c = None) then None else find_session u c t m)"
proof -
  obtain tabs where tabs: "mux_conns m user = Some tabs" "map_of (tabs ty) cid = Some sr"
    using fs by (auto simp: find_session_def split: option.splits)
  have "distinct (filter (\<lambda>c. c \<noteq> None) (session_conns sr m))" using inv fs by (simp add: manager_inv_def)
  note loop = remove_loop_spec [OF this, of conn True]
  let ?cs = "clear_slot conn (session_conns sr m)"
  let ?ae = "\<forall>c\<in>set (session_conns sr m). c = None \<or> c = Some conn"
  let ?m1 = "m\<lparr>sess_store := (sess_store m)(sr \<mapsto> (the (sess_store m sr))\<lparr>conns := ?cs\<rparr>)\<rparr>"
  have eq: "m' = (if ?ae then ?m1\<lparr>mux_conns := (mux_conns m)(user \<mapsto> tabs(ty := AList.delete cid (tabs ty)))\<rparr> else ?m1)"
    using tabs loop unfolding m' MuxConnManager_Remove_def ty [symmetric] clear_slot_def session_conns_def
    by (auto simp: Let_def)
  show cs: "session_conns sr m' = ?cs" by (simp add: eq session_conns_def)
  show "r \<noteq> sr \<Longrightarrow> sess_store m' r = sess_store m r" "sess_store m' sr \<noteq> None" "next_sess m' = next_sess m"
    by (simp_all add: eq)
  have ae: "(\<forall>c\<in>set ?cs. c = None) \<longleftrightarrow> ?ae" by (auto simp: clear_slot_def)
  show "find_session u c t m' =
      (if u = user \<and> c = cid \<and> t = ty \<and> (\<forall>c\<in>set (session_conns sr m'). c = None) then None else find_session u c t m)"
  proof (cases ?ae)
    case True
    then have "mux_conns m' = (mux_conns m)(user \<mapsto> tabs(ty := AList.delete cid (tabs ty)))" by (simp add: eq)
    from find_session_put [OF tabs(1) this, of cid None] True ae cs show ?thesis by (simp add: delete_conv')
  next
    case False
    then have "mux_conns m' = mux_conns m" by (subst eq) (simp only: if_False, simp)
    moreover have "\<not> (\<forall>c\<in>set (session_conns sr m'). c = None)" using False ae cs by simp
    ultimately show ?thesis by (simp only: find_session_def) simp
  qed
qed

lemma distinct_clear_slot:
  "distinct (filter (\<lambda>c. c \<noteq> None) cs) \<Longrightarrow> distinct (filter (\<lambda>c. c \<noteq> None) (clear_slot x cs))"
  by (induction cs) (auto simp: clear_slot_def)

lemma filter_put_conn:
  assumes "put_conn x cs = (i, cs')" "distinct (filter (\<lambda>c. c \<noteq> None) cs)" "Some x \<notin> set cs"
  shows "distinct (filter (\<lambda>c. c \<noteq> None) cs')"
proof (cases "first_empty cs")
  case None
  with assms show ?thesis by (auto simp: put_conn_def)
next
  case (Some k)
  then have k: "k < length cs" "cs ! k = None" using first_empty_Some by blast+
  let ?f = "filter (\<lambda>c. c \<noteq> None)"
  have "?f cs = ?f (take k cs) @ ?f (drop (Suc k) cs)"
    using arg_cong [OF id_take_nth_drop [OF k(1)], of ?f] k(2) by simp
  moreover have "?f (cs[k := Some x]) = ?f (take k cs) @ Some x # ?f (drop (Suc k) cs)"
    by (simp add: upd_conv_take_nth_drop [OF k(1)])
  moreover have "Some x \<notin> set (?f (take k cs))" "Some x \<notin> set (?f (drop (Suc k) cs))"
    using assms(3) by (auto dest: in_set_takeD in_set_dropD)
  moreover have "cs' = cs[k := Some x]" using assms(1) Some by (auto simp: put_conn_def)
  ultimately show ?thesis using assms(2) by simp
qed

lemma manager_inv_Add:
  assumes inv: "manager_inv m" and fresh: "\<forall>sr s. sess_store m sr = Some s \<longrightarrow> Some conn \<notin> set (conns s)"
    and add: "MuxConnManager_Add user cid conn m = (sr, idx, m')"
  shows "manager_inv m'"
proof -
  define ty where "ty = conn_type (the (conn_store m conn))"
  define old where "old = (case find_session user cid ty m of Some r \<Rightarrow> session_conns r m | None \<Rightarrow> [])"
  note spec = Add_spec [OF inv add ty_def old_def]
  have "distinct (filter (\<lambda>c. c \<noteq> None) old)" "Some conn \<notin> set old"
    using inv fresh by (auto simp: old_def manager_inv_def session_conns_def split: option.splits)
  then have d: "distinct (filter (\<lambda>c. c \<noteq> None) (session_conns sr m'))"
    using filter_put_conn [OF spec(1)] by blast
  have some: "\<exists>c\<in>set (session_conns sr m'). c \<noteq> None"
    using put_conn_spec [OF spec(1)] by (metis nth_mem option.distinct(1))
  have other: "session_conns r m' = session_conns r m" if "r \<noteq> sr" for r
    using spec(3) [OF that] by (simp add: session_conns_def)
  have own: "find_session u c t m \<noteq> Some sr" if "\<not> (u = user \<and> c = cid \<and> t = ty)" for u c t
  proof (cases "find_session user cid ty m")
    case None
    then have "sr = next_sess m" by (rule spec(7))
    then show ?thesis using inv by (auto simp: manager_inv_def)
  next
    case (Some r)
    have "sr = r" using Some add GetSession_found [OF Some]
      by (auto simp: MuxConnManager_Add_def ty_def [symmetric] Let_def split: prod.splits)
    then show ?thesis using inv Some that unfolding manager_inv_def by blast
  qed
  have old_ok: "r < next_sess m \<and> sess_store m r \<noteq> None \<and> distinct (filter (\<lambda>c. c \<noteq> None) (session_conns r m)) \<and>
      (\<exists>c\<in>set (session_conns r m). c \<noteq> None)" if "find_session u c t m = Some r" for u c t r
    using inv that unfolding manager_inv_def by blast
  have inj: "u = u' \<and> c = c' \<and> t = t'" if "find_session u c t m = Some r" "find_session u' c' t' m = Some r" for u c t u' c' t' r
    using inv that unfolding manager_inv_def by blast
  show ?thesis unfolding manager_inv_def
  proof (intro conjI allI impI)
    fix u c t r
    assume f: "find_session u c t m' = Some r"
    show "r < next_sess m'" "sess_store m' r \<noteq> None" "distinct (filter (\<lambda>c. c \<noteq> None) (session_conns r m'))"
      "\<exists>c\<in>set (session_conns r m'). c \<noteq> None"
      using f spec(2) [of u c t] spec(3) [of r] spec(4-6) d some other [of r] own [of u c t] old_ok [of u c t r]
      by (cases "r = sr"; force split: if_splits)+
  next
    fix u c t u' c' t' r
    assume f: "find_session u c t m' = Some r" "find_session u' c' t' m' = Some r"
    then show "u = u'" "c = c'" "t = t'"
      using spec(2) [of u c t] spec(2) [of u' c' t'] own [of u c t] own [of u' c' t'] inj [of u c t r u' c' t']
      by (auto split: if_splits)
  qed
qed

lemma manager_inv_Remove:
  assumes inv: "manager_inv m"
  shows "manager_inv (MuxConnManager_Remove user cid conn m)"
proof (cases "find_session user cid (conn_type (the (conn_store m conn))) m")
  case None
  with inv show ?thesis by (simp add: Remove_absent)
next
  case (Some sr)
  let ?m' = "MuxConnManager_Remove user cid conn m"
  note spec = Remove_spec [OF inv refl Some refl]
  have old_ok: "r < next_sess m \<and> sess_store m r \<noteq> None \<and> distinct (filter (\<lambda>c. c \<noteq> None) (session_conns r m)) \<and>
      (\<exists>c\<in>set (session_conns r m). c \<noteq> None)" if "find_session u c t m = Some r" for u c t r
    using inv that unfolding manager_inv_def by blast
  have inj: "u = u' \<and> c = c' \<and> t = t'" if "find_session u c t m = Some r" "find_session u' c' t' m = Some r" for u c t u' c' t' r
    using inv that unfolding manager_inv_def by blast
  have other: "session_conns r ?m' = session_conns r m" if "r \<noteq> sr" for r
    using spec(2) [OF that] by (simp add: session_conns_def)
  have keep: "find_session u c t m = Some r" if "find_session u c t ?m' = Some r" for u c t r
    using that spec(5) [of u c t] by (auto split: if_splits)
  show ?thesis unfolding manager_inv_def
  proof (intro conjI allI impI)
    fix u c t r
    assume f: "find_session u c t ?m' = Some r"
    note old = old_ok [OF keep [OF f]]
    show "r < next_sess ?m'" "sess_store ?m' r \<noteq> None" "distinct (filter (\<lambda>c. c \<noteq> None) (session_conns r ?m'))"
      using old spec(1,2,3,4) other [of r] distinct_clear_slot by (cases "r = sr"; simp)+
    show "\<exists>c\<in>set (session_conns r ?m'). c \<noteq> None"
    proof (cases "r = sr")
      case True
      then have "u = user \<and> c = cid \<and> t = conn_type (the (conn_store m conn))"
        using inj [OF keep [OF f]] Some by blast
      with f True spec(5) [of u c t] show ?thesis by (auto split: if_splits)
    next
      case False
      with old other show ?thesis by simp
    qed
  next
    fix u c t u' c' t' r
    assume f: "find_session u c t ?m' = Some r" "find_session u' c' t' ?m' = Some r"
    from inj [OF keep [OF f(1)] keep [OF f(2)]] show "u = u'" "c = c'" "t = t'" by auto
  qed
qed

lemma manager_reachable_inv: "manager_reachable m \<Longrightarrow> manager_inv m"
proof (induction rule: manager_reachable.induct)
  case (init cs)
  show ?case by (simp add: manager_inv_def MuxConnManager_init_def find_session_def)
next
  case (add m conn user cid)
  obtain sr idx m' where "MuxConnManager_Add user cid conn m = (sr, idx, m')" by (metis prod_cases3)
  with manager_inv_Add [OF add.IH add.hyps(2)] show ?case by simp
next
  case (remove m user cid conn)
  show ?case by (rule manager_inv_Remove [OF remove.IH])
next
  case (conn m cs)
  then show ?case by (simp add: manager_inv_def find_session_def session_conns_def)
qed

subsection \<open>The writers of a session as an event sink\<close>

text \<open>
  What a stream gets from \<^verbatim>\<open>GetEventWriterFactory\<close>.  The second component of the world is a
  history variable: the events whose \<open>Write\<close> reported success.
\<close>

definition session_ops ::
  "('r, MuxEvent) encoder \<Rightarrow> 's writer \<Rightarrow> ('s \<Rightarrow> u64) \<Rightarrow> nat \<Rightarrow>
     (nat \<times> nat, ('r, 's) MuxConnManager \<times> MuxEvent list) writer_ops" where
  "session_ops enc wr tm sr = \<lparr>
     make_writer = (\<lambda>(m, h). session_writer sr m),
     run_writer = (\<lambda>k ev (m, h). case session_write enc wr tm k ev m of
        (ok, m') \<Rightarrow> (ok, m', if ok then h @ [ev] else h))\<rparr>"

interpretation session_sink: event_sink "session_ops enc wr tm sr" snd for enc wr tm sr
  by unfold_locales (auto simp: session_ops_def split: prod.splits)

lemma session_writer_slot:
  "session_writer sr m = Some k \<Longrightarrow> \<exists>i x. k = (sr, i) \<and> i < length (session_conns sr m) \<and> session_conns sr m ! i = Some x"
  "session_writer sr m = None \<Longrightarrow> \<forall>c\<in>set (session_conns sr m). c = None"
proof -
  let ?cs = "session_conns sr m"
  have "best_slot (\<lambda>x. load (the (conn_store m x))) ?cs (length ?cs) (select_conn m ?cs)"
    unfolding select_conn_def by (rule conn_priority.select_best)
  then show "session_writer sr m = Some k \<Longrightarrow> \<exists>i x. k = (sr, i) \<and> i < length ?cs \<and> ?cs ! i = Some x"
    "session_writer sr m = None \<Longrightarrow> \<forall>c\<in>set ?cs. c = None"
    by (auto simp: best_slot_def session_writer_def session_conns_def Let_def in_set_conv_nth split: if_splits)
qed

lemma session_writer_of_reachable:
  assumes "manager_inv m" "find_session u c t m = Some sr"
  shows "\<exists>i x. session_writer sr m = Some (sr, i) \<and> i < length (session_conns sr m) \<and> session_conns sr m ! i = Some x"
proof -
  have "\<exists>c\<in>set (session_conns sr m). c \<noteq> None" using assms by (simp add: manager_inv_def)
  then show ?thesis using session_writer_slot [of sr m] by (cases "session_writer sr m") auto
qed

lemma session_ops_run:
  assumes "i < length (session_conns sr m)" "session_conns sr m ! i = Some x" "conn_store m x = Some c"
    and "MuxConnection_Write enc wr tm c ev = (True, c')"
  shows "run_writer (session_ops enc wr tm sr) (sr, i) ev (m, h) = (True, m\<lparr>conn_store := (conn_store m)(x \<mapsto> c')\<rparr>, h @ [ev])"
  using assms by (simp add: session_ops_def session_write_def session_conns_def Let_def)

subsection \<open>Properties\<close>

text \<open>C25: the selected connection is the least loaded one.  The factory's loop returns no index
  exactly when all slots are empty; otherwise the index of a connection than which no other in the
  session has a higher priority (fewer waiting writers, then not locked, then fewer bytes sent in the
  window), the first of several equally good ones.\<close>

theorem select_conn_least_loaded:
  "(select_conn m cs = - 1 \<longleftrightarrow> (\<forall>c\<in>set cs. c = None)) \<and>
   (select_conn m cs \<noteq> - 1 \<longrightarrow>
     (\<exists>y. 0 \<le> select_conn m cs \<and> nat (select_conn m cs) < length cs \<and> cs ! nat (select_conn m cs) = Some y \<and>
       (\<forall>x. Some x \<in> set cs \<longrightarrow> ComparePriority (the (conn_store m x)) (the (conn_store m y)) \<le> 0) \<and>
       (\<forall>j<nat (select_conn m cs). \<forall>x. cs ! j = Some x \<longrightarrow>
          ComparePriority (the (conn_store m y)) (the (conn_store m x)) = 1)))"
proof -
  have best: "best_slot (\<lambda>x. load (the (conn_store m x))) cs (length cs) (select_conn m cs)"
    unfolding select_conn_def by (rule conn_priority.select_best)
  have pos: "0 < ComparePriority c d \<Longrightarrow> ComparePriority c d = 1" for c d :: "('a, 'b) MuxConnection"
    by (auto simp: ComparePriority_def Let_def split: if_splits)
  have le: "load d \<le> load c \<Longrightarrow> ComparePriority c d \<le> 0" for c d :: "('a, 'b) MuxConnection"
    using ComparePriority_load [of c d] by (meson not_le)
  from best show ?thesis unfolding best_slot_def
  proof (elim disjE conjE exE)
    assume "select_conn m cs = - 1" "\<forall>j<length cs. cs ! j = None"
    then show ?thesis by (auto simp: in_set_conv_nth)
  next
    fix y
    assume y: "0 \<le> select_conn m cs" "nat (select_conn m cs) < length cs" "cs ! nat (select_conn m cs) = Some y"
      and min: "\<forall>j<length cs. \<forall>x. cs ! j = Some x \<longrightarrow> load (the (conn_store m y)) \<le> load (the (conn_store m x))"
      and first: "\<forall>j<nat (select_conn m cs). \<forall>x. cs ! j = Some x \<longrightarrow> load (the (conn_store m y)) < load (the (conn_store m x))"
    have "Some y \<in> set cs" using y by (metis nth_mem)
    then have "\<not> (\<forall>c\<in>set cs. c = None)" by auto
    with y min first show ?thesis by (auto simp: in_set_conv_nth le pos ComparePriority_load)
  qed
qed

definition idle_conn :: "MuxConnectionType \<Rightarrow> u32 \<Rightarrow> (unit, unit) MuxConnection" where
  "idle_conn ty n = (MuxConnection_new ty () () False 0 0 0)\<lparr>latest_window_send_bytes := [n]\<rparr>"

definition sample_manager :: "(unit, unit) MuxConnManager" where
  "sample_manager = MuxConnManager_init
     (Map.empty(0 \<mapsto> idle_conn MUX_ENTRY_CONN 9, 1 \<mapsto> idle_conn MUX_ENTRY_CONN 4, 2 \<mapsto> idle_conn MUX_ENTRY_CONN 4))"

theorem select_conn_least_loaded_witness:
  "select_conn sample_manager [None, Some 0, Some 1, Some 2] = 2 \<and>
   ComparePriority (the (conn_store sample_manager 0)) (the (conn_store sample_manager 1)) \<le> 0"
proof -
  have "select_conn sample_manager [None, Some 0, Some 1, Some 2] = 2"
    by (simp add: select_conn_def sample_manager_def MuxConnManager_init_def ComparePriority_def Let_def idle_conn_def
        MuxConnection_new_def AsyncChannelMutex_init_def GetLatestWindowSendBytes_def)
  with select_conn_least_loaded [of sample_manager "[None, Some 0, Some 1, Some 2]"] show ?thesis by auto
qed

text \<open>Adding a connection.  \<open>Add\<close> puts the connection into the first empty slot of the session of
  this user, client and connection type, or behind the last slot, and reports that index; the
  session is registered from then on; no other slot of it and no other session changes.\<close>

theorem add_connection:
  assumes "manager_reachable m" "MuxConnManager_Add user cid conn m = (sr, idx, m')"
    and "ty = conn_type (the (conn_store m conn))"
    and "old = (case find_session user cid ty m of Some r \<Rightarrow> session_conns r m | None \<Rightarrow> [])"
  shows "find_session user cid ty m' = Some sr \<and>
    idx < length (session_conns sr m') \<and> session_conns sr m' ! idx = Some conn \<and>
    (idx < length old \<longrightarrow> old ! idx = None) \<and> (\<forall>j<idx. session_conns sr m' ! j \<noteq> None) \<and>
    (\<forall>j<length old. j \<noteq> idx \<longrightarrow> session_conns sr m' ! j = old ! j) \<and>
    (\<forall>u c t r. (u, c, t) \<noteq> (user, cid, ty) \<longrightarrow> find_session u c t m = Some r \<longrightarrow>
       find_session u c t m' = Some r \<and> (r \<noteq> sr \<longrightarrow> session_conns r m' = session_conns r m))"
proof -
  note spec = Add_spec [OF manager_reachable_inv [OF assms(1)] assms(2-4)]
  have "session_conns r m' = session_conns r m" if "r \<noteq> sr" for r
    using spec(3) [OF that] by (simp add: session_conns_def)
  with put_conn_spec [OF spec(1)] spec(2) show ?thesis by auto
qed

lemma sample_manager_reachable: "manager_reachable sample_manager"
  unfolding sample_manager_def by (rule manager_reachable.init)

lemma sample_add:
  "MuxConnManager_Add [117] 5 0 sample_manager = (0, 0, m') \<Longrightarrow> session_conns 0 m' = [Some 0]"
  by (auto simp: MuxConnManager_Add_def GetSession_def GetUserMuxConn_def sample_manager_def MuxConnManager_init_def
      put_conn_def Let_def session_conns_def)

lemma sample_add_eq: "\<exists>m'. MuxConnManager_Add [117] 5 0 sample_manager = (0, 0, m')"
  by (simp add: MuxConnManager_Add_def GetSession_def GetUserMuxConn_def sample_manager_def MuxConnManager_init_def
      put_conn_def Let_def)

theorem add_connection_witness:
  "\<exists>m'. MuxConnManager_Add [117] 5 0 sample_manager = (0, 0, m') \<and>
     find_session [117] 5 MUX_ENTRY_CONN m' = Some 0 \<and> session_conns 0 m' ! 0 = Some 0"
proof -
  obtain m' where m: "MuxConnManager_Add [117] 5 0 sample_manager = (0, 0, m')" using sample_add_eq by blast
  have ty: "conn_type (the (conn_store sample_manager 0)) = MUX_ENTRY_CONN"
    by (simp add: sample_manager_def MuxConnManager_init_def idle_conn_def MuxConnection_new_def)
  from add_connection [OF sample_manager_reachable m refl refl] m show ?thesis by (auto simp: ty)
qed

text \<open>Removing a connection.  \<open>Remove\<close> empties the slot the connection is in and keeps every other
  slot; the session stays registered exactly if a connection is left in it; all other sessions stay
  as they are.\<close>

theorem remove_connection:
  assumes "manager_reachable m" "ty = conn_type (the (conn_store m conn))"
    and "find_session user cid ty m = Some sr" "m' = MuxConnManager_Remove user cid conn m"
  shows "session_conns sr m' = map (\<lambda>c. if c = Some conn then None else c) (session_conns sr m) \<and>
    (find_session user cid ty m' = (if \<forall>c\<in>set (session_conns sr m). c = None \<or> c = Some conn then None else Some sr)) \<and>
    (\<forall>u c t. (u, c, t) \<noteq> (user, cid, ty) \<longrightarrow> find_session u c t m' = find_session u c t m) \<and>
    (\<forall>r. r \<noteq> sr \<longrightarrow> session_conns r m' = session_conns r m)"
proof -
  note spec = Remove_spec [OF manager_reachable_inv [OF assms(1)] assms(2-4)]
  have cs: "session_conns sr m' = map (\<lambda>c. if c = Some conn then None else c) (session_conns sr m)"
    using spec(1) by (simp add: clear_slot_def)
  then have "(\<forall>c\<in>set (session_conns sr m'). c = None) \<longleftrightarrow> (\<forall>c\<in>set (session_conns sr m). c = None \<or> c = Some conn)"
    by auto
  with cs spec(2,5) assms(3) show ?thesis by (auto simp: session_conns_def)
qed

lemma sample_added_reachable: "MuxConnManager_Add [117] 5 0 sample_manager = (0, 0, m') \<Longrightarrow> manager_reachable m'"
  using manager_reachable.add [OF sample_manager_reachable, of 0 "[117]" 5]
  by (auto simp: session_conns_def sample_manager_def MuxConnManager_init_def)

theorem remove_connection_witness:
  "\<exists>m1. MuxConnManager_Add [117] 5 0 sample_manager = (0, 0, m1) \<and>
     find_session [117] 5 MUX_ENTRY_CONN (MuxConnManager_Remove [117] 5 0 m1) = None"
proof -
  obtain m1 where m: "MuxConnManager_Add [117] 5 0 sample_manager = (0, 0, m1)" using sample_add_eq by blast
  note spec = Add_spec [OF manager_reachable_inv [OF sample_manager_reachable] m refl refl]
  have ty: "MUX_ENTRY_CONN = conn_type (the (conn_store m1 0))" "conn_type (the (conn_store sample_manager 0)) = MUX_ENTRY_CONN"
    by (simp_all add: spec(8) sample_manager_def MuxConnManager_init_def idle_conn_def MuxConnection_new_def)
  have "find_session [117] 5 MUX_ENTRY_CONN m1 = Some 0" using spec(2) ty(2) by simp
  from remove_connection [OF sample_added_reachable [OF m] ty(1) this refl] m sample_add [OF m]
  show ?thesis by simp
qed

text \<open>A registered session always has a writer.  For every session a server has registered, the
  factory the manager returns makes a writer at once, bound to a slot with a live connection, and
  what that writer reports is what the connection's \<open>Write\<close> reports.\<close>

theorem registered_session_writes:
  assumes "manager_reachable m" "MuxConnManager_GetEventWriterFactory user cid ty m = Some sr"
  shows "\<exists>i x. session_writer sr m = Some (sr, i) \<and> session_conns sr m ! i = Some x \<and>
    fst (session_write enc wr tm (sr, i) ev m) = fst (MuxConnection_Write enc wr tm (the (conn_store m x)) ev)"
proof -
  have "find_session user cid ty m = Some sr"
    using assms(2) by (auto simp: MuxConnManager_GetEventWriterFactory_def find_session_def split: option.splits)
  from session_writer_of_reachable [OF manager_reachable_inv [OF assms(1)] this] obtain i x
    where "session_writer sr m = Some (sr, i)" "i < length (session_conns sr m)" "session_conns sr m ! i = Some x" by blast
  then show ?thesis by (auto simp: session_write_def session_conns_def Let_def split: prod.splits)
qed

theorem registered_session_writes_witness:
  "\<exists>m1 i x. MuxConnManager_Add [117] 5 0 sample_manager = (0, 0, m1) \<and>
     session_writer 0 m1 = Some (0, i) \<and> session_conns 0 m1 ! i = Some x"
proof -
  obtain m1 where m: "MuxConnManager_Add [117] 5 0 sample_manager = (0, 0, m1)" using sample_add_eq by blast
  note spec = Add_spec [OF manager_reachable_inv [OF sample_manager_reachable] m refl refl]
  have "find_session [117] 5 MUX_ENTRY_CONN m1 = Some 0"
    using spec(2) by (simp add: sample_manager_def MuxConnManager_init_def idle_conn_def MuxConnection_new_def)
  then have "MuxConnManager_GetEventWriterFactory [117] 5 MUX_ENTRY_CONN m1 = Some 0"
    by (auto simp: MuxConnManager_GetEventWriterFactory_def find_session_def split: option.splits)
  from registered_session_writes [OF sample_added_reachable [OF m] this] m show ?thesis by blast
qed

end
