(* ===== verification/Mux_Auth.thy ===== *)
theory Mux_Auth
  imports Mux_Connection
begin

text \<open>
  The handshakes of \<^verbatim>\<open>snova/mux/mux_connection.cc\<close>: \<open>ServerAuth\<close>, \<open>ClientAuth\<close> and \<open>OpenTunnel\<close>.
  \<open>ClientAuth\<close> and \<open>OpenTunnel\<close> write a request and then read the answer; each is the composition
  of the two stretches, so that the peer's part can be placed between them.  The random nonce of
  \<open>ServerAuth\<close> and the node's role flags are arguments.
\<close>

record node_flags =
  g_is_entry_node :: bool
  g_is_exit_node :: bool
  g_is_middle_node :: bool

type_synonym ('c, 's) cipher_conn = "('c CipherContext, 's) MuxConnection"

subsection \<open>The server side\<close>

definition invalid_role :: "node_flags \<Rightarrow> snova_AuthRequest \<Rightarrow> bool" where
  "invalid_role g m \<longleftrightarrow> (g_is_entry_node g \<and> ar_is_entry m) \<or> (g_is_exit_node g \<and> ar_is_exit m) \<or>
     (g_is_middle_node g \<and> ar_is_middle m)"

definition server_accept ::
  "'c aead \<Rightarrow> pb_lib \<Rightarrow> 's writer \<Rightarrow> ('s \<Rightarrow> u64) \<Rightarrow> u64 \<Rightarrow> snova_AuthRequest \<Rightarrow> ('c, 's) cipher_conn \<Rightarrow>
     (bytes \<times> u64 \<times> bool) \<times> ('c, 's) cipher_conn" where
  "server_accept A L wr tm iv m c =
     (let c1 = c\<lparr>conn_type := (if ar_is_entry m then MUX_ENTRY_CONN
                else if ar_is_exit m then MUX_EXIT_CONN else MUX_ENTRY_CONN)\<rparr>
      in case MuxConnection_Write (CipherContext_Encrypt A L) wr tm c1
                (make_event (AuthResponse \<lparr>as_success = True, as_iv = iv\<rparr>)) of
           (write_success, c2) \<Rightarrow>
             let c3 = (if write_success then c2\<lparr>cipher_ctx := UpdateNonce iv (cipher_ctx c2)\<rparr> else c2);
                 c4 = c3\<lparr>client_id := ar_client_id m, auth_user := ar_user m\<rparr>
             in ((auth_user c4, ar_client_id m, write_success), c4))"

definition ServerAuth ::
  "'c aead \<Rightarrow> pb_lib \<Rightarrow> 's reader \<Rightarrow> 's writer \<Rightarrow> ('s \<Rightarrow> u64) \<Rightarrow> node_flags \<Rightarrow> u64 \<Rightarrow> ('c, 's) cipher_conn \<Rightarrow>
     ((bytes \<times> u64 \<times> bool) \<times> ('c, 's) cipher_conn) option" where
  "ServerAuth A L rd wr tm g iv c =
     (if is_local c then Some (([], 0, False), c)
      else case ReadEvent (CipherContext_Decrypt A L) rd tm c of
        None \<Rightarrow> None
      | Some (rc, auth_req, c1) \<Rightarrow>
          if rc \<noteq> 0 then Some (([], 0, False), c1)
          else case map_option ev_body auth_req of
            Some (AuthRequest m) \<Rightarrow>
              if invalid_role g m then Some (([], 0, False), c1)
              else Some (server_accept A L wr tm iv m c1)
          | _ \<Rightarrow> Some (([], 0, False), c1))"

subsection \<open>The client side\<close>

definition auth_request :: "node_flags \<Rightarrow> bytes \<Rightarrow> u64 \<Rightarrow> MuxEvent" where
  "auth_request g user cid = make_event (AuthRequest (snova_AuthRequest_init_default\<lparr>
     ar_user := snprintf_s 256 user, ar_client_id := cid, ar_is_entry := g_is_entry_node g,
     ar_is_exit := g_is_exit_node g, ar_is_middle := g_is_middle_node g\<rparr>))"

definition ClientAuth_request ::
  "'c aead \<Rightarrow> pb_lib \<Rightarrow> 's writer \<Rightarrow> ('s \<Rightarrow> u64) \<Rightarrow> node_flags \<Rightarrow> bytes \<Rightarrow> u64 \<Rightarrow> ('c, 's) cipher_conn \<Rightarrow>
     bool \<times> ('c, 's) cipher_conn" where
  "ClientAuth_request A L wr tm g user cid c =
     (if \<not> is_local c then (False, c)
      else MuxConnection_Write (CipherContext_Encrypt A L) wr tm (c\<lparr>client_id := cid\<rparr>) (auth_request g user cid))"

definition ClientAuth_response ::
  "'c aead \<Rightarrow> pb_lib \<Rightarrow> 's reader \<Rightarrow> ('s \<Rightarrow> u64) \<Rightarrow> bytes \<Rightarrow> ('c, 's) cipher_conn \<Rightarrow>
     (bool \<times> ('c, 's) cipher_conn) option" where
  "ClientAuth_response A L rd tm user c =
     (case ReadEvent (CipherContext_Decrypt A L) rd tm c of
        None \<Rightarrow> None
      | Some (rc, auth_res, c1) \<Rightarrow>
          if rc \<noteq> 0 then Some (False, c1)
          else case map_option ev_body auth_res of
            Some (AuthResponse m) \<Rightarrow>
              let c2 = (if as_success m
                        then c1\<lparr>cipher_ctx := UpdateNonce (as_iv m) (cipher_ctx c1), is_authed := True\<rparr> else c1)
              in Some (as_success m, c2\<lparr>auth_user := user\<rparr>)
          | _ \<Rightarrow> Some (False, c1))"

definition ClientAuth ::
  "'c aead \<Rightarrow> pb_lib \<Rightarrow> 's reader \<Rightarrow> 's writer \<Rightarrow> ('s \<Rightarrow> u64) \<Rightarrow> node_flags \<Rightarrow> bytes \<Rightarrow> u64 \<Rightarrow>
     ('c, 's) cipher_conn \<Rightarrow> (bool \<times> ('c, 's) cipher_conn) option" where
  "ClientAuth A L rd wr tm g user cid c =
     (case ClientAuth_request A L wr tm g user cid c of (write_success, c1) \<Rightarrow>
        if \<not> write_success then Some (False, c1) else ClientAuth_response A L rd tm user c1)"

subsection \<open>Opening a tunnel\<close>

definition tunnel_request :: "u16 \<Rightarrow> bytes \<Rightarrow> u16 \<Rightarrow> bool \<Rightarrow> MuxEvent" where
  "tunnel_request remote_port local_host local_port tcp = make_event (TunnelOpenRequest
     \<lparr>to_local_host = snprintf_s 512 local_host, to_local_port = ucast local_port,
      to_remote_port = ucast remote_port, to_is_tcp = tcp\<rparr>)"

datatype 'a outcome = Returns 'a | NullDereference

text \<open>
  When the answer is an event of another type, the code logs \<^verbatim>\<open>tunnel_res_event->head.type\<close> with
  \<^verbatim>\<open>tunnel_res_event\<close> null.
\<close>

definition OpenTunnel_response ::
  "'c aead \<Rightarrow> pb_lib \<Rightarrow> 's reader \<Rightarrow> ('s \<Rightarrow> u64) \<Rightarrow> ('c, 's) cipher_conn \<Rightarrow>
     (bool outcome \<times> ('c, 's) cipher_conn) option" where
  "OpenTunnel_response A L rd tm c =
     (case ReadEvent (CipherContext_Decrypt A L) rd tm c of
        None \<Rightarrow> None
      | Some (rc, tunnel_res, c1) \<Rightarrow>
          if rc \<noteq> 0 then Some (Returns False, c1)
          else case map_option ev_body tunnel_res of
            Some (TunnelOpenResponse m) \<Rightarrow> Some (Returns (tr_success m), c1)
          | _ \<Rightarrow> Some (NullDereference, c1))"

definition OpenTunnel ::
  "'c aead \<Rightarrow> pb_lib \<Rightarrow> 's reader \<Rightarrow> 's writer \<Rightarrow> ('s \<Rightarrow> u64) \<Rightarrow> u16 \<Rightarrow> bytes \<Rightarrow> u16 \<Rightarrow> bool \<Rightarrow>
     ('c, 's) cipher_conn \<Rightarrow> (bool outcome \<times> ('c, 's) cipher_conn) option" where
  "OpenTunnel A L rd wr tm remote_port local_host local_port tcp c =
     (case MuxConnection_Write (CipherContext_Encrypt A L) wr tm c
             (tunnel_request remote_port local_host local_port tcp) of
        (write_success, c1) \<Rightarrow>
          if \<not> write_success then Some (Returns False, c1) else OpenTunnel_response A L rd tm c1)"

subsection \<open>A two-way wire\<close>

text \<open>What the peer's segments still hold, and what was written.\<close>

type_synonym wire = "bytes list \<times> bytes"

definition duplex_read :: "wire reader" where
  "duplex_read w k = (case script_read (fst w) k of (bs, ec, s') \<Rightarrow> (bs, ec, (s', snd w)))"

definition duplex_write :: "wire writer" where
  "duplex_write w bs = (0, (fst w, snd w @ bs))"

text \<open>Reading does not touch what was written.\<close>

interpretation duplex: live_connection duplex_read "\<lambda>w. concat (fst w)" "\<lambda>w. snd w = out" for out
proof unfold_locales
  fix s k bs ec s'
  assume "snd s = out" and rd: "duplex_read s k = (bs, ec, s')"
  then have sc: "script_read (fst s) k = (bs, ec, fst s')" "snd s' = out"
    by (auto simp: duplex_read_def split: prod.splits)
  note spec = script_read_spec [OF sc(1)]
  show "snd s' = out" by (rule sc(2))
  show "length bs \<le> k" using spec by blast
  show "0 < k \<Longrightarrow> concat (fst s) \<noteq> [] \<Longrightarrow> ec = 0 \<and> bs \<noteq> []" using spec by blast
  show "concat (fst s) = [] \<Longrightarrow> bs = [] \<and> concat (fst s') = []" using spec by blast
next
  fix s k bs s'
  assume "duplex_read s k = (bs, 0, s')"
  then have "script_read (fst s) k = (bs, 0, fst s')" by (auto simp: duplex_read_def split: prod.splits)
  then show "concat (fst s) = bs @ concat (fst s')" using script_read_spec by blast
qed

interpretation duplex_reader: event_reader duplex_read "\<lambda>w. concat (fst w)" "\<lambda>w. snd w = out"
  "CipherContext_Decrypt A L" "cipher_framed A L" 8360 tm for A L tm out
  by unfold_locales simp

abbreviation to_read :: "('r, wire) MuxConnection \<Rightarrow> bytes" where
  "to_read \<equiv> unread (\<lambda>w. concat (fst w))"

subsection \<open>One message from one side to the other\<close>

lemma Duplex_framed:
  assumes "aead_ok A" "pb_lib_ok L" "writer_ok c" "synced (cipher_ctx c) r" "wf_event kMaxChunkSize e"
  shows "\<exists>f n c' r'. MuxConnection_Write (CipherContext_Encrypt A L) duplex_write tm c e = (True, c') \<and>
    cipher_framed A L r (with_len n e) f r' \<and> synced (cipher_ctx c') r' \<and>
    cipher_ctx c' = (cipher_ctx c)\<lparr>encrypt_iv := encrypt_iv (cipher_ctx c) + 1\<rparr> \<and>
    io_conn c' = (fst (io_conn c), snd (io_conn c) @ f) \<and> is_local c' = is_local c \<and> client_id c' = client_id c \<and> writer_ok c' \<and>
    read_buffer c' = read_buffer c \<and> readable_data c' = readable_data c"
  using Write_framed [OF assms, of duplex_write "\<lambda>f. (fst (io_conn c), snd (io_conn c) @ f)" tm]
  by (fastforce simp: duplex_write_def split: prod.splits)

subsection \<open>The handshake\<close>

lemma auth_request_wf: "wf_event lim (auth_request g user cid)"
  by (simp add: auth_request_def make_event_def wf_event_def wf_AuthRequest_def c_string_snprintf MuxEventHead_init_def)

lemma auth_response_wf: "wf_event lim (make_event (AuthResponse m))"
  by (simp add: make_event_def wf_event_def MuxEventHead_init_def)

lemma synced_swap_enc: "synced r s \<Longrightarrow> synced r (s\<lparr>encrypt_iv := iv\<rparr>)"
  by (auto simp: synced_def cipher_sized_def)

lemma synced_swap_dec: "synced r s \<Longrightarrow> synced (r\<lparr>decrypt_iv := iv\<rparr>) s"
  by (auto simp: synced_def cipher_sized_def)

lemma unread_duplex:
  "read_buffer c' = read_buffer c \<Longrightarrow> readable_data c' = readable_data c \<Longrightarrow>
   to_read c = [] \<Longrightarrow> to_read (c'\<lparr>io_conn := (segs, out)\<rparr>) = concat segs"
  by (auto simp: unread_def split: prod.splits)

lemma reader_ok_duplex:
  "read_buffer c' = read_buffer c \<Longrightarrow> readable_data c' = readable_data c \<Longrightarrow>
   reader_ok (\<lambda>_. True) c \<Longrightarrow> reader_ok (\<lambda>w. snd w = snd v) (c'\<lparr>io_conn := v\<rparr>)"
  by (auto simp: reader_ok_def spans_ok_def)

text \<open>A fresh pair of ends, client and server: same key and counter, nothing read or written yet.\<close>

definition fresh_ends :: "('c, wire) cipher_conn \<Rightarrow> ('c, wire) cipher_conn \<Rightarrow> bool" where
  "fresh_ends cl sv \<longleftrightarrow> synced (cipher_ctx cl) (cipher_ctx sv) \<and> synced (cipher_ctx sv) (cipher_ctx cl) \<and>
     writer_ok cl \<and> writer_ok sv \<and> reader_ok (\<lambda>_. True) cl \<and> reader_ok (\<lambda>_. True) sv \<and>
     to_read cl = [] \<and> to_read sv = [] \<and> io_conn cl = ([], []) \<and> io_conn sv = ([], []) \<and>
     is_local cl \<and> \<not> is_local sv"

lemma server_accept_sends:
  assumes "aead_ok A" "pb_lib_ok L" "writer_ok s" "synced (cipher_ctx s) r"
    and "server_accept A L duplex_write tm iv m s = (res, s')"
  shows "\<exists>f n r'. cipher_framed A L r (with_len n (make_event (AuthResponse \<lparr>as_success = True, as_iv = iv\<rparr>))) f r' \<and>
    res = (ar_user m, ar_client_id m, True) \<and>
    cipher_ctx s' = UpdateNonce iv ((cipher_ctx s)\<lparr>encrypt_iv := encrypt_iv (cipher_ctx s) + 1\<rparr>) \<and>
    io_conn s' = (fst (io_conn s), snd (io_conn s) @ f) \<and> client_id s' = ar_client_id m \<and> auth_user s' = ar_user m \<and>
    writer_ok s' \<and> read_buffer s' = read_buffer s \<and> readable_data s' = readable_data s \<and>
    conn_type s' = (if ar_is_entry m then MUX_ENTRY_CONN else if ar_is_exit m then MUX_EXIT_CONN else MUX_ENTRY_CONN)"
proof -
  let ?ty = "if ar_is_entry m then MUX_ENTRY_CONN else if ar_is_exit m then MUX_EXIT_CONN else MUX_ENTRY_CONN"
  let ?s = "s\<lparr>conn_type := ?ty\<rparr>"
  have "writer_ok ?s" "synced (cipher_ctx ?s) r" using assms(3,4) by (simp_all add: writer_ok_def)
  from Duplex_framed [OF assms(1,2) this auth_response_wf [of _ "\<lparr>as_success = True, as_iv = iv\<rparr>"], of tm]
  obtain f n s1 r' where w: "MuxConnection_Write (CipherContext_Encrypt A L) duplex_write tm ?s
        (make_event (AuthResponse \<lparr>as_success = True, as_iv = iv\<rparr>)) = (True, s1)"
    and fr: "cipher_framed A L r (with_len n (make_event (AuthResponse \<lparr>as_success = True, as_iv = iv\<rparr>))) f r'"
    and s1: "cipher_ctx s1 = (cipher_ctx ?s)\<lparr>encrypt_iv := encrypt_iv (cipher_ctx ?s) + 1\<rparr>"
      "io_conn s1 = (fst (io_conn ?s), snd (io_conn ?s) @ f)" "writer_ok s1" "read_buffer s1 = read_buffer ?s"
      "readable_data s1 = readable_data ?s" by blast
  have "conn_type s1 = ?ty" using Write_keeps [OF w] by simp
  with assms(5) w fr s1 show ?thesis
    unfolding server_accept_def Let_def by (intro exI [of _ f] exI [of _ n] exI [of _ r']) (auto simp: writer_ok_def)
qed

definition auth_message :: "node_flags \<Rightarrow> bytes \<Rightarrow> u64 \<Rightarrow> snova_AuthRequest" where
  "auth_message g user cid = snova_AuthRequest_init_default\<lparr>
     ar_user := snprintf_s 256 user, ar_client_id := cid, ar_is_entry := g_is_entry_node g,
     ar_is_exit := g_is_exit_node g, ar_is_middle := g_is_middle_node g\<rparr>"

text \<open>The type that a server gives to the connection of a client.\<close>

definition auth_conn_type :: "node_flags \<Rightarrow> MuxConnectionType" where
  "auth_conn_type g = (if g_is_entry_node g then MUX_ENTRY_CONN else if g_is_exit_node g then MUX_EXIT_CONN else MUX_ENTRY_CONN)"

text \<open>A connection that is ready for use, with nothing left to read.\<close>

definition conn_ready :: "('r, wire) MuxConnection \<Rightarrow> bool" where
  "conn_ready c \<longleftrightarrow> writer_ok c \<and> reader_ok (\<lambda>_. True) c \<and> to_read c = []"

lemma auth_message_simps [simp]:
  "ev_body (auth_request g user cid) = AuthRequest (auth_message g user cid)"
  "ar_user (auth_message g user cid) = snprintf_s 256 user" "ar_client_id (auth_message g user cid) = cid"
  by (simp_all add: auth_request_def make_event_def auth_message_def)

abbreviation (input) auth_answer :: "u64 \<Rightarrow> MuxEvent" where
  "auth_answer iv \<equiv> make_event (AuthResponse \<lparr>as_success = True, as_iv = iv\<rparr>)"

text \<open>The client's first stretch, the server's answer and the client's second stretch.\<close>

lemma client_requests:
  assumes "aead_ok A" "pb_lib_ok L" "fresh_ends cl sv"
  shows "\<exists>f n cl1 r1. ClientAuth_request A L duplex_write tm g user cid cl = (True, cl1) \<and> snd (io_conn cl1) = f \<and>
    cipher_framed A L (cipher_ctx sv) (with_len n (auth_request g user cid)) f r1 \<and>
    synced (cipher_ctx cl1) r1 \<and> synced r1 (cipher_ctx cl1) \<and>
    read_buffer cl1 = read_buffer cl \<and> readable_data cl1 = readable_data cl \<and> writer_ok cl1"
proof -
  have "writer_ok (cl\<lparr>client_id := cid\<rparr>)" "synced (cipher_ctx (cl\<lparr>client_id := cid\<rparr>)) (cipher_ctx sv)"
    using assms(3) by (simp_all add: fresh_ends_def writer_ok_def)
  from Duplex_framed [OF assms(1,2) this auth_request_wf [of _ g user cid], of tm]
  obtain f n cl1 r1 where w: "MuxConnection_Write (CipherContext_Encrypt A L) duplex_write tm (cl\<lparr>client_id := cid\<rparr>)
        (auth_request g user cid) = (True, cl1)"
    and fr: "cipher_framed A L (cipher_ctx sv) (with_len n (auth_request g user cid)) f r1"
    and cl1: "synced (cipher_ctx cl1) r1"
      "cipher_ctx cl1 = (cipher_ctx cl)\<lparr>encrypt_iv := encrypt_iv (cipher_ctx cl) + 1\<rparr>"
      "io_conn cl1 = (fst (io_conn cl), snd (io_conn cl) @ f)"
      "read_buffer cl1 = read_buffer cl" "readable_data cl1 = readable_data cl" "writer_ok cl1" by auto
  have "r1 = (cipher_ctx sv)\<lparr>decrypt_iv := decrypt_iv (cipher_ctx sv) + 1\<rparr>"
    using fr by (simp add: cipher_framed_def)
  then have "synced r1 (cipher_ctx cl1)"
    using assms(3) cl1(2) by (simp add: fresh_ends_def synced_swap_dec synced_swap_enc)
  with w fr cl1 assms(3) show ?thesis
    by (intro exI [of _ f] exI [of _ n] exI [of _ cl1] exI [of _ r1])
      (simp add: ClientAuth_request_def fresh_ends_def)
qed

lemma server_answers:
  assumes A: "aead_ok A" and L: "pb_lib_ok L" and fe: "fresh_ends cl sv"
    and fr: "cipher_framed A L (cipher_ctx sv) (with_len n (auth_request gc user cid)) f r1" and segs: "concat segs = f"
    and role: "\<not> invalid_role gs (auth_message gc user cid)" and sy: "synced r1 q"
  shows "\<exists>sv1 f2 n2 q2. ServerAuth A L duplex_read duplex_write tm gs iv (sv\<lparr>io_conn := (segs, [])\<rparr>) =
      Some ((snprintf_s 256 user, cid, True), sv1) \<and> snd (io_conn sv1) = f2 \<and>
    cipher_framed A L q (with_len n2 (auth_answer iv)) f2 q2 \<and>
    cipher_ctx sv1 = UpdateNonce iv (r1\<lparr>encrypt_iv := encrypt_iv r1 + 1\<rparr>) \<and>
    client_id sv1 = cid \<and> auth_user sv1 = snprintf_s 256 user \<and> conn_type sv1 = auth_conn_type gc \<and> conn_ready sv1"
proof -
  let ?sv = "sv\<lparr>io_conn := (segs, [])\<rparr>" and ?e = "with_len n (auth_request gc user cid)"
  have "to_read ?sv = f @ []" "reader_ok (\<lambda>w. snd w = []) ?sv" "cipher_framed A L (cipher_ctx ?sv) ?e f r1"
    using unread_duplex [of sv sv segs "[]"] reader_ok_duplex [of sv sv "(segs, [])"] fe segs fr
    by (simp_all add: fresh_ends_def)
  from duplex_reader.ReadEvent_frame [OF this(2,1,3), of tm]
  obtain sv0 where rd: "ReadEvent (CipherContext_Decrypt A L) duplex_read tm ?sv = Some (0, Some ?e, sv0)"
    "cipher_ctx sv0 = r1" "write_side sv0 = write_side ?sv" "snd (io_conn sv0) = []"
    and ro: "reader_ok (\<lambda>_. True) sv0" "to_read sv0 = []" by (auto simp: reader_ok_def)
  then have wo: "writer_ok sv0" using fe by (simp add: fresh_ends_def writer_ok_def write_side_def)
  obtain res sv1 where acc: "server_accept A L duplex_write tm iv (auth_message gc user cid) sv0 = (res, sv1)" by fastforce
  have "synced (cipher_ctx sv0) q" using sy rd(2) by simp
  from server_accept_sends [OF A L wo this acc] obtain f2 n2 q2 where
    sent: "cipher_framed A L q (with_len n2 (auth_answer iv)) f2 q2" "res = (snprintf_s 256 user, cid, True)"
      "cipher_ctx sv1 = UpdateNonce iv ((cipher_ctx sv0)\<lparr>encrypt_iv := encrypt_iv (cipher_ctx sv0) + 1\<rparr>)"
      "io_conn sv1 = (fst (io_conn sv0), snd (io_conn sv0) @ f2)" "client_id sv1 = cid" "auth_user sv1 = snprintf_s 256 user"
    and keep: "writer_ok sv1" "read_buffer sv1 = read_buffer sv0" "readable_data sv1 = readable_data sv0"
      "conn_type sv1 = auth_conn_type gc" by (auto simp: auth_message_def auth_conn_type_def)
  have "conn_ready sv1" using ro keep sent(4) by (simp add: conn_ready_def reader_ok_def unread_def spans_ok_def)
  with sent keep rd acc role fe show ?thesis
    by (intro exI [of _ sv1] exI [of _ f2] exI [of _ n2] exI [of _ q2]) (auto simp: ServerAuth_def fresh_ends_def)
qed

lemma client_accepts:
  assumes segs: "concat segs = f" and fr: "cipher_framed A L (cipher_ctx cl1) (with_len n (auth_answer iv)) f r2"
    and cl1: "read_buffer cl1 = read_buffer cl" "readable_data cl1 = readable_data cl"
      "to_read cl = []" "reader_ok (\<lambda>_. True) cl"
  shows "\<exists>cl2. ClientAuth_response A L duplex_read tm user (cl1\<lparr>io_conn := (segs, out)\<rparr>) = Some (True, cl2) \<and>
    is_authed cl2 \<and> auth_user cl2 = user \<and> cipher_ctx cl2 = UpdateNonce iv r2 \<and> snd (io_conn cl2) = out \<and>
    (writer_ok cl1 \<longrightarrow> conn_ready cl2)"
proof -
  let ?cl = "cl1\<lparr>io_conn := (segs, out)\<rparr>"
  have "to_read ?cl = f @ []" "reader_ok (\<lambda>w. snd w = out) ?cl"
    "cipher_framed A L (cipher_ctx ?cl) (with_len n (auth_answer iv)) f r2"
    using unread_duplex [OF cl1(1-3), of segs out] reader_ok_duplex [OF cl1(1,2,4), of "(segs, out)"] segs fr
    by simp_all
  from duplex_reader.ReadEvent_frame [OF this(2,1,3), of tm]
  obtain c where c: "ReadEvent (CipherContext_Decrypt A L) duplex_read tm ?cl = Some (0, Some (with_len n (auth_answer iv)), c)"
    "reader_ok (\<lambda>w. snd w = out) c" "to_read c = []" "cipher_ctx c = r2" "write_side c = write_side ?cl" by blast
  show ?thesis using c
    by (auto simp: ClientAuth_response_def make_event_def Let_def conn_ready_def writer_ok_def reader_ok_def unread_def
        spans_ok_def write_side_def)
qed

lemma handshake_synced:
  assumes "cipher_framed A L q e f q2" "synced q r" "synced r q"
  shows "synced (UpdateNonce iv q2) (UpdateNonce iv (r\<lparr>encrypt_iv := encrypt_iv r + 1\<rparr>)) \<and>
    synced (UpdateNonce iv (r\<lparr>encrypt_iv := encrypt_iv r + 1\<rparr>)) (UpdateNonce iv q2)"
  using assms by (auto simp: cipher_framed_def synced_def UpdateNonce_def cipher_sized_def)

text \<open>The authentication handshake.  Between two fresh ends with the same key, when neither
  network nor role check interferes: the client's request goes out; the server, however the
  request's bytes are cut, answers with success, and reports the client's user name and id; and the
  client, however the answer is cut, succeeds.  Afterwards both directions use the nonce the server
  chose, and the two contexts are synchronised both ways.\<close>

theorem auth_handshake:
  assumes "aead_ok A" "pb_lib_ok L" "fresh_ends cl sv"
    and "\<not> (g_is_entry_node gs \<and> g_is_entry_node gc)" "\<not> (g_is_exit_node gs \<and> g_is_exit_node gc)"
      "\<not> (g_is_middle_node gs \<and> g_is_middle_node gc)"
  shows "\<exists>cl1 req. ClientAuth_request A L duplex_write tm gc user cid cl = (True, cl1) \<and> snd (io_conn cl1) = req \<and>
    (\<forall>segs. concat segs = req \<longrightarrow>
      (\<exists>sv1 res. ServerAuth A L duplex_read duplex_write tm gs iv (sv\<lparr>io_conn := (segs, [])\<rparr>) =
           Some ((snprintf_s 256 user, cid, True), sv1) \<and> snd (io_conn sv1) = res \<and>
         client_id sv1 = cid \<and> auth_user sv1 = snprintf_s 256 user \<and>
         (\<forall>segs'. concat segs' = res \<longrightarrow>
           (\<exists>cl2. ClientAuth_response A L duplex_read tm user (cl1\<lparr>io_conn := (segs', [])\<rparr>) = Some (True, cl2) \<and>
              is_authed cl2 \<and> auth_user cl2 = user \<and>
              encrypt_iv (cipher_ctx cl2) = iv \<and> encrypt_iv (cipher_ctx sv1) = iv \<and>
              synced (cipher_ctx cl2) (cipher_ctx sv1) \<and> synced (cipher_ctx sv1) (cipher_ctx cl2)))))"
proof -
  have fe: "to_read cl = []" "reader_ok (\<lambda>_. True) cl" using assms(3) by (simp_all add: fresh_ends_def)
  have role: "\<not> invalid_role gs (auth_message gc user cid)"
    using assms(4-6) by (auto simp: invalid_role_def auth_message_def)
  obtain f n cl1 r1 where cl1: "ClientAuth_request A L duplex_write tm gc user cid cl = (True, cl1)" "snd (io_conn cl1) = f"
      "read_buffer cl1 = read_buffer cl" "readable_data cl1 = readable_data cl"
    and fr: "cipher_framed A L (cipher_ctx sv) (with_len n (auth_request gc user cid)) f r1"
    and sy: "synced (cipher_ctx cl1) r1" "synced r1 (cipher_ctx cl1)"
    using client_requests [OF assms(1-3), of tm gc user cid] by blast
  have iv: "encrypt_iv (UpdateNonce iv x) = iv" for x :: "'a CipherContext" by (simp add: UpdateNonce_def)
  have step: "\<exists>sv1 res. ServerAuth A L duplex_read duplex_write tm gs iv (sv\<lparr>io_conn := (segs, [])\<rparr>) =
           Some ((snprintf_s 256 user, cid, True), sv1) \<and> snd (io_conn sv1) = res \<and>
         client_id sv1 = cid \<and> auth_user sv1 = snprintf_s 256 user \<and>
         (\<forall>segs'. concat segs' = res \<longrightarrow>
           (\<exists>cl2. ClientAuth_response A L duplex_read tm user (cl1\<lparr>io_conn := (segs', [])\<rparr>) = Some (True, cl2) \<and>
              is_authed cl2 \<and> auth_user cl2 = user \<and>
              encrypt_iv (cipher_ctx cl2) = iv \<and> encrypt_iv (cipher_ctx sv1) = iv \<and>
              synced (cipher_ctx cl2) (cipher_ctx sv1) \<and> synced (cipher_ctx sv1) (cipher_ctx cl2)))"
    if segs: "concat segs = f" for segs
  proof -
    obtain sv1 f2 n2 q2 where sv1: "ServerAuth A L duplex_read duplex_write tm gs iv
        (sv\<lparr>io_conn := (segs, [])\<rparr>) = Some ((snprintf_s 256 user, cid, True), sv1)" "snd (io_conn sv1) = f2"
      "cipher_ctx sv1 = UpdateNonce iv (r1\<lparr>encrypt_iv := encrypt_iv r1 + 1\<rparr>)"
      "client_id sv1 = cid" "auth_user sv1 = snprintf_s 256 user"
      and fr2: "cipher_framed A L (cipher_ctx cl1) (with_len n2 (auth_answer iv)) f2 q2"
      using server_answers [OF assms(1-3) fr segs role sy(2), of tm iv] by blast
    show ?thesis
      using sv1 client_accepts [OF _ fr2 cl1(3,4) fe] handshake_synced [OF fr2 sy] iv
      by (intro exI [of _ sv1] exI [of _ f2]) fastforce
  qed
  show ?thesis by (rule exI [of _ cl1], rule exI [of _ f]) (use cl1 step in blast)
qed

definition sample_server :: "(bytes, wire) cipher_conn" where
  "sample_server = (sample_conn ([], []))\<lparr>is_local := False\<rparr>"

lemma sample_ends_fresh: "fresh_ends (sample_conn ([], [])) sample_server"
  using sample_ctx_synced
  by (simp add: fresh_ends_def sample_server_def sample_conn_def MuxConnection_new_def writer_ok_def reader_ok_def
      spans_ok_def unread_def slice_of_def)

abbreviation (input) sample_client_flags :: node_flags where
  "sample_client_flags \<equiv> \<lparr>g_is_entry_node = True, g_is_exit_node = False, g_is_middle_node = False\<rparr>"
abbreviation (input) sample_server_flags :: node_flags where
  "sample_server_flags \<equiv> \<lparr>g_is_entry_node = False, g_is_exit_node = True, g_is_middle_node = False\<rparr>"

theorem auth_handshake_witness:
  "\<exists>cl1 sv1. ClientAuth_request ref_aead ref_pb duplex_write (\<lambda>_. 0) sample_client_flags [117] 77 (sample_conn ([], [])) =
      (True, cl1) \<and>
    ServerAuth ref_aead ref_pb duplex_read duplex_write (\<lambda>_. 0) sample_server_flags 5
      (sample_server\<lparr>io_conn := ([snd (io_conn cl1)], [])\<rparr>) = Some ((snprintf_s 256 [117], 77, True), sv1) \<and>
    (\<exists>cl2. ClientAuth_response ref_aead ref_pb duplex_read (\<lambda>_. 0) [117] (cl1\<lparr>io_conn := ([snd (io_conn sv1)], [])\<rparr>) =
       Some (True, cl2) \<and> synced (cipher_ctx cl2) (cipher_ctx sv1))"
proof -
  have "\<exists>cl1 req. ClientAuth_request ref_aead ref_pb duplex_write (\<lambda>_. 0) sample_client_flags [117] 77 (sample_conn ([], [])) =
      (True, cl1) \<and> snd (io_conn cl1) = req \<and>
    (\<forall>segs. concat segs = req \<longrightarrow>
      (\<exists>sv1 res. ServerAuth ref_aead ref_pb duplex_read duplex_write (\<lambda>_. 0) sample_server_flags 5
           (sample_server\<lparr>io_conn := (segs, [])\<rparr>) = Some ((snprintf_s 256 [117], 77, True), sv1) \<and> snd (io_conn sv1) = res \<and>
         (\<forall>segs'. concat segs' = res \<longrightarrow>
           (\<exists>cl2. ClientAuth_response ref_aead ref_pb duplex_read (\<lambda>_. 0) [117] (cl1\<lparr>io_conn := (segs', [])\<rparr>) = Some (True, cl2) \<and>
              synced (cipher_ctx cl2) (cipher_ctx sv1)))))"
    using auth_handshake [OF ref_aead_ok ref_pb_ok sample_ends_fresh, of sample_server_flags sample_client_flags "\<lambda>_. 0" "[117]" 77 5]
    by simp meson
  then obtain cl1 where cl1: "ClientAuth_request ref_aead ref_pb duplex_write (\<lambda>_. 0) sample_client_flags [117] 77
        (sample_conn ([], [])) = (True, cl1)"
    and sv: "\<And>segs. concat segs = snd (io_conn cl1) \<Longrightarrow> \<exists>sv1. ServerAuth ref_aead ref_pb duplex_read duplex_write (\<lambda>_. 0)
        sample_server_flags 5 (sample_server\<lparr>io_conn := (segs, [])\<rparr>) = Some ((snprintf_s 256 [117], 77, True), sv1) \<and>
         (\<forall>segs'. concat segs' = snd (io_conn sv1) \<longrightarrow>
           (\<exists>cl2. ClientAuth_response ref_aead ref_pb duplex_read (\<lambda>_. 0) [117] (cl1\<lparr>io_conn := (segs', [])\<rparr>) = Some (True, cl2) \<and>
              synced (cipher_ctx cl2) (cipher_ctx sv1)))" by metis
  have one: "concat [x] = x" for x :: bytes by simp
  show ?thesis using cl1 sv [OF one] one by meson
qed

end
