(* ===== verification/Net_Address.thy ===== *)
theory Net_Address
  imports Snova_Prelude
begin

text \<open>
  \<^verbatim>\<open>snova/util/address.h\<close>, \<^verbatim>\<open>address.cc\<close>, \<^verbatim>\<open>tunnel_opt.h\<close> and \<^verbatim>\<open>tunnel_opt.cc\<close>: network
  addresses and tunnel options as text, bytes in ASCII.  \<^verbatim>\<open>absl::StrSplit\<close> and
  \<^verbatim>\<open>absl::SimpleAtoi\<close> are Abseil's and are parameters; \<open>StrSplit_ok\<close> and \<open>SimpleAtoi_ok\<close> state what
  Abseil documents of them.  \<^verbatim>\<open>std::stoi\<close>, \<^verbatim>\<open>std::to_string\<close> and \<^verbatim>\<open>find\<close> are the standard
  library's and are modelled.
\<close>

subsection \<open>Text\<close>

definition str :: "string \<Rightarrow> bytes" where
  "str s = map of_char s"

definition is_digit :: "u8 \<Rightarrow> bool" where
  "is_digit b \<longleftrightarrow> 48 \<le> b \<and> b \<le> 57"

definition is_space :: "u8 \<Rightarrow> bool" where
  "is_space b \<longleftrightarrow> b = 32 \<or> (9 \<le> b \<and> b \<le> 13)"

definition dec_val :: "bytes \<Rightarrow> int" where
  "dec_val ds = foldl (\<lambda>a b. 10 * a + (uint b - 48)) 0 ds"

text \<open>\<^verbatim>\<open>std::to_string\<close> of an unsigned number.\<close>

fun to_string :: "nat \<Rightarrow> bytes" where
  "to_string n = (if n < 10 then [word_of_nat (48 + n)] else to_string (n div 10) @ [word_of_nat (48 + n mod 10)])"

declare to_string.simps [simp del]

text \<open>
  \<^verbatim>\<open>std::stoi\<close>: white space, a sign, digits; what follows is ignored.  It throws when there is no
  digit and when the value is no \<^verbatim>\<open>int\<close>.
\<close>

definition stoi :: "bytes \<Rightarrow> int option" where
  "stoi s =
     (let s1 = dropWhile is_space s;
          neg = (case s1 of b # _ \<Rightarrow> b = 45 | [] \<Rightarrow> False);
          s2 = (case s1 of b # r \<Rightarrow> if b = 45 \<or> b = 43 then r else s1 | [] \<Rightarrow> s1);
          ds = takeWhile is_digit s2;
          v = (if neg then - dec_val ds else dec_val ds)
      in if ds = [] then None
         else if - (2 ^ 31) \<le> v \<and> v < 2 ^ 31 then Some v else None)"

subsection \<open>Abseil, parameters of the model\<close>

type_synonym str_split = "bytes \<Rightarrow> bytes \<Rightarrow> bytes list"

text \<open>The text up to the first delimiter, then the pieces of what follows the delimiter.\<close>

definition StrSplit_ok :: "str_split \<Rightarrow> bool" where
  "StrSplit_ok split \<longleftrightarrow>
     (\<forall>s d. d \<noteq> [] \<longrightarrow>
        split s d = (case find_sub d s of
                       None \<Rightarrow> [s]
                     | Some p \<Rightarrow> take p s # split (drop (p + length d) s) d))"

text \<open>A text of digits only whose value fits is converted to that value.\<close>

definition SimpleAtoi_ok :: "(bytes \<Rightarrow> u32 option) \<Rightarrow> bool" where
  "SimpleAtoi_ok atoi \<longleftrightarrow> (\<forall>n<2 ^ 32. atoi (to_string n) = Some (word_of_nat n))"

subsection \<open>NetAddress\<close>

record NetAddress =
  addr_schema :: bytes
  addr_host :: bytes
  addr_port :: u16
  addr_path :: bytes

definition NetAddress_String :: "NetAddress \<Rightarrow> bytes" where
  "NetAddress_String a =
     (if addr_schema a \<noteq> [] then addr_schema a @ str ''://'' else []) @
     addr_host a @ str '':'' @ to_string (unat (addr_port a)) @
     (if addr_path a \<noteq> [] then str ''/'' @ addr_path a else [])"

definition default_port :: "bytes \<Rightarrow> u16 \<Rightarrow> u16" where
  "default_port schema port =
     (if schema = str ''https'' \<or> schema = str ''tls'' \<or> schema = str ''doh''
      then (if port = 0 then 443 else port)
      else if schema = str ''http'' then (if port = 0 then 80 else port)
      else if schema = str ''dns'' then (if port = 0 then 53 else port)
      else if schema = str ''dot'' then (if port = 0 then 853 else port)
      else port)"

text \<open>\<open>None\<close> is \<^verbatim>\<open>invalid_argument\<close>.\<close>

definition NetAddress_Parse :: "str_split \<Rightarrow> bytes \<Rightarrow> NetAddress option" where
  "NetAddress_Parse split addr =
     (let schema_url_parts = split addr (str ''://'');
          url_part = (if length schema_url_parts = 2 then schema_url_parts ! 1 else addr);
          schema = (if length schema_url_parts = 2 then schema_url_parts ! 0 else []);
          host_port_part = (case find_sub (str ''/'') url_part of Some pos \<Rightarrow> take pos url_part | None \<Rightarrow> url_part);
          path = (case find_sub (str ''/'') url_part of
                    Some pos \<Rightarrow> if pos + 1 < length url_part then drop (pos + 1) url_part else []
                  | None \<Rightarrow> []);
          host_ports = split host_port_part (str '':'');
          host_port = (if length host_ports \<noteq> 2 then Some (host_port_part, 0)
                       else map_option (\<lambda>v. (host_ports ! 0, word_of_int v)) (stoi (host_ports ! 1)))
      in case host_port of
           None \<Rightarrow> None
         | Some (host_view, port) \<Rightarrow>
             Some \<lparr>addr_schema = schema,
                   addr_host = (if host_view = [] then str ''0.0.0.0'' else host_view),
                   addr_port = default_port schema port, addr_path = path\<rparr>)"

subsection \<open>Tunnel options\<close>

record LocalTunnelOption =
  lt_local_port :: u16
  lt_remote_host :: bytes
  lt_remote_port :: u16

record RemoteTunnelOption =
  rt_remote_port :: u16
  rt_local_host :: bytes
  rt_local_port :: u16

definition parse_tunnel_opt :: "str_split \<Rightarrow> (bytes \<Rightarrow> u32 option) \<Rightarrow> bytes \<Rightarrow> (u16 \<times> bytes \<times> u16) option" where
  "parse_tunnel_opt split atoi addr =
     (let parts = split addr (str '':'') in
      if length parts \<noteq> 3 then None
      else case atoi (parts ! 0) of
        None \<Rightarrow> None
      | Some port0 \<Rightarrow>
          (case atoi (parts ! 2) of
             None \<Rightarrow> None
           | Some port2 \<Rightarrow> Some (ucast port0, parts ! 1, ucast port2)))"

definition LocalTunnelOption_Parse :: "str_split \<Rightarrow> (bytes \<Rightarrow> u32 option) \<Rightarrow> bytes \<Rightarrow> LocalTunnelOption option" where
  "LocalTunnelOption_Parse split atoi addr =
     map_option (\<lambda>(a, h, b). \<lparr>lt_local_port = a, lt_remote_host = h, lt_remote_port = b\<rparr>)
       (parse_tunnel_opt split atoi addr)"

definition RemoteTunnelOption_Parse :: "str_split \<Rightarrow> (bytes \<Rightarrow> u32 option) \<Rightarrow> bytes \<Rightarrow> RemoteTunnelOption option" where
  "RemoteTunnelOption_Parse split atoi addr =
     map_option (\<lambda>(a, h, b). \<lparr>rt_remote_port = a, rt_local_host = h, rt_local_port = b\<rparr>)
       (parse_tunnel_opt split atoi addr)"

subsection \<open>Decimal lemmas\<close>

lemma digit_byte:
  assumes "n < 10"
  shows "is_digit (word_of_nat (48 + n)) \<and> uint (word_of_nat (48 + n) :: u8) = 48 + int n"
proof -
  define w :: u8 where "w = word_of_nat (48 + n)"
  have u: "unat w = 48 + n" using assms unfolding w_def unat_of_nat by simp
  have d: "is_digit w" using assms by (simp add: is_digit_def word_le_nat_alt u)
  have "uint w = int (unat w)" by simp
  then have "uint w = 48 + int n" by (simp only: u of_nat_add of_nat_numeral)
  with d show ?thesis unfolding w_def by (rule conjI)
qed

lemma dec_val_append: "dec_val (ds @ [b]) = 10 * dec_val ds + (uint b - 48)"
  by (simp add: dec_val_def)

lemma to_string_spec: "dec_val (to_string n) = int n \<and> (\<forall>b\<in>set (to_string n). is_digit b) \<and> to_string n \<noteq> []"
proof (induction n rule: to_string.induct)
  case (1 n)
  show ?case
  proof (cases "n < 10")
    case True
    then show ?thesis using digit_byte [of n] by (subst (1 2 3) to_string.simps) (simp add: dec_val_def)
  next
    case False
    have "int n = int (10 * (n div 10) + n mod 10)" by (simp only: mult_div_mod_eq)
    then have "int n = 10 * int (n div 10) + int (n mod 10)" by (simp only: of_nat_add of_nat_mult of_nat_numeral)
    with 1 False digit_byte [of "n mod 10"] show ?thesis
      by (subst (1 2 3) to_string.simps) (auto simp: dec_val_append)
  qed
qed

lemma to_string_first: "\<exists>b r. to_string n = b # r \<and> is_digit b"
  using to_string_spec [of n] by (cases "to_string n") auto

lemma digit_not: "is_digit b \<Longrightarrow> \<not> is_space b \<and> b \<noteq> 45 \<and> b \<noteq> 43 \<and> b \<noteq> 58 \<and> b \<noteq> 47"
  by (auto simp: is_digit_def is_space_def word_le_nat_alt)

lemma stoi_to_string: "n < 2 ^ 31 \<Longrightarrow> stoi (to_string n) = Some (int n)"
proof -
  assume n: "n < 2 ^ 31"
  obtain b r where b: "to_string n = b # r" "is_digit b" using to_string_first by blast
  have "takeWhile is_digit r = r" using to_string_spec [of n] b by (simp add: takeWhile_eq_all_conv)
  with b digit_not [OF b(2)] to_string_spec [of n] n show ?thesis
    by (simp add: stoi_def Let_def del: takeWhile_eq_all_conv)
qed

subsection \<open>Search lemmas\<close>

lemma find_sub_skip:
  "pat \<noteq> [] \<Longrightarrow> hd pat \<notin> set xs \<Longrightarrow> find_sub pat (xs @ ys) = map_option ((+) (length xs)) (find_sub pat ys)"
proof (induction xs)
  case Nil
  then show ?case by (simp add: option.map_ident [unfolded id_def])
next
  case (Cons x xs)
  then have "take (length pat) (x # xs @ ys) \<noteq> pat" by (cases pat) auto
  with Cons show ?case by (simp add: option.map_comp comp_def)
qed

lemma find_sub_absent: "pat \<noteq> [] \<Longrightarrow> hd pat \<notin> set xs \<Longrightarrow> find_sub pat xs = None"
  using find_sub_skip [of pat xs "[]"] by simp

lemma find_sub_first:
  assumes "pat \<noteq> []" "hd pat \<notin> set xs"
  shows "find_sub pat (xs @ pat @ ys) = Some (length xs)"
proof -
  have "find_sub pat (pat @ ys) = Some 0" using assms(1) by (cases pat) auto
  with find_sub_skip [OF assms, of "pat @ ys"] show ?thesis by simp
qed

lemma split_eq:
  "StrSplit_ok split \<Longrightarrow> d \<noteq> [] \<Longrightarrow>
     split s d = (case find_sub d s of None \<Rightarrow> [s] | Some p \<Rightarrow> take p s # split (drop (p + length d) s) d)"
  unfolding StrSplit_ok_def by blast

lemma split_none: "StrSplit_ok split \<Longrightarrow> d \<noteq> [] \<Longrightarrow> find_sub d xs = None \<Longrightarrow> split xs d = [xs]"
  by (subst split_eq) simp_all

lemma split_at:
  "StrSplit_ok split \<Longrightarrow> d \<noteq> [] \<Longrightarrow> hd d \<notin> set xs \<Longrightarrow> split (xs @ d @ ys) d = xs # split ys d"
  by (subst split_eq) (simp_all add: find_sub_first)

lemma split_one: "StrSplit_ok split \<Longrightarrow> d \<noteq> [] \<Longrightarrow> hd d \<notin> set xs \<Longrightarrow> split xs d = [xs]"
  by (rule split_none) (simp_all add: find_sub_absent)

subsection \<open>Round trips\<close>

text \<open>
  What an address has to satisfy to be read back: a host without \<open>:\<close> and \<open>/\<close> (so no IPv6
  literal), a schema without \<open>:\<close>, a path without \<open>://\<close>, and no port 0 under a schema with a
  default port.
\<close>

definition addr_ok :: "NetAddress \<Rightarrow> bool" where
  "addr_ok a \<longleftrightarrow>
     58 \<notin> set (addr_schema a) \<and> addr_host a \<noteq> [] \<and> 58 \<notin> set (addr_host a) \<and> 47 \<notin> set (addr_host a) \<and>
     find_sub (str ''://'') (addr_path a) = None \<and> default_port (addr_schema a) (addr_port a) = addr_port a"

lemma str_delims: "str ''://'' = [58, 47, 47]" "str '':'' = [58]" "str ''/'' = [47]"
  by (simp_all add: str_def of_char_def)

definition host_port :: "bytes \<Rightarrow> u16 \<Rightarrow> bytes" where
  "host_port h p = h @ [58] @ to_string (unat p)"

definition path_part :: "bytes \<Rightarrow> bytes" where
  "path_part p = (if p \<noteq> [] then 47 # p else [])"

lemma to_string_no_delim: "58 \<notin> set (to_string n)" "47 \<notin> set (to_string n)"
  using to_string_spec [of n] digit_not by blast+

lemma no_schema_sep:
  assumes "58 \<notin> set h" "find_sub [58, 47, 47] p = None"
  shows "find_sub [58, 47, 47] (host_port h port @ path_part p) = None"
proof -
  let ?d = "[58, 47, 47] :: bytes"
  obtain b r where b: "to_string (unat port) = b # r" "is_digit b" using to_string_first by blast
  have "find_sub ?d (path_part p) = None"
    using assms(2) find_sub_skip [of ?d "[47]" p] by (auto simp: path_part_def)
  then have "find_sub ?d (to_string (unat port) @ path_part p) = None"
    using find_sub_skip [of ?d "to_string (unat port)"] to_string_no_delim by simp
  then have "find_sub ?d ([58] @ to_string (unat port) @ path_part p) = None"
    using b digit_not [OF b(2)] by simp
  then show ?thesis using find_sub_skip [of ?d h] assms(1) by (simp add: host_port_def)
qed

lemma String_parts:
  "NetAddress_String a =
     (if addr_schema a \<noteq> [] then addr_schema a @ [58, 47, 47] else []) @
     host_port (addr_host a) (addr_port a) @ path_part (addr_path a)"
  by (simp add: NetAddress_String_def str_delims host_port_def path_part_def)

lemma slash_position:
  assumes "47 \<notin> set hp"
  shows "find_sub [47] (hp @ path_part p) = (if p = [] then None else Some (length hp))"
  using find_sub_absent [of "[47]" hp] find_sub_first [of "[47]" hp p] assms by (simp add: path_part_def)

lemma port_back: "word_of_int (int (unat (p :: u16))) = p"
  by simp

lemma parse_String:
  assumes split: "StrSplit_ok split" and ok: "addr_ok a"
  shows "NetAddress_Parse split (NetAddress_String a) = Some a"
proof -
  let ?hp = "host_port (addr_host a) (addr_port a)" and ?p = "addr_path a" and ?s = "addr_schema a"
  let ?url = "?hp @ path_part ?p"
  have none: "find_sub [58, 47, 47] ?url = None"
    using no_schema_sep ok by (simp add: addr_ok_def str_delims)
  have one: "split ?url [58, 47, 47] = [?url]" by (rule split_none [OF split _ none]) simp
  have two: "split (?s @ [58, 47, 47] @ ?url) [58, 47, 47] = [?s, ?url]"
    using split_at [OF split, of "[58, 47, 47]" ?s ?url] one ok by (simp add: addr_ok_def)
  have hp: "split ?hp [58] = [addr_host a, to_string (unat (addr_port a))]"
    using split_at [OF split, of "[58]" "addr_host a"] split_one [OF split, of "[58]" "to_string (unat (addr_port a))"]
      ok to_string_no_delim by (simp add: addr_ok_def host_port_def)
  have port: "stoi (to_string (unat (addr_port a))) = Some (int (unat (addr_port a)))"
    using unsigned_less [of "addr_port a", where ?'a = nat] by (intro stoi_to_string) simp
  have "47 \<notin> set ?hp" using ok to_string_no_delim by (simp add: host_port_def addr_ok_def)
  note pos = slash_position [OF this, of ?p]
  show ?thesis
  proof (cases "?s = []")
    case True
    then show ?thesis using ok one pos hp port unfolding NetAddress_Parse_def String_parts str_delims
      by (cases "?p = []") (simp_all add: path_part_def Let_def addr_ok_def)
  next
    case False
    then show ?thesis using ok two pos hp port unfolding NetAddress_Parse_def String_parts str_delims
      by (cases "?p = []") (simp_all add: path_part_def Let_def addr_ok_def)
  qed
qed

text \<open>C31: An address printed by \<^verbatim>\<open>String\<close> is parsed back by \<^verbatim>\<open>Parse\<close>: for every schema, host, port and
  path that satisfy \<open>addr_ok\<close>, all four components are recovered.
\<close>

theorem address_roundtrip:
  assumes "StrSplit_ok split" and "addr_ok a"
  shows "NetAddress_Parse split (NetAddress_String a) = Some a"
  by (rule parse_String [OF assms])

text \<open>A splitter that follows Abseil's documentation, for evaluating the model.\<close>

function str_split_ref :: "bytes \<Rightarrow> bytes \<Rightarrow> bytes list" where
  "str_split_ref s d =
     (if d = [] then [s]
      else case find_sub d s of
             None \<Rightarrow> [s]
           | Some p \<Rightarrow> take p s # str_split_ref (drop (p + length d) s) d)"
  by pat_completeness auto
termination
proof (relation "measure (\<lambda>(s, d). length s)", goal_cases)
  case (2 s d p)
  with find_sub_SomeD [of d s p] show ?case by (cases d) auto
qed simp

declare str_split_ref.simps [simp del]

lemma str_split_ref_ok: "StrSplit_ok str_split_ref"
  unfolding StrSplit_ok_def by (subst (1) str_split_ref.simps) simp

theorem address_roundtrip_witness:
  "NetAddress_Parse str_split_ref
     (NetAddress_String \<lparr>addr_schema = str ''wss'', addr_host = str ''h.io'', addr_port = 443, addr_path = str ''a/b''\<rparr>) =
   Some \<lparr>addr_schema = str ''wss'', addr_host = str ''h.io'', addr_port = 443, addr_path = str ''a/b''\<rparr>"
  by (rule address_roundtrip [OF str_split_ref_ok]) (simp add: addr_ok_def str_def of_char_def default_port_def)

text \<open>The option \<^verbatim>\<open>port:host:port\<close> of a local or remote tunnel is parsed into its three parts when
  the ports are below \<open>2 ^ 16\<close>; a larger port below \<open>2 ^ 32\<close> is accepted and cut to 16 bits.
\<close>

theorem tunnel_option_roundtrip:
  assumes split: "StrSplit_ok split" and atoi: "SimpleAtoi_ok atoi"
    and p: "p < 2 ^ 32" and q: "q < 2 ^ 32" and h: "58 \<notin> set h"
  shows "LocalTunnelOption_Parse split atoi (to_string p @ [58] @ h @ [58] @ to_string q) =
           Some \<lparr>lt_local_port = word_of_nat p, lt_remote_host = h, lt_remote_port = word_of_nat q\<rparr> \<and>
         RemoteTunnelOption_Parse split atoi (to_string p @ [58] @ h @ [58] @ to_string q) =
           Some \<lparr>rt_remote_port = word_of_nat p, rt_local_host = h, rt_local_port = word_of_nat q\<rparr>"
proof -
  have "split (to_string p @ [58] @ h @ [58] @ to_string q) [58] = [to_string p, h, to_string q]"
    using split_at [OF split, of "[58]" "to_string p"] split_at [OF split, of "[58]" h]
      split_one [OF split, of "[58]" "to_string q"] h to_string_no_delim by simp
  moreover have "atoi (to_string p) = Some (word_of_nat p)" "atoi (to_string q) = Some (word_of_nat q)"
    using atoi p q by (simp_all add: SimpleAtoi_ok_def)
  moreover have "ucast (word_of_nat n :: u32) = (word_of_nat n :: u16)" for n
    by (rule bit_word_eqI) (simp add: bit_ucast_iff bit_of_nat_iff)
  ultimately show ?thesis
    by (simp add: LocalTunnelOption_Parse_def RemoteTunnelOption_Parse_def parse_tunnel_opt_def str_delims)
qed

text \<open>A converter that follows Abseil's documentation on digits.\<close>

definition atoi_ref :: "bytes \<Rightarrow> u32 option" where
  "atoi_ref s = (if s \<noteq> [] \<and> list_all is_digit s \<and> dec_val s < 2 ^ 32 then Some (word_of_int (dec_val s)) else None)"

lemma atoi_ref_ok: "SimpleAtoi_ok atoi_ref"
  using to_string_spec by (simp add: SimpleAtoi_ok_def atoi_ref_def list_all_iff)

theorem tunnel_option_roundtrip_witness:
  "LocalTunnelOption_Parse str_split_ref atoi_ref (to_string 48100 @ [58] @ str ''web'' @ [58] @ to_string 80) =
     Some \<lparr>lt_local_port = 48100, lt_remote_host = str ''web'', lt_remote_port = 80\<rparr>"
  using tunnel_option_roundtrip [OF str_split_ref_ok atoi_ref_ok, of 48100 80 "str ''web''"]
  by (simp add: str_def of_char_def)

end
