(* ===== verification/Tunnel_Server.thy ===== *)
theory Tunnel_Server
  imports Mux_Conn_Manager Net_Address
begin

text \<open>
  \<^verbatim>\<open>snova/server/tunnel_server.h\<close> and \<^verbatim>\<open>tunnel_server.cc\<close>: the listeners a node opens for remote
  and local tunnels, their two global tables, and the handler of the tunnel-open event; with it the
  destructor of \<^verbatim>\<open>MuxSession\<close>, which closes the listeners of its session.

  The sockets are asio's and the kernel's.  \<open>listen_env\<close> carries what resolving, opening,
  binding and listening answered; \<open>acceptors\<close> holds the endpoints of the acceptors that are open.
  \<^verbatim>\<open>start_tunnel_server\<close> suspends once, in \<^verbatim>\<open>GetEndpoint\<close>; it is the composition of the part before
  (\<open>start_tunnel_server_begin\<close>) and the part after (\<open>start_tunnel_server_resume\<close>), so that other
  coroutines can run in between.
\<close>

subsection \<open>State\<close>

type_synonym error_code = u32

definition address_in_use :: error_code where
  "address_in_use = 98"

record TunnelServer =
  ts_addr :: bytes
  ts_id :: u64
  ts_tunnel_addr :: bytes
  ts_server :: nat

record 'e tunnel_state =
  g_tunnel_servers :: "u64 \<rightharpoonup> TunnelServer"
  g_tunnel_server_addr2ids :: "bytes \<rightharpoonup> u64"
  g_tunnel_server_id_seed :: u64
  acceptors :: "nat \<rightharpoonup> 'e"
  next_acceptor :: nat
  server_loops :: "nat \<rightharpoonup> NetAddress"

definition tunnel_state_init :: "'e tunnel_state" where
  "tunnel_state_init = \<lparr>g_tunnel_servers = Map.empty, g_tunnel_server_addr2ids = Map.empty,
     g_tunnel_server_id_seed = 1, acceptors = Map.empty, next_acceptor = 0, server_loops = Map.empty\<rparr>"

record 'e listen_env =
  env_resolve :: "error_code + 'e"
  env_open_throws :: bool
  env_bind :: error_code
  env_listen :: error_code

subsection \<open>Closing\<close>

definition close_tunnel_server :: "u32 \<Rightarrow> 'e tunnel_state \<Rightarrow> 'e tunnel_state" where
  "close_tunnel_server server_id T =
     (case g_tunnel_servers T (ucast server_id) of
        None \<Rightarrow> T
      | Some tunnel_server \<Rightarrow>
          let server = ts_server tunnel_server; server_addr = ts_addr tunnel_server in
          T\<lparr>acceptors := (acceptors T)(server := None),
            g_tunnel_servers := (g_tunnel_servers T)(ucast server_id := None),
            g_tunnel_server_addr2ids := (g_tunnel_server_addr2ids T)(server_addr := None)\<rparr>)"

text \<open>The destructor of a session; \<^verbatim>\<open>close_tunnel_server(server_id)\<close> narrows the id to 32 bits.\<close>

definition MuxSession_destroy :: "MuxSession \<Rightarrow> 'e tunnel_state \<Rightarrow> 'e tunnel_state" where
  "MuxSession_destroy s T = fold (\<lambda>server_id. close_tunnel_server (ucast server_id)) (tunnel_servers s) T"

subsection \<open>Accepted connections\<close>

record RelayContext =
  rc_user :: bytes
  rc_remote_host :: bytes
  rc_remote_port :: u16
  rc_is_tls :: bool
  rc_is_tcp :: bool
  rc_direct :: bool

definition RelayContext_init :: RelayContext where
  "RelayContext_init = \<lparr>rc_user = [], rc_remote_host = [], rc_remote_port = 0,
     rc_is_tls = False, rc_is_tcp = False, rc_direct = False\<rparr>"

text \<open>\<^verbatim>\<open>handle_conn\<close>: the context with which it calls \<^verbatim>\<open>relay\<close> for the accepted socket.\<close>

definition tunnel_handle_conn :: "bytes \<Rightarrow> NetAddress \<Rightarrow> RelayContext" where
  "tunnel_handle_conn flags_user dst_addr = RelayContext_init\<lparr>rc_user := flags_user,
     rc_remote_host := addr_host dst_addr, rc_remote_port := addr_port dst_addr, rc_is_tcp := True\<rparr>"

text \<open>The loop over what \<^verbatim>\<open>async_accept\<close> answers: the connections spawned until the first error.\<close>

fun tunnel_server_loop :: "bytes \<Rightarrow> NetAddress \<Rightarrow> (error_code + 'c) list \<Rightarrow> ('c \<times> RelayContext) list" where
  "tunnel_server_loop user dst_addr [] = []"
| "tunnel_server_loop user dst_addr (Inl ec # accepts) = []"
| "tunnel_server_loop user dst_addr (Inr client # accepts) =
     (client, tunnel_handle_conn user dst_addr) # tunnel_server_loop user dst_addr accepts"

subsection \<open>Starting\<close>

text \<open>The part before the suspension: \<open>Some\<close> result when it returns at once.\<close>

definition start_tunnel_server_begin ::
  "NetAddress \<Rightarrow> NetAddress \<Rightarrow> 'e tunnel_state \<Rightarrow> (u64 \<times> error_code) option" where
  "start_tunnel_server_begin listen_addr dst_addr T =
     (case g_tunnel_server_addr2ids T (NetAddress_String listen_addr) of
        None \<Rightarrow> None
      | Some exist_id \<Rightarrow>
          (case g_tunnel_servers T exist_id of
             None \<Rightarrow> None
           | Some exist_server \<Rightarrow>
               if ts_tunnel_addr exist_server = NetAddress_String dst_addr
               then Some (ts_id exist_server, 0) else Some (0, address_in_use)))"

text \<open>The part after it: \<open>None\<close> when \<^verbatim>\<open>acceptor.open\<close> or \<^verbatim>\<open>set_option\<close> throws.\<close>

definition start_tunnel_server_resume ::
  "'e listen_env \<Rightarrow> NetAddress \<Rightarrow> NetAddress \<Rightarrow> 'e tunnel_state \<Rightarrow>
     (u64 \<times> error_code) option \<times> 'e tunnel_state" where
  "start_tunnel_server_resume env listen_addr dst_addr T =
     (let server_addr = NetAddress_String listen_addr in
      case env_resolve env of
        Inl resolve_ec \<Rightarrow> (Some (0, resolve_ec), T)
      | Inr endpoint \<Rightarrow>
          if env_open_throws env then (None, T)
          else if env_bind env \<noteq> 0 then (Some (0, env_bind env), T)
          else if env_listen env \<noteq> 0 then (Some (0, env_listen env), T)
          else
            let server_socket = next_acceptor T;
                server_id = g_tunnel_server_id_seed T;
                tunnel_server = \<lparr>ts_addr = server_addr, ts_id = server_id,
                  ts_tunnel_addr = NetAddress_String dst_addr, ts_server = server_socket\<rparr>
            in (Some (server_id, 0),
                T\<lparr>acceptors := (acceptors T)(server_socket \<mapsto> endpoint),
                  next_acceptor := server_socket + 1,
                  g_tunnel_server_id_seed := server_id + 1,
                  g_tunnel_servers := (g_tunnel_servers T)(server_id \<mapsto> tunnel_server),
                  g_tunnel_server_addr2ids := (g_tunnel_server_addr2ids T)(server_addr \<mapsto> server_id),
                  server_loops := (server_loops T)(server_socket \<mapsto> dst_addr)\<rparr>))"

definition start_tunnel_server ::
  "'e listen_env \<Rightarrow> NetAddress \<Rightarrow> NetAddress \<Rightarrow> 'e tunnel_state \<Rightarrow>
     (u64 \<times> error_code) option \<times> 'e tunnel_state" where
  "start_tunnel_server env listen_addr dst_addr T =
     (case start_tunnel_server_begin listen_addr dst_addr T of
        Some r \<Rightarrow> (Some r, T)
      | None \<Rightarrow> start_tunnel_server_resume env listen_addr dst_addr T)"

subsection \<open>The handler of the tunnel-open event\<close>

definition any_host :: "u16 \<Rightarrow> NetAddress" where
  "any_host p = \<lparr>addr_schema = [], addr_host = str ''0.0.0.0'', addr_port = p, addr_path = []\<rparr>"

definition tunnel_server_addr :: "snova_TunnelOpenRequest \<Rightarrow> NetAddress" where
  "tunnel_server_addr req = any_host (ucast (to_remote_port req))"

definition tunnel_dst_addr :: "snova_TunnelOpenRequest \<Rightarrow> NetAddress" where
  "tunnel_dst_addr req = \<lparr>addr_schema = [], addr_host = to_local_host req,
     addr_port = ucast (to_local_port req), addr_path = []\<rparr>"

definition err_word :: "int \<Rightarrow> u32" where
  "err_word n = word_of_int n"

definition tunnel_failure :: "u32 \<Rightarrow> snova_TunnelOpenResponse" where
  "tunnel_failure ec = snova_TunnelOpenResponse_init_default\<lparr>tr_success := False, tr_errc := ec\<rparr>"

definition add_tunnel :: "nat \<Rightarrow> u64 \<Rightarrow> ('r, 's) MuxConnManager \<Rightarrow> ('r, 's) MuxConnManager" where
  "add_tunnel sr server_id m = m\<lparr>sess_store := (sess_store m)(sr \<mapsto>
     (the (sess_store m sr))\<lparr>tunnel_servers := tunnel_servers (the (sess_store m sr)) @ [server_id]\<rparr>)\<rparr>"

text \<open>What the handler makes of the result of \<^verbatim>\<open>start_tunnel_server\<close>.\<close>

definition tunnel_response ::
  "nat \<Rightarrow> u64 \<times> error_code \<Rightarrow> ('r, 's) MuxConnManager \<Rightarrow> snova_TunnelOpenResponse \<times> ('r, 's) MuxConnManager" where
  "tunnel_response sr r m = (case r of (server_id, ec) \<Rightarrow>
     if ec = 0
     then (snova_TunnelOpenResponse_init_default\<lparr>tr_success := True, tr_tunnel_id := server_id\<rparr>, add_tunnel sr server_id m)
     else (tunnel_failure ec, m))"

text \<open>
  The whole handler, for a node with \<^verbatim>\<open>g_is_entry_node = is_entry\<close>.  \<^verbatim>\<open>GetSession\<close> makes the session
  when there is none, so the handler's test for an empty session never fires.
\<close>

definition tunnel_server_handler ::
  "'e listen_env \<Rightarrow> bool \<Rightarrow> bytes \<Rightarrow> u64 \<Rightarrow> MuxEvent \<Rightarrow> ('r, 's) MuxConnManager \<Rightarrow> 'e tunnel_state \<Rightarrow>
     snova_TunnelOpenResponse option \<times> ('r, 's) MuxConnManager \<times> 'e tunnel_state" where
  "tunnel_server_handler env is_entry user cid event m T =
     (case ev_body event of
        TunnelOpenRequest tunnel_request \<Rightarrow>
          if is_entry then
            (case GetSession user cid MUX_EXIT_CONN m of (session, m1) \<Rightarrow>
               case start_tunnel_server env (tunnel_server_addr tunnel_request) (tunnel_dst_addr tunnel_request) T of
                 (None, T1) \<Rightarrow> (None, m1, T1)
               | (Some r, T1) \<Rightarrow> (case tunnel_response session r m1 of (rsp, m2) \<Rightarrow> (Some rsp, m2, T1)))
          else (Some (tunnel_failure (err_word ERR_INVALID_EVENT)), m, T)
      | _ \<Rightarrow> (Some (tunnel_failure (err_word ERR_INVALID_EVENT)), m, T))"


subsection \<open>Interleavings\<close>

text \<open>
  A start that is suspended: the listen port, the destination, and the session that waits for the
  result (\<open>None\<close> for the node's own local tunnels, which \<^verbatim>\<open>main\<close> starts).
\<close>

type_synonym pending_start = "u16 \<times> NetAddress \<times> nat option"

text \<open>
  The steps of the coroutines that use the tables.  \<open>R\<close> is the endpoint of the wildcard address
  with a port.  The kernel refuses to bind an endpoint on which an acceptor is open.
\<close>

inductive tunnel_step ::
  "(u16 \<Rightarrow> 'e) \<Rightarrow> 'e tunnel_state \<times> pending_start list \<Rightarrow> 'e tunnel_state \<times> pending_start list \<Rightarrow> bool"
  for R where
  start_returns: "start_tunnel_server_begin (any_host p) dst T = Some r \<Longrightarrow> tunnel_step R (T, ps) (T, ps)"
| start_suspends: "start_tunnel_server_begin (any_host p) dst T = None \<Longrightarrow>
    tunnel_step R (T, ps) (T, (p, dst, owner) # ps)"
| start_resumes: "(p, dst, owner) \<in> set ps \<Longrightarrow> env_resolve env = Inl ec \<or> env_resolve env = Inr (R p) \<Longrightarrow>
    (env_bind env = 0 \<Longrightarrow> R p \<notin> ran (acceptors T)) \<Longrightarrow>
    start_tunnel_server_resume env (any_host p) dst T = (r, T') \<Longrightarrow>
    tunnel_step R (T, ps) (T', remove1 (p, dst, owner) ps)"
| session_dies: "tunnel_step R (T, ps) (MuxSession_destroy s T, ps)"

inductive tunnel_run ::
  "(u16 \<Rightarrow> 'e) \<Rightarrow> nat \<Rightarrow> 'e tunnel_state \<times> pending_start list \<Rightarrow> bool" for R where
  run_init: "tunnel_run R 0 (tunnel_state_init, [])"
| run_step: "tunnel_run R n c \<Longrightarrow> tunnel_step R c c' \<Longrightarrow> tunnel_run R (Suc n) c'"

text \<open>The tables are inverse to each other, and each entry has an open acceptor of its own.\<close>

definition tunnel_inv :: "(u16 \<Rightarrow> 'e) \<Rightarrow> 'e tunnel_state \<Rightarrow> bool" where
  "tunnel_inv R T \<longleftrightarrow>
     (\<forall>i t. g_tunnel_servers T i = Some t \<longrightarrow>
        ts_id t = i \<and> g_tunnel_server_addr2ids T (ts_addr t) = Some i \<and> ts_server t < next_acceptor T \<and>
        0 < i \<and> i < g_tunnel_server_id_seed T \<and>
        (\<exists>p. ts_addr t = NetAddress_String (any_host p) \<and> acceptors T (ts_server t) = Some (R p)) \<and>
        (\<forall>j u. g_tunnel_servers T j = Some u \<longrightarrow> ts_server u = ts_server t \<longrightarrow> j = i)) \<and>
     (\<forall>a i. g_tunnel_server_addr2ids T a = Some i \<longrightarrow>
        (\<exists>t. g_tunnel_servers T i = Some t \<and> ts_addr t = a)) \<and>
     (\<forall>s e. acceptors T s = Some e \<longrightarrow> (\<exists>i t. g_tunnel_servers T i = Some t \<and> ts_server t = s))"

lemma tunnel_invI:
  assumes "\<And>i t. g_tunnel_servers T i = Some t \<Longrightarrow>
        ts_id t = i \<and> g_tunnel_server_addr2ids T (ts_addr t) = Some i \<and> ts_server t < next_acceptor T \<and>
        0 < i \<and> i < g_tunnel_server_id_seed T \<and>
        (\<exists>p. ts_addr t = NetAddress_String (any_host p) \<and> acceptors T (ts_server t) = Some (R p))"
    and "\<And>i t j u. g_tunnel_servers T i = Some t \<Longrightarrow> g_tunnel_servers T j = Some u \<Longrightarrow> ts_server u = ts_server t \<Longrightarrow> j = i"
    and "\<And>a i. g_tunnel_server_addr2ids T a = Some i \<Longrightarrow> \<exists>t. g_tunnel_servers T i = Some t \<and> ts_addr t = a"
    and "\<And>s e. acceptors T s = Some e \<Longrightarrow> \<exists>i t. g_tunnel_servers T i = Some t \<and> ts_server t = s"
  shows "tunnel_inv R T"
  unfolding tunnel_inv_def using assms by (intro conjI allI impI) blast+

lemma tunnel_invD:
  assumes "tunnel_inv R T"
  shows "g_tunnel_servers T i = Some t \<Longrightarrow>
        ts_id t = i \<and> g_tunnel_server_addr2ids T (ts_addr t) = Some i \<and> ts_server t < next_acceptor T \<and>
        0 < i \<and> i < g_tunnel_server_id_seed T \<and>
        (\<exists>p. ts_addr t = NetAddress_String (any_host p) \<and> acceptors T (ts_server t) = Some (R p))"
    and "g_tunnel_servers T i = Some t \<Longrightarrow> g_tunnel_servers T j = Some u \<Longrightarrow> ts_server u = ts_server t \<Longrightarrow> j = i"
    and "g_tunnel_server_addr2ids T a = Some i \<Longrightarrow> \<exists>t. g_tunnel_servers T i = Some t \<and> ts_addr t = a"
    and "acceptors T s = Some e \<Longrightarrow> \<exists>i t. g_tunnel_servers T i = Some t \<and> ts_server t = s"
  using assms unfolding tunnel_inv_def by (elim conjE, simp)+

lemma any_host_inj: "NetAddress_String (any_host p) = NetAddress_String (any_host q) \<Longrightarrow> p = q"
proof -
  assume "NetAddress_String (any_host p) = NetAddress_String (any_host q)"
  then have "to_string (unat p) = to_string (unat q)" by (simp add: NetAddress_String_def any_host_def)
  then have "int (unat p) = int (unat q)" using to_string_spec by metis
  then have "unat p = unat q" by (simp only: of_nat_eq_iff)
  then show ?thesis by (simp only: word_unat_eq_iff)
qed

lemma close_fields:
  assumes "g_tunnel_servers T (ucast i) = Some t"
  shows "g_tunnel_servers (close_tunnel_server i T) = (g_tunnel_servers T)(ucast i := None)"
    "g_tunnel_server_addr2ids (close_tunnel_server i T) = (g_tunnel_server_addr2ids T)(ts_addr t := None)"
    "acceptors (close_tunnel_server i T) = (acceptors T)(ts_server t := None)"
    "next_acceptor (close_tunnel_server i T) = next_acceptor T"
    "g_tunnel_server_id_seed (close_tunnel_server i T) = g_tunnel_server_id_seed T"
  using assms by (simp_all add: close_tunnel_server_def Let_def)

lemma close_inv:
  assumes inv: "tunnel_inv R T"
  shows "tunnel_inv R (close_tunnel_server i T)"
proof (cases "g_tunnel_servers T (ucast i)")
  case None
  with inv show ?thesis by (simp add: close_tunnel_server_def)
next
  case (Some t)
  note t = tunnel_invD(1) [OF inv Some]
  have own: "ts_server u \<noteq> ts_server t \<and> ts_addr u \<noteq> ts_addr t"
    if "g_tunnel_servers T j = Some u" "j \<noteq> ucast i" for j u
    using that t tunnel_invD(1) [OF inv that(1)] tunnel_invD(2) [OF inv Some that(1)] by auto
  have left: "(g_tunnel_servers T)(ucast i := None) = (\<lambda>j. if j = ucast i then None else g_tunnel_servers T j)" by auto
  show ?thesis
  proof (rule tunnel_invI, unfold close_fields [OF Some] left)
    fix j u assume "(if j = ucast i then None else g_tunnel_servers T j) = Some u"
    then have j: "g_tunnel_servers T j = Some u" "j \<noteq> ucast i" by (auto split: if_splits)
    with own [OF j] tunnel_invD(1) [OF inv j(1)]
    show "ts_id u = j \<and> ((g_tunnel_server_addr2ids T)(ts_addr t := None)) (ts_addr u) = Some j \<and>
        ts_server u < next_acceptor T \<and> 0 < j \<and> j < g_tunnel_server_id_seed T \<and>
        (\<exists>p. ts_addr u = NetAddress_String (any_host p) \<and> ((acceptors T)(ts_server t := None)) (ts_server u) = Some (R p))"
      by simp
  next
    fix j u k v
    assume "(if j = ucast i then None else g_tunnel_servers T j) = Some u"
      "(if k = ucast i then None else g_tunnel_servers T k) = Some v" "ts_server v = ts_server u"
    then show "k = j" by (simp add: tunnel_invD(2) [OF inv] split: if_splits)
  next
    fix a j assume "((g_tunnel_server_addr2ids T)(ts_addr t := None)) a = Some j"
    then have a: "g_tunnel_server_addr2ids T a = Some j" "a \<noteq> ts_addr t" by (auto split: if_splits)
    with tunnel_invD(3) [OF inv a(1)] Some
    show "\<exists>u. (if j = ucast i then None else g_tunnel_servers T j) = Some u \<and> ts_addr u = a" by auto
  next
    fix s e assume "((acceptors T)(ts_server t := None)) s = Some e"
    then have s: "acceptors T s = Some e" "s \<noteq> ts_server t" by (auto split: if_splits)
    then obtain j u where "g_tunnel_servers T j = Some u" "ts_server u = s" using tunnel_invD(4) [OF inv] by blast
    moreover from this Some s have "j \<noteq> ucast i" by auto
    ultimately have "(if j = ucast i then None else g_tunnel_servers T j) = Some u \<and> ts_server u = s" by simp
    then show "\<exists>j u. (if j = ucast i then None else g_tunnel_servers T j) = Some u \<and> ts_server u = s" by blast
  qed
qed

lemma destroy_inv: "tunnel_inv R T \<Longrightarrow> tunnel_inv R (MuxSession_destroy s T)"
proof -
  have "tunnel_inv R T \<Longrightarrow> tunnel_inv R (fold (\<lambda>i. close_tunnel_server (ucast i)) is T)" for "is" :: "u64 list"
    by (induction "is" arbitrary: T) (auto intro: close_inv)
  then show "tunnel_inv R T \<Longrightarrow> tunnel_inv R (MuxSession_destroy s T)" by (simp add: MuxSession_destroy_def)
qed


text \<open>A start that got its socket: a fresh id and a new entry in both tables.\<close>

definition new_tunnel :: "'e \<Rightarrow> NetAddress \<Rightarrow> NetAddress \<Rightarrow> 'e tunnel_state \<Rightarrow> 'e tunnel_state" where
  "new_tunnel e listen_addr dst_addr T = T\<lparr>
     acceptors := (acceptors T)(next_acceptor T \<mapsto> e), next_acceptor := next_acceptor T + 1,
     g_tunnel_server_id_seed := g_tunnel_server_id_seed T + 1,
     g_tunnel_servers := (g_tunnel_servers T)(g_tunnel_server_id_seed T \<mapsto>
       \<lparr>ts_addr = NetAddress_String listen_addr, ts_id = g_tunnel_server_id_seed T,
        ts_tunnel_addr = NetAddress_String dst_addr, ts_server = next_acceptor T\<rparr>),
     g_tunnel_server_addr2ids := (g_tunnel_server_addr2ids T)(NetAddress_String listen_addr \<mapsto> g_tunnel_server_id_seed T),
     server_loops := (server_loops T)(next_acceptor T \<mapsto> dst_addr)\<rparr>"

lemma resume_cases:
  assumes "start_tunnel_server_resume env l d T = (r, T')"
  shows "T' = T \<and> (\<forall>i. r = Some (i, 0) \<longrightarrow> env_resolve env = Inl 0) \<or> (\<exists>e. env_resolve env = Inr e \<and> env_bind env = 0 \<and> env_listen env = 0 \<and>
           r = Some (g_tunnel_server_id_seed T, 0) \<and> T' = new_tunnel e l d T)"
proof (cases "env_resolve env")
  case (Inl ec)
  with assms show ?thesis by (auto simp: start_tunnel_server_resume_def)
next
  case (Inr e)
  with assms show ?thesis
    by (cases "env_open_throws env"; cases "env_bind env = 0"; cases "env_listen env = 0")
      (auto simp: start_tunnel_server_resume_def new_tunnel_def Let_def)
qed

lemma new_tunnel_inv:
  assumes inv: "tunnel_inv R T" and free: "R p \<notin> ran (acceptors T)"
    and seed: "0 < g_tunnel_server_id_seed T" "g_tunnel_server_id_seed T < g_tunnel_server_id_seed T + 1"
  shows "tunnel_inv R (new_tunnel (R p) (any_host p) dst T)"
proof -
  let ?s = "g_tunnel_server_id_seed T" and ?n = "next_acceptor T" and ?a = "NetAddress_String (any_host p)"
  have old: "i \<noteq> ?s \<and> ts_server t \<noteq> ?n \<and> ts_addr t \<noteq> ?a" if "g_tunnel_servers T i = Some t" for i t
  proof -
    note t = tunnel_invD(1) [OF inv that]
    then obtain q where q: "ts_addr t = NetAddress_String (any_host q)" "acceptors T (ts_server t) = Some (R q)" by blast
    have "q \<noteq> p" using q free by (auto simp: ran_def)
    with q any_host_inj [of q p] t show ?thesis by auto
  qed
  have lt: "i < ?s \<Longrightarrow> i < ?s + 1" for i using seed by (meson less_trans)
  show ?thesis
  proof (rule tunnel_invI)
    fix i t assume i: "g_tunnel_servers (new_tunnel (R p) (any_host p) dst T) i = Some t"
    let ?T = "new_tunnel (R p) (any_host p) dst T"
    show "ts_id t = i \<and> g_tunnel_server_addr2ids ?T (ts_addr t) = Some i \<and> ts_server t < next_acceptor ?T \<and>
        0 < i \<and> i < g_tunnel_server_id_seed ?T \<and>
        (\<exists>p. ts_addr t = NetAddress_String (any_host p) \<and> acceptors ?T (ts_server t) = Some (R p))"
    proof (cases "i = ?s")
      case True
      with i seed show ?thesis by (auto simp: new_tunnel_def)
    next
      case False
      with i have i': "g_tunnel_servers T i = Some t" by (simp add: new_tunnel_def)
      with tunnel_invD(1) [OF inv i'] old [OF i'] lt show ?thesis by (simp add: new_tunnel_def)
    qed
  next
    fix i t j u
    assume "g_tunnel_servers (new_tunnel (R p) (any_host p) dst T) i = Some t"
      "g_tunnel_servers (new_tunnel (R p) (any_host p) dst T) j = Some u" "ts_server u = ts_server t"
    then show "j = i" using old [of i t] old [of j u] tunnel_invD(2) [OF inv, of i t j u] by (auto simp: new_tunnel_def split: if_splits)
  next
    fix a i assume "g_tunnel_server_addr2ids (new_tunnel (R p) (any_host p) dst T) a = Some i"
    then show "\<exists>t. g_tunnel_servers (new_tunnel (R p) (any_host p) dst T) i = Some t \<and> ts_addr t = a"
      using old tunnel_invD(3) [OF inv, of a i] by (auto simp: new_tunnel_def split: if_splits)
  next
    fix s e assume "acceptors (new_tunnel (R p) (any_host p) dst T) s = Some e"
    then show "\<exists>i t. g_tunnel_servers (new_tunnel (R p) (any_host p) dst T) i = Some t \<and> ts_server t = s"
      using old tunnel_invD(4) [OF inv, of s e] by (fastforce simp: new_tunnel_def split: if_splits)
  qed
qed


lemma destroy_seed: "g_tunnel_server_id_seed (MuxSession_destroy s T) = g_tunnel_server_id_seed T"
proof -
  have "g_tunnel_server_id_seed (close_tunnel_server i T) = g_tunnel_server_id_seed T" for i and T :: "'a tunnel_state"
    by (simp add: close_tunnel_server_def Let_def split: option.splits)
  then have "g_tunnel_server_id_seed (fold (\<lambda>i. close_tunnel_server (ucast i)) is T) = g_tunnel_server_id_seed T"
    for "is" :: "u64 list" and T :: "'a tunnel_state"
    by (induction "is" arbitrary: T) auto
  then show ?thesis by (simp add: MuxSession_destroy_def)
qed

lemma seed_step:
  assumes "unat (s :: u64) < 2 ^ 64 - 1"
  shows "s < s + 1" "unat (s + 1) = unat s + 1"
proof -
  show "unat (s + 1) = unat s + 1" using assms by (simp add: unat_word_ariths)
  then show "s < s + 1" by (simp add: word_less_nat_alt)
qed

text \<open>The invariant and the number of ids handed out, after \<open>n\<close> steps.\<close>

lemma tunnel_run_inv:
  "tunnel_run R n c \<Longrightarrow> n < 2 ^ 64 - 1 \<Longrightarrow>
     tunnel_inv R (fst c) \<and> 0 < g_tunnel_server_id_seed (fst c) \<and> unat (g_tunnel_server_id_seed (fst c)) \<le> n + 1"
proof (induction rule: tunnel_run.induct)
  case run_init
  show ?case by (simp add: tunnel_inv_def tunnel_state_init_def)
next
  case (run_step n c c')
  then have IH: "tunnel_inv R (fst c)" "0 < g_tunnel_server_id_seed (fst c)"
    "unat (g_tunnel_server_id_seed (fst c)) \<le> n + 1" by simp_all
  from run_step.hyps(2) show ?case
  proof cases
    case (start_resumes p dst owner ps env ec T r T')
    note step = seed_step [of "g_tunnel_server_id_seed T"]
    have lim: "unat (g_tunnel_server_id_seed T) < 2 ^ 64 - 1" using IH(3) run_step.prems start_resumes(1) by simp
    from resume_cases [OF start_resumes(6)] show ?thesis
    proof
      assume "T' = T \<and> (\<forall>i. r = Some (i, 0) \<longrightarrow> env_resolve env = Inl 0)"
      with IH start_resumes show ?thesis by simp
    next
      assume "\<exists>e. env_resolve env = Inr e \<and> env_bind env = 0 \<and> env_listen env = 0 \<and>
        r = Some (g_tunnel_server_id_seed T, 0) \<and> T' = new_tunnel e (any_host p) dst T"
      then have T': "T' = new_tunnel (R p) (any_host p) dst T" and b: "env_bind env = 0" using start_resumes(4) by auto
      have "tunnel_inv R T'" unfolding T'
        using IH start_resumes(1,5) step(1) [OF lim] b by (intro new_tunnel_inv) auto
      moreover have "g_tunnel_server_id_seed T' = g_tunnel_server_id_seed T + 1" by (simp add: T' new_tunnel_def)
      moreover have "0 < g_tunnel_server_id_seed T + 1" using IH(2) start_resumes(1) less_trans [OF _ step(1) [OF lim]] by auto
      ultimately show ?thesis using IH(3) start_resumes(1,2) step(2) [OF lim] by simp
    qed
  next
    case (session_dies T ps s)
    with IH show ?thesis by (auto intro: destroy_inv simp: destroy_seed)
  qed (use IH in simp_all)
qed

lemma narrow_id: "i < 2 ^ 32 \<Longrightarrow> ucast (ucast (i :: u64) :: u32) = i"
proof -
  assume "i < 2 ^ 32"
  then have "unat i < 2 ^ 32" by (simp add: word_less_nat_alt)
  then have "unat (ucast (ucast i :: u32) :: u64) = unat i"
    by (simp add: unsigned_ucast_eq unsigned_take_bit_eq take_bit_nat_eq_self)
  then show ?thesis by (simp only: word_unat_eq_iff)
qed

lemma destroy_closes:
  assumes "i \<in> set (tunnel_servers s)" "i < 2 ^ 32"
  shows "g_tunnel_servers (MuxSession_destroy s T) i = None"
proof -
  have gone: "g_tunnel_servers T i = None \<Longrightarrow> g_tunnel_servers (close_tunnel_server k T) i = None" for k and T :: "'a tunnel_state"
    by (simp add: close_tunnel_server_def Let_def split: option.splits)
  have stays: "g_tunnel_servers T i = None \<Longrightarrow> g_tunnel_servers (fold (\<lambda>i. close_tunnel_server (ucast i)) is T) i = None"
    for "is" :: "u64 list" and T :: "'a tunnel_state"
    by (induction "is" arbitrary: T) (auto simp: gone)
  have now: "g_tunnel_servers (close_tunnel_server (ucast i) T) i = None" for T :: "'a tunnel_state"
    using narrow_id [OF assms(2)] by (simp add: close_tunnel_server_def Let_def split: option.splits)
  have "i \<in> set is \<Longrightarrow> g_tunnel_servers (fold (\<lambda>i. close_tunnel_server (ucast i)) is T) i = None"
    for "is" :: "u64 list" and T :: "'a tunnel_state"
    by (induction "is" arbitrary: T) (auto simp: stays now)
  with assms(1) show ?thesis by (simp add: MuxSession_destroy_def)
qed

lemma destroy_shrinks:
  "g_tunnel_server_addr2ids (MuxSession_destroy s T) a = Some i \<Longrightarrow> g_tunnel_server_addr2ids T a = Some i"
proof -
  have c: "g_tunnel_server_addr2ids (close_tunnel_server k T) a = Some i \<Longrightarrow> g_tunnel_server_addr2ids T a = Some i"
    for k and T :: "'a tunnel_state"
    by (simp add: close_tunnel_server_def Let_def split: option.splits if_splits)
  have "g_tunnel_server_addr2ids (fold (\<lambda>i. close_tunnel_server (ucast i)) is T) a = Some i \<Longrightarrow> g_tunnel_server_addr2ids T a = Some i"
    for "is" :: "u64 list" and T :: "'a tunnel_state"
    by (induction "is" arbitrary: T) (auto dest: c)
  then show "g_tunnel_server_addr2ids (MuxSession_destroy s T) a = Some i \<Longrightarrow> g_tunnel_server_addr2ids T a = Some i"
    by (simp add: MuxSession_destroy_def)
qed

lemma GetSession_again:
  assumes "GetSession user cid ty m = (sr, m0)"
  shows "GetSession user cid ty (add_tunnel sr i m0) = (sr, add_tunnel sr i m0)"
proof -
  have "\<exists>tabs. mux_conns m0 user = Some tabs \<and> map_of (tabs ty) cid = Some sr"
    using assms by (auto simp: GetSession_def GetUserMuxConn_def Let_def update_conv' split: option.splits)
  then show ?thesis by (auto simp: GetSession_def GetUserMuxConn_def add_tunnel_def)
qed

subsection \<open>Properties\<close>



text \<open>Two nodes' worth of concrete steps, for the witnesses.\<close>

definition env_ok :: "u16 \<Rightarrow> u16 listen_env" where
  "env_ok p = \<lparr>env_resolve = Inr p, env_open_throws = False, env_bind = 0, env_listen = 0\<rparr>"

definition web :: NetAddress where
  "web = \<lparr>addr_schema = [], addr_host = str ''web'', addr_port = 80, addr_path = []\<rparr>"

lemma sample_run: "tunnel_run (\<lambda>p. p) 2 (new_tunnel 7 (any_host 7) web tunnel_state_init, [])"
proof -
  have "start_tunnel_server_begin (any_host 7) web tunnel_state_init = None"
    by (simp add: start_tunnel_server_begin_def tunnel_state_init_def)
  from tunnel_run.run_step [OF tunnel_run.run_init tunnel_step.start_suspends [OF this, of _ "[]" None]]
  have "tunnel_run (\<lambda>p. p) 1 (tunnel_state_init, [(7, web, None)])" by simp
  moreover have "tunnel_step (\<lambda>p. p) (tunnel_state_init, [(7, web, None)])
      (new_tunnel 7 (any_host 7) web tunnel_state_init, remove1 (7, web, None) [(7, web, None)])"
    by (rule tunnel_step.start_resumes [where env = "env_ok 7" and r = "Some (1, 0)"])
      (simp_all add: env_ok_def tunnel_state_init_def start_tunnel_server_resume_def new_tunnel_def Let_def)
  ultimately show ?thesis using tunnel_run.run_step [of "\<lambda>p. p" 1] by (simp add: numeral_2_eq_2)
qed


lemma start_result:
  assumes "start_tunnel_server env l d T = (Some (i, 0), T')" and "env_resolve env \<noteq> Inl 0"
  shows "\<exists>k t. g_tunnel_server_addr2ids T' (NetAddress_String l) = Some k \<and> g_tunnel_servers T' k = Some t \<and>
           ts_id t = i \<and> ts_tunnel_addr t = NetAddress_String d"
proof (cases "start_tunnel_server_begin l d T")
  case (Some r)
  with assms(1) have "T' = T" "start_tunnel_server_begin l d T = Some (i, 0)" by (simp_all add: start_tunnel_server_def)
  then show ?thesis
    by (cases "g_tunnel_server_addr2ids T (NetAddress_String l)"; cases "g_tunnel_servers T (the (g_tunnel_server_addr2ids T (NetAddress_String l)))")
      (simp_all add: start_tunnel_server_begin_def address_in_use_def split: if_splits)
next
  case None
  with assms have "start_tunnel_server_resume env l d T = (Some (i, 0), T')" by (simp add: start_tunnel_server_def)
  from resume_cases [OF this] assms(2) show ?thesis by (auto simp: new_tunnel_def)
qed

text \<open>Starting a tunnel server that is already there is idempotent for the same destination (the
  same id, nothing changes) and is refused with \<^verbatim>\<open>address_in_use\<close> for another one, whatever the
  system calls would answer.
\<close>

theorem tunnel_start_reused:
  assumes "start_tunnel_server env l d T = (Some (i, 0), T')" and "env_resolve env \<noteq> Inl 0"
  shows "start_tunnel_server env' l d' T' =
           (if NetAddress_String d' = NetAddress_String d then (Some (i, 0), T') else (Some (0, address_in_use), T'))"
proof -
  obtain k t where "g_tunnel_server_addr2ids T' (NetAddress_String l) = Some k" "g_tunnel_servers T' k = Some t"
    "ts_id t = i" "ts_tunnel_addr t = NetAddress_String d" using start_result [OF assms] by blast
  then show ?thesis by (simp add: start_tunnel_server_def start_tunnel_server_begin_def)
qed

theorem tunnel_start_reused_witness:
  "start_tunnel_server (env_ok 9) (any_host 7) web (new_tunnel 7 (any_host 7) web tunnel_state_init) =
     (Some (1, 0), new_tunnel 7 (any_host 7) web tunnel_state_init)"
  using tunnel_start_reused [of "env_ok 7" "any_host 7" web tunnel_state_init 1 "new_tunnel 7 (any_host 7) web tunnel_state_init" "env_ok 9" web]
  by (simp add: env_ok_def start_tunnel_server_def start_tunnel_server_begin_def start_tunnel_server_resume_def
      tunnel_state_init_def new_tunnel_def Let_def)

text \<open>A tunnel opened for a session ends with it: when the handler on an entry node answers a request
  with success and an id below \<open>2 ^ 32\<close>, the session of the requesting client lists the id, and after the session's
  destructor the server is gone from both tables, so that its address can be listened on again.
\<close>

theorem tunnel_closed_with_session:
  assumes run: "tunnel_run R n (T1, ps)" "n < 2 ^ 64 - 1"
    and handler: "tunnel_server_handler env True user cid event m T = (Some rsp, m1, T1)"
    and ok: "tr_success rsp" "tr_tunnel_id rsp < 2 ^ 32" "env_resolve env \<noteq> Inl 0"
    and body: "ev_body event = TunnelOpenRequest req"
  shows "\<exists>sr s. GetSession user cid MUX_EXIT_CONN m1 = (sr, m1) \<and> sess_store m1 sr = Some s \<and>
           tr_tunnel_id rsp \<in> set (tunnel_servers s) \<and>
           g_tunnel_servers (MuxSession_destroy s T1) (tr_tunnel_id rsp) = None \<and>
           start_tunnel_server_begin (tunnel_server_addr req) d (MuxSession_destroy s T1) = None"
proof -
  let ?a = "NetAddress_String (tunnel_server_addr req)"
  obtain sr m0 where g: "GetSession user cid MUX_EXIT_CONN m = (sr, m0)" by fastforce
  obtain i where i: "start_tunnel_server env (tunnel_server_addr req) (tunnel_dst_addr req) T = (Some (i, 0), T1)"
    and e: "tr_tunnel_id rsp = i" "m1 = add_tunnel sr i m0"
    using handler body g ok(1)
    by (auto simp: tunnel_server_handler_def tunnel_response_def tunnel_failure_def split: prod.splits option.splits if_splits)
  define s where "s = (the (sess_store m0 sr))\<lparr>tunnel_servers := tunnel_servers (the (sess_store m0 sr)) @ [i]\<rparr>"
  have s: "sess_store m1 sr = Some s" "i \<in> set (tunnel_servers s)" by (simp_all add: e add_tunnel_def s_def)
  have gone: "g_tunnel_servers (MuxSession_destroy s T1) i = None"
    by (rule destroy_closes) (use s ok e in auto)
  have inv1: "tunnel_inv R T1" using tunnel_run_inv [OF run] by simp
  then have inv: "tunnel_inv R (MuxSession_destroy s T1)" by (rule destroy_inv)
  have "g_tunnel_server_addr2ids T1 ?a = Some i"
    using start_result [OF i ok(3)] tunnel_invD(1) [OF inv1] by auto
  then have "g_tunnel_server_addr2ids (MuxSession_destroy s T1) ?a = None"
    using destroy_shrinks [of s T1 ?a] tunnel_invD(3) [OF inv, of ?a i] gone
    by (cases "g_tunnel_server_addr2ids (MuxSession_destroy s T1) ?a") auto
  then show ?thesis using GetSession_again [OF g, of i] s gone e by (auto simp: start_tunnel_server_begin_def)
qed


definition web_request :: snova_TunnelOpenRequest where
  "web_request = \<lparr>to_local_host = str ''web'', to_local_port = 80, to_remote_port = 7, to_is_tcp = True\<rparr>"

definition no_conns :: "(unit, unit) MuxConnManager" where
  "no_conns = MuxConnManager_init Map.empty"

lemma web_request_addrs: "tunnel_server_addr web_request = any_host 7" "tunnel_dst_addr web_request = web"
  by (simp_all add: tunnel_server_addr_def tunnel_dst_addr_def web_request_def web_def)

lemma web_handler:
  "tunnel_server_handler (env_ok 7) True user cid (make_event (TunnelOpenRequest web_request)) m tunnel_state_init =
     (case GetSession user cid MUX_EXIT_CONN m of (sr, m1) \<Rightarrow>
        (Some (snova_TunnelOpenResponse_init_default\<lparr>tr_success := True, tr_tunnel_id := 1\<rparr>), add_tunnel sr 1 m1,
         new_tunnel 7 (any_host 7) web tunnel_state_init))"
  by (simp add: tunnel_server_handler_def make_event_def web_request_addrs env_ok_def start_tunnel_server_def
      start_tunnel_server_begin_def start_tunnel_server_resume_def tunnel_state_init_def new_tunnel_def
      tunnel_response_def Let_def split: prod.splits)

definition one_client :: "(unit, unit) MuxConnManager" where
  "one_client = add_tunnel 0 1 (snd (GetSession [] 5 MUX_EXIT_CONN no_conns))"

lemma no_conns_session:
  "GetSession [] 5 MUX_EXIT_CONN no_conns = (0, snd (GetSession [] 5 MUX_EXIT_CONN no_conns))"
  by (simp add: no_conns_def MuxConnManager_init_def GetSession_def GetUserMuxConn_def Let_def)

lemma one_client_handler:
  "tunnel_server_handler (env_ok 7) True [] 5 (make_event (TunnelOpenRequest web_request)) no_conns tunnel_state_init =
     (Some (snova_TunnelOpenResponse_init_default\<lparr>tr_success := True, tr_tunnel_id := 1\<rparr>), one_client,
      new_tunnel 7 (any_host 7) web tunnel_state_init)"
  using no_conns_session by (auto simp: web_handler one_client_def split: prod.splits)

theorem tunnel_closed_with_session_witness:
  "\<exists>sr s. GetSession [] 5 MUX_EXIT_CONN one_client = (sr, one_client) \<and> 1 \<in> set (tunnel_servers s) \<and>
     g_tunnel_servers (MuxSession_destroy s (new_tunnel 7 (any_host 7) web (tunnel_state_init :: u16 tunnel_state))) 1 = None"
  using tunnel_closed_with_session [OF sample_run _ one_client_handler, of web_request web]
  by (auto simp: env_ok_def make_event_def)

text \<open>A tunnel that two clients asked for is counted once: the second request, from another session,
  succeeds with the id of the first, both sessions list it, and the destructor of the first session
  closes the server while the second session still lists it.
\<close>

theorem tunnel_shared_closes_early:
  assumes first: "tunnel_server_handler env True u1 c1 event m T = (Some r1, m1, T1)" "tr_success r1"
    and ok: "tr_tunnel_id r1 < 2 ^ 32" "env_resolve env \<noteq> Inl 0"
    and second: "tunnel_server_handler env' True u2 c2 event m1 T1 = (Some r2, m2, T2)"
    and body: "ev_body event = TunnelOpenRequest req"
    and g: "GetSession u1 c1 MUX_EXIT_CONN m = (sr1, m0)" "GetSession u2 c2 MUX_EXIT_CONN m1 = (sr2, m1')" "sr1 \<noteq> sr2"
    and kept: "sess_store m1' sr1 = sess_store m1 sr1"
  shows "tr_success r2 \<and> tr_tunnel_id r2 = tr_tunnel_id r1 \<and> T2 = T1 \<and>
         (\<exists>s1 s2. sess_store m2 sr1 = Some s1 \<and> sess_store m2 sr2 = Some s2 \<and>
            tr_tunnel_id r1 \<in> set (tunnel_servers s1) \<and> tr_tunnel_id r1 \<in> set (tunnel_servers s2) \<and>
            g_tunnel_servers (MuxSession_destroy s1 T2) (tr_tunnel_id r1) = None)"
proof -
  obtain i where i: "start_tunnel_server env (tunnel_server_addr req) (tunnel_dst_addr req) T = (Some (i, 0), T1)"
    and e: "tr_tunnel_id r1 = i" "m1 = add_tunnel sr1 i m0"
    using first body g(1)
    by (auto simp: tunnel_server_handler_def tunnel_response_def tunnel_failure_def split: prod.splits option.splits if_splits)
  have "start_tunnel_server env' (tunnel_server_addr req) (tunnel_dst_addr req) T1 = (Some (i, 0), T1)"
    using start_result [OF i ok(2)] by (auto simp: start_tunnel_server_def start_tunnel_server_begin_def)
  then have e2: "tr_success r2" "tr_tunnel_id r2 = i" "T2 = T1" "m2 = add_tunnel sr2 i m1'"
    using second body g(2) by (auto simp: tunnel_server_handler_def tunnel_response_def)
  obtain s1 where s1: "sess_store m2 sr1 = Some s1" "i \<in> set (tunnel_servers s1)"
    using g(3) kept by (simp add: e2 e(2) add_tunnel_def)
  moreover obtain s2 where "sess_store m2 sr2 = Some s2" "i \<in> set (tunnel_servers s2)"
    by (simp add: e2 add_tunnel_def)
  moreover have "g_tunnel_servers (MuxSession_destroy s1 T2) i = None" using destroy_closes [OF s1(2)] ok e by simp
  ultimately show ?thesis using e e2 by simp
qed

theorem tunnel_shared_closes_early_witness:
  "\<exists>s1 s2. 1 \<in> set (tunnel_servers s1) \<and> 1 \<in> set (tunnel_servers s2) \<and>
     sess_store (add_tunnel 1 1 (snd (GetSession [] 6 MUX_EXIT_CONN one_client))) 0 = Some s1 \<and>
     sess_store (add_tunnel 1 1 (snd (GetSession [] 6 MUX_EXIT_CONN one_client))) 1 = Some s2 \<and>
     g_tunnel_servers (MuxSession_destroy s1 (new_tunnel 7 (any_host 7) web (tunnel_state_init :: u16 tunnel_state))) 1 = None"
proof -
  let ?r = "snova_TunnelOpenResponse_init_default\<lparr>tr_success := True, tr_tunnel_id := 1\<rparr>"
  let ?T = "new_tunnel 7 (any_host 7) web (tunnel_state_init :: u16 tunnel_state)"
  let ?ev = "make_event (TunnelOpenRequest web_request)"
  have g: "GetSession [] 6 MUX_EXIT_CONN one_client = (1, snd (GetSession [] 6 MUX_EXIT_CONN one_client))"
    "sess_store (snd (GetSession [] 6 MUX_EXIT_CONN one_client)) 0 = sess_store one_client 0"
    by (simp_all add: no_conns_def MuxConnManager_init_def GetSession_def GetUserMuxConn_def one_client_def add_tunnel_def Let_def)
  have "start_tunnel_server (env_ok 7) (any_host 7) web ?T = (Some (1, 0), ?T)"
    by (simp add: start_tunnel_server_def start_tunnel_server_begin_def new_tunnel_def tunnel_state_init_def)
  then have "tunnel_server_handler (env_ok 7) True [] 6 ?ev one_client ?T =
      (Some ?r, add_tunnel 1 1 (snd (GetSession [] 6 MUX_EXIT_CONN one_client)), ?T)"
    using g(1) by (auto simp: tunnel_server_handler_def make_event_def web_request_addrs tunnel_response_def split: prod.splits)
  from tunnel_shared_closes_early [OF one_client_handler _ _ _ this _ no_conns_session g(1), of web_request] g(2)
  show ?thesis by (auto simp: env_ok_def make_event_def)
qed

end
