(* ===== verification/Time_Wheel.thy ===== *)
theory Time_Wheel
  imports Snova_Prelude "HOL-Library.Multiset"
begin

text \<open>
  \<^verbatim>\<open>snova/util/time_wheel.h\<close> and \<^verbatim>\<open>time_wheel.cc\<close>: the timers that close idle
  connections.  Tasks are shared between the wheel and their cancel functions, so they live in a
  store and the slots hold references.  The wall clock in milliseconds is an argument of each
  operation; a task's \<^verbatim>\<open>get_active_time\<close>, when it has one, is the parameter \<open>act\<close>; its callback is
  the parameter \<open>cb\<close>, a function on the wheel (a callback may add and cancel tasks).
\<close>

subsection \<open>State\<close>

record TimerTask =
  has_active_time :: bool
  timeout_msecs :: u64
  create_time :: u64
  canceled :: bool

record TimeWheel =
  time_wheel :: "nat list list"
  tasks :: "nat \<rightharpoonup> TimerTask"
  next_task :: nat

definition TimeWheel_new :: "nat \<Rightarrow> TimeWheel" where
  "TimeWheel_new slot_size = \<lparr>time_wheel = replicate slot_size [], tasks = Map.empty, next_task = 0\<rparr>"

definition TimeWheel_instance :: TimeWheel where
  "TimeWheel_instance = TimeWheel_new 128"

subsection \<open>Operations\<close>

definition GetIdxByMillsecs :: "u64 \<Rightarrow> TimeWheel \<Rightarrow> nat" where
  "GetIdxByMillsecs ms w = unat (ms div 10) mod length (time_wheel w)"

definition push_slot :: "nat \<Rightarrow> nat \<Rightarrow> TimeWheel \<Rightarrow> TimeWheel" where
  "push_slot idx t w = w\<lparr>time_wheel := (time_wheel w)[idx := time_wheel w ! idx @ [t]]\<rparr>"

text \<open>\<open>Add\<close> and \<open>DoRegister\<close>: the new task, and the wheel.\<close>

definition DoRegister :: "bool \<Rightarrow> u64 \<Rightarrow> u64 \<Rightarrow> TimeWheel \<Rightarrow> nat \<times> TimeWheel" where
  "DoRegister active timeout now w =
     (let timeout1 = (if timeout = 0 then 500 else timeout);
          t = next_task w;
          task = \<lparr>has_active_time = active, timeout_msecs = timeout1, create_time = now, canceled = False\<rparr>;
          idx = GetIdxByMillsecs (now + timeout1) w
      in (t, push_slot idx t (w\<lparr>tasks := (tasks w)(t \<mapsto> task), next_task := t + 1\<rparr>)))"

definition TimeWheel_Add :: "u64 \<Rightarrow> u64 \<Rightarrow> TimeWheel \<Rightarrow> nat \<times> TimeWheel" where
  "TimeWheel_Add timeout now w = DoRegister False timeout now w"

definition TimeWheel_Add_active :: "u64 \<Rightarrow> u64 \<Rightarrow> TimeWheel \<Rightarrow> nat \<times> TimeWheel" where
  "TimeWheel_Add_active timeout now w = DoRegister True timeout now w"

definition cancel_func :: "nat \<Rightarrow> TimeWheel \<Rightarrow> TimeWheel" where
  "cancel_func t w =
     (case tasks w t of
        None \<Rightarrow> w
      | Some k \<Rightarrow> w\<lparr>tasks := (tasks w)(t \<mapsto> k\<lparr>canceled := True, has_active_time := False\<rparr>)\<rparr>)"

text \<open>The time a task counts from, and whether its time has come.\<close>

definition task_active :: "(nat \<Rightarrow> u64) \<Rightarrow> nat \<Rightarrow> TimerTask \<Rightarrow> u64" where
  "task_active act t k = (if has_active_time k then act t else create_time k)"

definition expired :: "(nat \<Rightarrow> u64) \<Rightarrow> u64 \<Rightarrow> nat \<Rightarrow> TimerTask \<Rightarrow> bool" where
  "expired act now t k \<longleftrightarrow> timeout_msecs k < now - task_active act t k"

text \<open>The loop over the queue taken out of a slot; the result has the tasks whose callback ran.\<close>

fun run_queue ::
  "(nat \<Rightarrow> TimeWheel \<Rightarrow> TimeWheel) \<Rightarrow> (nat \<Rightarrow> u64) \<Rightarrow> u64 \<Rightarrow> nat list \<Rightarrow> TimeWheel \<Rightarrow> nat list \<times> TimeWheel" where
  "run_queue cb act now [] w = ([], w)"
| "run_queue cb act now (t # queue) w =
     (case tasks w t of
        None \<Rightarrow> run_queue cb act now queue w
      | Some k \<Rightarrow>
          if canceled k then run_queue cb act now queue w
          else if expired act now t k
          then (case run_queue cb act now queue (cb t w) of (fired, w') \<Rightarrow> (t # fired, w'))
          else run_queue cb act now queue
                 (push_slot (GetIdxByMillsecs (task_active act t k + timeout_msecs k + 100) w) t w))"

text \<open>One round of \<^verbatim>\<open>Run\<close>, after its 99 milliseconds of sleep.\<close>

definition Run_tick ::
  "(nat \<Rightarrow> TimeWheel \<Rightarrow> TimeWheel) \<Rightarrow> (nat \<Rightarrow> u64) \<Rightarrow> u64 \<Rightarrow> TimeWheel \<Rightarrow> nat list \<times> TimeWheel" where
  "Run_tick cb act now w =
     (let idx = GetIdxByMillsecs now w in
      if time_wheel w ! idx = [] then ([], w)
      else run_queue cb act now (time_wheel w ! idx) (w\<lparr>time_wheel := (time_wheel w)[idx := []]\<rparr>))"

subsection \<open>Lemmas\<close>

text \<open>Rounds of the loop, each with its clock and the tasks' active times; the result has what fired, and when.\<close>

fun Run_rounds ::
  "(nat \<Rightarrow> TimeWheel \<Rightarrow> TimeWheel) \<Rightarrow> (u64 \<times> (nat \<Rightarrow> u64)) list \<Rightarrow> TimeWheel \<Rightarrow> (u64 \<times> nat) list \<times> TimeWheel" where
  "Run_rounds cb [] w = ([], w)"
| "Run_rounds cb ((now, act) # rounds) w =
     (case Run_tick cb act now w of (fired, w1) \<Rightarrow>
      case Run_rounds cb rounds w1 of (more_fired, w2) \<Rightarrow> (map (Pair now) fired @ more_fired, w2))"

definition in_wheel :: "TimeWheel \<Rightarrow> nat multiset" where
  "in_wheel w = mset (concat (time_wheel w))"

definition wheel_ok :: "TimeWheel \<Rightarrow> bool" where
  "wheel_ok w \<longleftrightarrow> time_wheel w \<noteq> [] \<and> (\<forall>t. t \<in># in_wheel w \<longrightarrow> tasks w t \<noteq> None) \<and>
     (\<forall>t\<ge>next_task w. tasks w t = None)"

lemma mset_concat_update:
  "i < length xs \<Longrightarrow> mset (concat (xs[i := ys])) + mset (xs ! i) = mset (concat xs) + mset ys"
proof (induction xs arbitrary: i)
  case (Cons x xs)
  then show ?case by (cases i) (auto simp: add.commute add.left_commute union_assoc)
qed simp

lemma in_wheel_push: "idx < length (time_wheel w) \<Longrightarrow> in_wheel (push_slot idx t w) = add_mset t (in_wheel w)"
  using mset_concat_update [of idx "time_wheel w" "time_wheel w ! idx @ [t]"]
  by (simp add: in_wheel_def push_slot_def)

lemma in_wheel_clear:
  "idx < length (time_wheel w) \<Longrightarrow>
   in_wheel w = in_wheel (w\<lparr>time_wheel := (time_wheel w)[idx := []]\<rparr>) + mset (time_wheel w ! idx)"
  using mset_concat_update [of idx "time_wheel w" "[]"] by (simp add: in_wheel_def)

lemma GetIdx_less: "time_wheel w \<noteq> [] \<Longrightarrow> GetIdxByMillsecs ms w < length (time_wheel w)"
  by (simp add: GetIdxByMillsecs_def)

lemma push_slot_simps [simp]:
  "tasks (push_slot i t w) = tasks w" "next_task (push_slot i t w) = next_task w"
  "length (time_wheel (push_slot i t w)) = length (time_wheel w)"
  "(time_wheel (push_slot i t w) = []) = (time_wheel w = [])"
  by (simp_all add: push_slot_def)

lemma run_queue_accounts:
  assumes "time_wheel w \<noteq> []" "run_queue (\<lambda>_ w. w) act now q w = (fired, w')"
  shows "tasks w' = tasks w \<and>
    in_wheel w + mset (filter (\<lambda>t. case tasks w t of Some k \<Rightarrow> \<not> canceled k | None \<Rightarrow> False) q) =
      in_wheel w' + mset fired \<and>
    (\<forall>t\<in>set fired. t \<in> set q \<and> (\<exists>k. tasks w t = Some k \<and> \<not> canceled k \<and> expired act now t k))"
  using assms
proof (induction q arbitrary: w fired w')
  case (Cons t q)
  show ?case
  proof (cases "tasks w t")
    case None
    with Cons show ?thesis by auto
  next
    case (Some k)
    show ?thesis
    proof (cases "canceled k \<or> expired act now t k")
      case True
      with Some Cons show ?thesis by (auto split: prod.splits if_splits)
    next
      case False
      let ?i = "GetIdxByMillsecs (task_active act t k + timeout_msecs k + 100) w"
      have "run_queue (\<lambda>_ w. w) act now q (push_slot ?i t w) = (fired, w')"
        using Some False Cons.prems(2) by simp
      from Cons.IH [OF _ this] Cons.prems(1) Some False in_wheel_push [OF GetIdx_less [OF Cons.prems(1)]]
      show ?thesis by auto
    qed
  qed
qed simp

lemma DoRegister_effect:
  assumes "wheel_ok w" "DoRegister active timeout now w = (t, w')"
  shows "t = next_task w \<and> in_wheel w' = add_mset t (in_wheel w) \<and> wheel_ok w' \<and>
    tasks w' = (tasks w)(t \<mapsto> \<lparr>has_active_time = active, timeout_msecs = if timeout = 0 then 500 else timeout,
      create_time = now, canceled = False\<rparr>)"
proof -
  let ?w1 = "w\<lparr>tasks := (tasks w)(t \<mapsto> \<lparr>has_active_time = active, timeout_msecs = if timeout = 0 then 500 else timeout,
      create_time = now, canceled = False\<rparr>), next_task := t + 1\<rparr>"
  let ?i = "GetIdxByMillsecs (now + (if timeout = 0 then 500 else timeout)) w"
  have t: "t = next_task w" and w': "w' = push_slot ?i t ?w1" using assms(2) by (auto simp: DoRegister_def Let_def)
  have "?i < length (time_wheel ?w1)" using assms(1) GetIdx_less by (simp add: wheel_ok_def)
  from in_wheel_push [OF this] have "in_wheel w' = add_mset t (in_wheel w)" by (simp add: w' in_wheel_def)
  then show ?thesis using assms(1) t by (auto simp: w' wheel_ok_def)
qed

lemma cancel_func_effect:
  "in_wheel (cancel_func t w) = in_wheel w" "u \<noteq> t \<Longrightarrow> tasks (cancel_func t w) u = tasks w u"
  "tasks w t = Some k \<Longrightarrow> tasks (cancel_func t w) t = Some (k\<lparr>canceled := True, has_active_time := False\<rparr>)"
  "wheel_ok w \<Longrightarrow> wheel_ok (cancel_func t w)"
  by (auto simp: cancel_func_def in_wheel_def wheel_ok_def split: option.split)

text \<open>A queue run only adds to the slots, and every live expired task of the queue fires.\<close>

lemma run_queue_keeps:
  assumes "time_wheel w \<noteq> []" "run_queue (\<lambda>_ w. w) act now q w = (fired, w')"
  shows "next_task w' = next_task w \<and> length (time_wheel w') = length (time_wheel w) \<and>
    (\<forall>i<length (time_wheel w). set (time_wheel w ! i) \<subseteq> set (time_wheel w' ! i))"
  using assms
proof (induction q arbitrary: w fired w')
  case (Cons t q)
  show ?case
  proof (cases "\<exists>k. tasks w t = Some k \<and> \<not> canceled k \<and> \<not> expired act now t k")
    case True
    then obtain k where k: "tasks w t = Some k" "\<not> canceled k" "\<not> expired act now t k" by blast
    let ?j = "GetIdxByMillsecs (task_active act t k + timeout_msecs k + 100) w"
    have run: "run_queue (\<lambda>_ w. w) act now q (push_slot ?j t w) = (fired, w')" using k Cons.prems(2) by simp
    have grow: "set (time_wheel w ! i) \<subseteq> set (time_wheel (push_slot ?j t w) ! i)" if "i < length (time_wheel w)" for i
      using that by (cases "i = ?j") (auto simp: push_slot_def)
    from Cons.IH [OF _ run] Cons.prems(1) show ?thesis by simp (meson grow subset_trans)
  next
    case False
    with Cons show ?thesis by (fastforce split: option.splits if_splits prod.splits)
  qed
qed simp

lemma run_queue_fires:
  assumes "t \<in> set q" "tasks w t = Some k" "\<not> canceled k" "expired act now t k"
    "run_queue (\<lambda>_ w. w) act now q w = (fired, w')"
  shows "t \<in> set fired"
  using assms
proof (induction q arbitrary: w fired w')
  case (Cons u q)
  show ?case
  proof (cases "u = t")
    case True
    with Cons.prems show ?thesis by (auto split: prod.splits)
  next
    case False
    then have "t \<in> set q" using Cons.prems(1) by simp
    note IH = Cons.IH [OF this _ Cons.prems(3,4)]
    have pushed: "tasks (push_slot i u w) t = Some k" for i using Cons.prems(2) by simp
    from Cons.prems(5) show ?thesis
      by (auto split: option.splits if_splits prod.splits intro: IH [OF Cons.prems(2)] IH [OF pushed])
  qed
qed simp

text \<open>
  A tick lands in a slot when the clock, taken modulo the wheel's 1280 milliseconds, is in the
  slot's ten.  Thirteen ticks of 99 milliseconds are one turn and seven milliseconds.
\<close>

lemma tick_phase:
  fixes d :: nat
  assumes "d < 1280"
  shows "\<exists>k\<le>194. (d + 99 * k) mod 1280 < 10"
proof -
  define j where "j = (1280 - d) div 99"
  define e where "e = 1280 - d - 99 * j"
  define m where "m = (e + 6) div 7"
  have j: "j \<le> 12" "99 * j \<le> 1280 - d" "e < 99" using assms by (auto simp: j_def e_def)
  have m: "e \<le> 7 * m" "7 * m \<le> e + 6" "m \<le> 14" using j(3) unfolding m_def by linarith+
  have "d + 99 * (j + 13 * m) = 1280 * (m + 1) + (7 * m - e)"
    using j m assms unfolding e_def by (simp add: algebra_simps)
  then have "(d + 99 * (j + 13 * m)) mod 1280 = (7 * m - e) mod 1280"
    by (metis mod_mult_self2 add.commute)
  also have "\<dots> < 10" using m by simp
  finally show ?thesis using j m by (intro exI [of _ "j + 13 * m"]) auto
qed

lemma GetIdx_nat:
  "n < 2 ^ 64 \<Longrightarrow> GetIdxByMillsecs (word_of_nat n) w = n div 10 mod length (time_wheel w)"
  by (simp add: GetIdxByMillsecs_def unat_div unat_of_nat)

lemma phase_slot:
  fixes t :: nat
  assumes "(t + 1280 - 10 * i) mod 1280 < 10" "i < 128"
  shows "t div 10 mod 128 = i"
proof -
  define r where "r = (t + 1280 - 10 * i) mod 1280"
  define q where "q = (t + 1280 - 10 * i) div 1280"
  have "t + 1280 - 10 * i = 1280 * q + r" by (simp add: q_def r_def)
  then have "t + 1280 = 10 * (128 * q + i) + r" using assms(2) by simp
  then have "(t + 1280) div 10 = 128 * q + i" using assms(1) by (simp add: r_def)
  then have "t div 10 + 128 = 128 * q + i" by simp
  then have "(t div 10 + 128) mod 128 = i" using assms(2) by simp
  then show ?thesis by simp
qed

lemma slot_visited:
  fixes t0 :: nat
  assumes "i < 128"
  shows "\<exists>k\<le>194. (t0 + 99 * k) div 10 mod 128 = i"
proof -
  let ?d = "(t0 + 1280 - 10 * i) mod 1280"
  obtain k where k: "k \<le> 194" "(?d + 99 * k) mod 1280 < 10" using tick_phase [of ?d] by auto
  have "t0 + 99 * k + 1280 - 10 * i = (t0 + 1280 - 10 * i) + 99 * k" using assms by simp
  then have "(t0 + 99 * k + 1280 - 10 * i) mod 1280 < 10" using k(2) by (simp add: mod_add_left_eq)
  from phase_slot [OF this assms] k(1) show ?thesis by blast
qed

subsection \<open>Properties\<close>

text \<open>One round: every task stays, fires or was canceled.\<close>

lemma Run_tick_accounts:
  assumes "wheel_ok w" "Run_tick (\<lambda>_ w. w) act now w = (fired, w')"
  shows "in_wheel w = in_wheel w' + mset fired +
      mset (filter (\<lambda>t. \<exists>k. tasks w t = Some k \<and> canceled k) (time_wheel w ! GetIdxByMillsecs now w)) \<and>
    (\<forall>t\<in>set fired. \<exists>k. tasks w t = Some k \<and> \<not> canceled k \<and> expired act now t k) \<and>
    tasks w' = tasks w \<and> wheel_ok w'"
proof -
  let ?i = "GetIdxByMillsecs now w"
  let ?q = "time_wheel w ! ?i" and ?w1 = "w\<lparr>time_wheel := (time_wheel w)[?i := []]\<rparr>"
  have ne: "time_wheel w \<noteq> []" and known: "\<And>t. t \<in># in_wheel w \<Longrightarrow> tasks w t \<noteq> None"
    using assms(1) by (auto simp: wheel_ok_def)
  have i: "?i < length (time_wheel w)" by (rule GetIdx_less [OF ne])
  note clear = in_wheel_clear [OF i]
  show ?thesis
  proof (cases "?q = []")
    case True
    with assms(2) have "fired = []" "w' = w" by (simp_all add: Run_tick_def)
    with True assms(1) show ?thesis by simp
  next
    case False
    then have run: "run_queue (\<lambda>_ w. w) act now ?q ?w1 = (fired, w')" using assms(2) by (simp add: Run_tick_def Let_def)
    have tk: "tasks ?w1 = tasks w" by simp
    note acc = run_queue_accounts [OF _ run, unfolded tk]
    let ?live = "\<lambda>t. case tasks w t of Some k \<Rightarrow> \<not> canceled k | None \<Rightarrow> False"
    have "mset (filter (\<lambda>t. \<exists>k. tasks w t = Some k \<and> canceled k) ?q) = mset (filter (\<lambda>t. \<not> ?live t) ?q)"
    proof (intro arg_cong [where f = mset] filter_cong refl)
      fix t assume "t \<in> set ?q"
      then have "tasks w t \<noteq> None" using known [of t] clear by simp
      then show "(\<exists>k. tasks w t = Some k \<and> canceled k) \<longleftrightarrow> \<not> ?live t" by auto
    qed
    then have part: "mset ?q = mset (filter ?live ?q) + mset (filter (\<lambda>t. \<exists>k. tasks w t = Some k \<and> canceled k) ?q)"
      using multiset_partition [of "mset ?q" ?live] by (simp only: mset_filter)
    have "in_wheel ?w1 + mset (filter ?live ?q) = in_wheel w' + mset fired" using acc ne by simp
    then have "in_wheel w = in_wheel w' + mset fired +
        mset (filter (\<lambda>t. \<exists>k. tasks w t = Some k \<and> canceled k) ?q)"
      by (simp only: clear part add.assoc [symmetric])
    moreover have "\<forall>t\<in>set fired. t \<in> set ?q \<and> (\<exists>k. tasks w t = Some k \<and> \<not> canceled k \<and> expired act now t k)"
      using acc ne by simp
    moreover have "tasks w' = tasks w \<and> next_task w' = next_task w \<and> time_wheel w' \<noteq> []"
      using acc ne run_queue_keeps [OF _ run] by auto
    ultimately show ?thesis using assms(1) by (auto simp: wheel_ok_def)
  qed
qed

lemma Run_tick_keeps:
  assumes "time_wheel w \<noteq> []" "Run_tick (\<lambda>_ w. w) act now w = (fired, w')"
  shows "length (time_wheel w') = length (time_wheel w) \<and>
    (\<forall>i<length (time_wheel w). i \<noteq> GetIdxByMillsecs now w \<longrightarrow> set (time_wheel w ! i) \<subseteq> set (time_wheel w' ! i))"
proof -
  let ?i = "GetIdxByMillsecs now w"
  let ?w1 = "w\<lparr>time_wheel := (time_wheel w)[?i := []]\<rparr>"
  show ?thesis
  proof (cases "time_wheel w ! ?i = []")
    case False
    then have "run_queue (\<lambda>_ w. w) act now (time_wheel w ! ?i) ?w1 = (fired, w')"
      using assms(2) by (simp add: Run_tick_def Let_def)
    from run_queue_keeps [OF _ this] assms(1) show ?thesis by simp (metis nth_list_update_neq)
  qed (use assms(2) in \<open>simp add: Run_tick_def\<close>)
qed

lemma Run_tick_fires:
  assumes "t \<in> set (time_wheel w ! GetIdxByMillsecs now w)" "tasks w t = Some k" "\<not> canceled k" "expired act now t k"
    "Run_tick (\<lambda>_ w. w) act now w = (fired, w')"
  shows "t \<in> set fired"
proof -
  have "run_queue (\<lambda>_ w. w) act now (time_wheel w ! GetIdxByMillsecs now w)
      (w\<lparr>time_wheel := (time_wheel w)[GetIdxByMillsecs now w := []]\<rparr>) = (fired, w')"
    using assms(1,5) by (auto simp: Run_tick_def Let_def split: if_splits)
  from run_queue_fires [OF assms(1) _ assms(3,4) this] assms(2) show ?thesis by simp
qed

lemma Run_rounds_ConsE:
  assumes "Run_rounds cb (r # rounds) w = (fired, w')"
  obtains now act f1 w1 f2 where "r = (now, act)" "Run_tick cb act now w = (f1, w1)"
    "Run_rounds cb rounds w1 = (f2, w')" "fired = map (Pair now) f1 @ f2"
  using assms by (cases r) (auto split: prod.splits)

lemma Run_rounds_keeps:
  assumes "wheel_ok w" "Run_rounds (\<lambda>_ w. w) rounds w = (fired, w')"
  shows "wheel_ok w' \<and> tasks w' = tasks w \<and> length (time_wheel w') = length (time_wheel w)"
  using assms
proof (induction rounds arbitrary: w fired)
  case (Cons r rounds)
  from Cons.prems(2) obtain now act f1 w1 f2 where one: "Run_tick (\<lambda>_ w. w) act now w = (f1, w1)"
    and rest: "Run_rounds (\<lambda>_ w. w) rounds w1 = (f2, w')" by (rule Run_rounds_ConsE)
  have "time_wheel w \<noteq> []" using Cons.prems(1) by (simp add: wheel_ok_def)
  from Cons.IH [OF _ rest] Run_tick_accounts [OF Cons.prems(1) one] Run_tick_keeps [OF this one] show ?case by simp
qed simp

text \<open>C32: no timer is lost, repeated or early.  In any rounds of the timer loop, at whatever times and
  with callbacks that leave the wheel alone, every task of the wheel is accounted for exactly once: it
  is still in the wheel, or its callback ran, or it was canceled and is dropped.  A callback runs only
  for a task that is not canceled and whose timeout has passed since it was last active.\<close>

theorem timer_accounting:
  assumes "wheel_ok w" "Run_rounds (\<lambda>_ w. w) rounds w = (fired, w')"
  shows "\<exists>dropped. in_wheel w = in_wheel w' + mset (map snd fired) + dropped \<and>
    (\<forall>t\<in>#dropped. \<exists>k. tasks w t = Some k \<and> canceled k) \<and>
    (\<forall>(now, t)\<in>set fired. \<exists>act k. (now, act) \<in> set rounds \<and> tasks w t = Some k \<and> \<not> canceled k \<and>
       timeout_msecs k < now - task_active act t k)"
  using assms
proof (induction rounds arbitrary: w fired)
  case (Cons r rounds)
  from Cons.prems(2) obtain now act f1 w1 f2 where r: "r = (now, act)" and one: "Run_tick (\<lambda>_ w. w) act now w = (f1, w1)"
    and rest: "Run_rounds (\<lambda>_ w. w) rounds w1 = (f2, w')" and f: "fired = map (Pair now) f1 @ f2" by (rule Run_rounds_ConsE)
  note acc = Run_tick_accounts [OF Cons.prems(1) one]
  from acc have "wheel_ok w1" "tasks w1 = tasks w" by simp_all
  from Cons.IH [OF this(1) rest] this(2) obtain d where
    d: "in_wheel w1 = in_wheel w' + mset (map snd f2) + d" "\<forall>t\<in>#d. \<exists>k. tasks w t = Some k \<and> canceled k"
    "\<forall>(now, t)\<in>set f2. \<exists>act k. (now, act) \<in> set rounds \<and> tasks w t = Some k \<and> \<not> canceled k \<and>
       timeout_msecs k < now - task_active act t k" by auto
  let ?c = "mset (filter (\<lambda>t. \<exists>k. tasks w t = Some k \<and> canceled k) (time_wheel w ! GetIdxByMillsecs now w))"
  have fst: "\<forall>(n, t)\<in>set (map (Pair now) f1). \<exists>act k. (n, act) \<in> set (r # rounds) \<and> tasks w t = Some k \<and>
      \<not> canceled k \<and> timeout_msecs k < n - task_active act t k"
    using conjunct1 [OF conjunct2 [OF acc]] r unfolding expired_def by auto
  have "in_wheel w = in_wheel w' + mset (map snd fired) + (d + ?c)"
    using conjunct1 [OF acc] d(1) f by (simp add: comp_def ac_simps)
  moreover have "\<forall>t\<in>#d + ?c. \<exists>k. tasks w t = Some k \<and> canceled k" using d(2) by auto
  moreover have "\<forall>(now, t)\<in>set fired. \<exists>act k. (now, act) \<in> set (r # rounds) \<and> tasks w t = Some k \<and>
      \<not> canceled k \<and> timeout_msecs k < now - task_active act t k"
    unfolding f set_append ball_Un using fst d(3) by (intro conjI) (assumption, fastforce)
  ultimately show ?case by blast
qed simp

definition sample_wheel :: TimeWheel where
  "sample_wheel = snd (TimeWheel_Add 1000 5000 TimeWheel_instance)"

lemma sample_wheel_eq:
  "in_wheel sample_wheel = {#0#}" "length (time_wheel sample_wheel) = 128" "next_task sample_wheel = 1"
  "tasks sample_wheel = [0 \<mapsto> \<lparr>has_active_time = False, timeout_msecs = 1000, create_time = 5000, canceled = False\<rparr>]"
  by (simp_all add: sample_wheel_def TimeWheel_Add_def DoRegister_def TimeWheel_instance_def TimeWheel_new_def Let_def
      in_wheel_push GetIdxByMillsecs_def in_wheel_def [of "\<lparr>time_wheel = replicate 128 [], tasks = x, next_task = y\<rparr>" for x y])

lemma sample_wheel_ok: "wheel_ok sample_wheel"
proof -
  have "time_wheel sample_wheel \<noteq> []" using sample_wheel_eq(2) by auto
  then show ?thesis by (simp add: wheel_ok_def sample_wheel_eq)
qed

theorem timer_accounting_witness:
  "\<exists>fired w'. Run_rounds (\<lambda>_ w. w) [(7280, \<lambda>_. 0), (7379, \<lambda>_. 0)] sample_wheel = (fired, w') \<and>
     in_wheel sample_wheel = in_wheel w' + mset (map snd fired)"
proof -
  obtain fired w' where r: "Run_rounds (\<lambda>_ w. w) [(7280, \<lambda>_. 0), (7379, \<lambda>_. 0)] sample_wheel = (fired, w')"
    by fastforce
  from timer_accounting [OF sample_wheel_ok r] obtain d where
    d: "in_wheel sample_wheel = in_wheel w' + mset (map snd fired) + d"
      "\<forall>t\<in>#d. \<exists>k. tasks sample_wheel t = Some k \<and> canceled k" by blast
  from d(2) have "d = {#}" unfolding sample_wheel_eq by (cases d) (auto split: if_splits)
  with d(1) r show ?thesis by auto
qed

text \<open>Every slot's turn comes: rounds 99 milliseconds apart visit each of the 128 slots within 194 rounds.\<close>

lemma every_slot_visited:
  assumes "length (time_wheel w) = 128" "i < 128" "t0 + 99 * 194 < 2 ^ 64"
  shows "\<exists>k\<le>194. GetIdxByMillsecs (word_of_nat (t0 + 99 * k)) w = i"
proof -
  obtain k where k: "k \<le> 194" "(t0 + 99 * k) div 10 mod 128 = i" using slot_visited [OF assms(2)] by blast
  have "t0 + 99 * k < 2 ^ 64" using assms(3) k(1) by simp
  from GetIdx_nat [OF this, of w] k assms(1) show ?thesis by (intro exI [of _ k]) simp
qed

lemma clock_diff: "a \<le> n \<Longrightarrow> n < 2 ^ 64 \<Longrightarrow> unat (word_of_nat n - word_of_nat a :: u64) = n - a"
  by (subst unat_sub) (simp_all add: word_le_nat_alt unat_of_nat)

text \<open>A task stays in its slot until the slot is visited.\<close>

lemma slot_fires:
  assumes "wheel_ok w" "i < length (time_wheel w)" "t \<in> set (time_wheel w ! i)" "tasks w t = Some k" "\<not> canceled k"
    "\<forall>(now, act)\<in>set rounds. expired act now t k" "\<exists>(now, act)\<in>set rounds. GetIdxByMillsecs now w = i"
    "Run_rounds (\<lambda>_ w. w) rounds w = (fired, w')"
  shows "t \<in> snd ` set fired"
  using assms
proof (induction rounds arbitrary: w fired)
  case (Cons r rounds)
  from Cons.prems(8) obtain now act f1 w1 f2 where r: "r = (now, act)" and one: "Run_tick (\<lambda>_ w. w) act now w = (f1, w1)"
    and rest: "Run_rounds (\<lambda>_ w. w) rounds w1 = (f2, w')" and f: "fired = map (Pair now) f1 @ f2" by (rule Run_rounds_ConsE)
  have ne: "time_wheel w \<noteq> []" using Cons.prems(1) by (simp add: wheel_ok_def)
  note keeps = Run_tick_keeps [OF ne one]
  show ?case
  proof (cases "GetIdxByMillsecs now w = i")
    case True
    have "t \<in> set f1" by (rule Run_tick_fires [OF _ Cons.prems(4,5) _ one]) (use True Cons.prems r in auto)
    with f show ?thesis by force
  next
    case False
    have idx: "GetIdxByMillsecs n w1 = GetIdxByMillsecs n w" for n using keeps by (simp add: GetIdxByMillsecs_def)
    have w1: "wheel_ok w1" "tasks w1 t = Some k" using Run_tick_accounts [OF Cons.prems(1) one] Cons.prems(4) by simp_all
    have slot: "i < length (time_wheel w1)" "t \<in> set (time_wheel w1 ! i)" using keeps Cons.prems(2,3) False by auto
    have "\<forall>(now, act)\<in>set rounds. expired act now t k" "\<exists>(now, act)\<in>set rounds. GetIdxByMillsecs now w1 = i"
      using Cons.prems(6,7) False r idx by auto
    from Cons.IH [OF w1(1) slot w1(2) Cons.prems(5) this rest] f show ?thesis by auto
  qed
qed simp

lemma Run_rounds_append:
  "Run_rounds cb (xs @ ys) w =
     (case Run_rounds cb xs w of (f1, w1) \<Rightarrow> case Run_rounds cb ys w1 of (f2, w2) \<Rightarrow> (f1 @ f2, w2))"
  by (induction xs arbitrary: w) (auto split: prod.splits)

text \<open>While it does not fire, a live task stays in the wheel.\<close>

lemma Run_rounds_stays:
  assumes "wheel_ok w" "t \<in># in_wheel w" "tasks w t = Some k" "\<not> canceled k" "Run_rounds (\<lambda>_ w. w) rounds w = (fired, w')"
  shows "t \<in> snd ` set fired \<or> t \<in># in_wheel w'"
  using assms
proof (induction rounds arbitrary: w fired)
  case (Cons r rounds)
  from Cons.prems(5) obtain now act f1 w1 f2 where one: "Run_tick (\<lambda>_ w. w) act now w = (f1, w1)"
    and rest: "Run_rounds (\<lambda>_ w. w) rounds w1 = (f2, w')" and f: "fired = map (Pair now) f1 @ f2" by (rule Run_rounds_ConsE)
  note acc = Run_tick_accounts [OF Cons.prems(1) one]
  have "t \<in># in_wheel w1 + mset f1 +
      mset (filter (\<lambda>t. \<exists>k. tasks w t = Some k \<and> canceled k) (time_wheel w ! GetIdxByMillsecs now w))"
    using conjunct1 [OF acc] Cons.prems(2) by simp
  then consider "t \<in> set f1" | "t \<in># in_wheel w1" using Cons.prems(3,4) by auto
  then show ?case
  proof cases
    case 1
    with f show ?thesis by force
  next
    case 2
    from acc have "wheel_ok w1" "tasks w1 t = Some k" using Cons.prems(3) by simp_all
    from Cons.IH [OF this(1) 2 this(2) Cons.prems(4) rest] f show ?thesis by auto
  qed
qed simp



end
