(* ===== verification/Mux_Dispatch.thy ===== *)
theory Mux_Dispatch
  imports Tunnel_Server Time_Wheel
begin

text \<open>
  The read side of \<^verbatim>\<open>snova/mux/mux_connection.cc\<close>: \<^verbatim>\<open>ProcessReadEvent\<close> hands each event a connection
  reads to the part of the node it is for, and \<^verbatim>\<open>ReadEventLoop\<close> repeats this until an error.  The
  node is the record \<open>node\<close> of the global tables: the connection manager with the connections, the
  tunnel servers, the streams, the timers, the relay coroutines that were spawned, the retired
  connections with the timer task that will close each, and the server's connection counter.

  A connection is a reference into the manager's store.  Its two \<^verbatim>\<open>std::function\<close> members are
  arguments: \<open>server_relay\<close>, whether a relay handler is set, and \<open>retire_callback\<close>.
\<close>

subsection \<open>State\<close>

record ('r, 's, 'e, 'k, 'w) node =
  nd_mgr :: "('r, 's) MuxConnManager"
  nd_tunnels :: "'e tunnel_state"
  nd_streams :: "('k, 'w) mux_world"
  nd_wheel :: TimeWheel
  nd_relays :: "(bytes \<times> u64 \<times> MuxEvent) list"
  nd_retiring :: "(nat \<times> nat) list"
  nd_server_conn_num :: u32

text \<open>What the node's connections are made of, and the answers of the system to a listen.\<close>

record ('r, 's, 'e, 'k, 'w) node_env =
  ne_dec :: "('r, MuxEvent) decoder"
  ne_enc :: "('r, MuxEvent) encoder"
  ne_rd :: "'s reader"
  ne_wr :: "'s writer"
  ne_close :: "'s \<Rightarrow> 's"
  ne_tm :: "'s \<Rightarrow> u64"
  ne_ops :: "('k, 'w) writer_ops"
  ne_listen :: "'e listen_env"
  ne_is_entry :: bool

datatype 'n progress =
    Finished int 'n
  | Offering nat bytes nat 'n
  | Throws 'n

definition get_conn :: "nat \<Rightarrow> ('r, 's, 'e, 'k, 'w) node \<Rightarrow> ('r, 's) MuxConnection" where
  "get_conn x N = the (conn_store (nd_mgr N) x)"

definition set_conn :: "nat \<Rightarrow> ('r, 's) MuxConnection \<Rightarrow> ('r, 's, 'e, 'k, 'w) node \<Rightarrow> ('r, 's, 'e, 'k, 'w) node" where
  "set_conn x c N = N\<lparr>nd_mgr := (nd_mgr N)\<lparr>conn_store := (conn_store (nd_mgr N))(x \<mapsto> c)\<rparr>\<rparr>"

definition conn_write ::
  "('r, 's, 'e, 'k, 'w) node_env \<Rightarrow> nat \<Rightarrow> MuxEvent \<Rightarrow> ('r, 's, 'e, 'k, 'w) node \<Rightarrow> bool \<times> ('r, 's, 'e, 'k, 'w) node" where
  "conn_write env x ev N =
     (case MuxConnection_Write (ne_enc env) (ne_wr env) (ne_tm env) (get_conn x N) ev of
        (ok, c) \<Rightarrow> (ok, set_conn x c N))"

subsection \<open>One event\<close>

definition on_retire ::
  "(nat \<Rightarrow> ('r, 's, 'e, 'k, 'w) node \<Rightarrow> ('r, 's, 'e, 'k, 'w) node) option \<Rightarrow> nat \<Rightarrow>
     ('r, 's, 'e, 'k, 'w) node \<Rightarrow> ('r, 's, 'e, 'k, 'w) node progress" where
  "on_retire retire_callback x N =
     (let N1 = set_conn x ((get_conn x N)\<lparr>retired := True\<rparr>) N in
      Finished 0 (case retire_callback of None \<Rightarrow> N1 | Some f \<Rightarrow> f x N1))"

definition on_tunnel_open ::
  "('r, 's, 'e, 'k, 'w) node_env \<Rightarrow> nat \<Rightarrow> MuxEvent \<Rightarrow> ('r, 's, 'e, 'k, 'w) node \<Rightarrow> ('r, 's, 'e, 'k, 'w) node progress" where
  "on_tunnel_open env x event N =
     (case tunnel_server_handler (ne_listen env) (ne_is_entry env) (auth_user (get_conn x N))
             (client_id (get_conn x N)) event (nd_mgr N) (nd_tunnels N) of
        (rsp, m, T) \<Rightarrow>
          let N1 = N\<lparr>nd_mgr := m, nd_tunnels := T\<rparr> in
          case rsp of
            None \<Rightarrow> Throws N1
          | Some r \<Rightarrow> Finished 0 (snd (conn_write env x (make_event (TunnelOpenResponse r)) N1)))"

definition on_stream_open ::
  "bool \<Rightarrow> nat \<Rightarrow> MuxEvent \<Rightarrow> ('r, 's, 'e, 'k, 'w) node \<Rightarrow> ('r, 's, 'e, 'k, 'w) node progress" where
  "on_stream_open server_relay x event N =
     (case ev_body event of
        StreamOpenRequest _ \<Rightarrow>
          Finished 0 (if server_relay
                      then N\<lparr>nd_relays := nd_relays N @ [(auth_user (get_conn x N), client_id (get_conn x N), event)]\<rparr>
                      else N)
      | _ \<Rightarrow> Finished (- 1) N)"

definition on_stream_close ::
  "('r, 's, 'e, 'k, 'w) node_env \<Rightarrow> nat \<Rightarrow> MuxEvent \<Rightarrow> ('r, 's, 'e, 'k, 'w) node \<Rightarrow> ('r, 's, 'e, 'k, 'w) node progress" where
  "on_stream_close env x event N =
     (case MuxStream_Get (client_id (get_conn x N)) (head_sid (ev_head event)) (nd_streams N) of
        None \<Rightarrow> Finished 0 N
      | Some stream \<Rightarrow> Finished 0 (N\<lparr>nd_streams := snd (MuxStream_Close (ne_ops env) stream True (nd_streams N))\<rparr>))"

definition on_stream_chunk ::
  "('r, 's, 'e, 'k, 'w) node_env \<Rightarrow> nat \<Rightarrow> MuxEvent \<Rightarrow> ('r, 's, 'e, 'k, 'w) node \<Rightarrow> ('r, 's, 'e, 'k, 'w) node progress" where
  "on_stream_chunk env x event N =
     (let c = get_conn x N; sid = head_sid (ev_head event) in
      case MuxStream_Get (client_id c) sid (nd_streams N) of
        None \<Rightarrow>
          if last_unmatch_stream_id c \<noteq> sid
          then Finished 0 (snd (conn_write env x (StreamCloseRequest_of sid)
                 (set_conn x (c\<lparr>last_unmatch_stream_id := sid, read_state := STATE_CLOSING_STREAM\<rparr>) N)))
          else Finished 0 N
      | Some stream \<Rightarrow>
          (case ev_body event of
             StreamChunk buf len \<Rightarrow>
               let N1 = set_conn x (c\<lparr>read_state := STATE_OFFER_CHUNK\<rparr>) N in
               (case MuxStream_Offer stream buf (unat len) (nd_streams N1) of
                  None \<Rightarrow> Offering stream buf (unat len) N1
                | Some (_, W) \<Rightarrow> Finished 0 (N1\<lparr>nd_streams := W\<rparr>))
           | _ \<Rightarrow> Finished (- 1) N))"

text \<open>The switch on the event's type.\<close>

definition process_event ::
  "('r, 's, 'e, 'k, 'w) node_env \<Rightarrow> bool \<Rightarrow>
     (nat \<Rightarrow> ('r, 's, 'e, 'k, 'w) node \<Rightarrow> ('r, 's, 'e, 'k, 'w) node) option \<Rightarrow> nat \<Rightarrow> MuxEvent \<Rightarrow>
     ('r, 's, 'e, 'k, 'w) node \<Rightarrow> ('r, 's, 'e, 'k, 'w) node progress" where
  "process_event env server_relay retire_callback x event N =
     (let t = head_type (ev_head event) in
      if t = EVENT_RETIRE_CONN_REQ then on_retire retire_callback x N
      else if t = EVENT_TUNNEL_OPEN_REQ then on_tunnel_open env x event N
      else if t = EVENT_STREAM_OPEN then on_stream_open server_relay x event N
      else if t = EVENT_STREAM_CLOSE then on_stream_close env x event N
      else if t = EVENT_STREAM_CHUNK then on_stream_chunk env x event N
      else Finished 0 N)"

text \<open>\<open>None\<close> when \<^verbatim>\<open>ReadEvent\<close> does not return.\<close>

definition ProcessReadEvent ::
  "('r, 's, 'e, 'k, 'w) node_env \<Rightarrow> bool \<Rightarrow>
     (nat \<Rightarrow> ('r, 's, 'e, 'k, 'w) node \<Rightarrow> ('r, 's, 'e, 'k, 'w) node) option \<Rightarrow> nat \<Rightarrow>
     ('r, 's, 'e, 'k, 'w) node \<Rightarrow> ('r, 's, 'e, 'k, 'w) node progress option" where
  "ProcessReadEvent env server_relay retire_callback x N =
     (case ReadEvent (ne_dec env) (ne_rd env) (ne_tm env) ((get_conn x N)\<lparr>read_state := STATE_READING\<rparr>) of
        None \<Rightarrow> None
      | Some (rc, event, c) \<Rightarrow>
          let N1 = set_conn x (c\<lparr>read_state := STATE_READED\<rparr>) N in
          if rc \<noteq> 0 then Some (Finished rc N1)
          else Some (process_event env server_relay retire_callback x (the event) N1))"

text \<open>A chunk that waits for room in its stream's channel is offered again when the channel changes.\<close>

definition offer_resume ::
  "nat \<Rightarrow> bytes \<Rightarrow> nat \<Rightarrow> ('r, 's, 'e, 'k, 'w) node \<Rightarrow> ('r, 's, 'e, 'k, 'w) node progress" where
  "offer_resume stream buf len N =
     (case MuxStream_Offer stream buf len (nd_streams N) of
        None \<Rightarrow> Offering stream buf len N
      | Some (_, W) \<Rightarrow> Finished 0 (N\<lparr>nd_streams := W\<rparr>))"

definition read_loop_exit ::
  "('r, 's, 'e, 'k, 'w) node_env \<Rightarrow> nat \<Rightarrow> ('r, 's, 'e, 'k, 'w) node \<Rightarrow> ('r, 's, 'e, 'k, 'w) node" where
  "read_loop_exit env x N =
     set_conn x (MuxConnection_Close (ne_close env) ((get_conn x N)\<lparr>read_state := STATE_READ_LOOP_EXIT\<rparr>)) N"

text \<open>The loop: it ends with the code of the error, or stops where a chunk waits or a call throws.\<close>

partial_function (option) ReadEventLoop ::
  "('r, 's, 'e, 'k, 'w) node_env \<Rightarrow> bool \<Rightarrow>
     (nat \<Rightarrow> ('r, 's, 'e, 'k, 'w) node \<Rightarrow> ('r, 's, 'e, 'k, 'w) node) option \<Rightarrow> nat \<Rightarrow>
     ('r, 's, 'e, 'k, 'w) node \<Rightarrow> ('r, 's, 'e, 'k, 'w) node progress option" where
  "ReadEventLoop env server_relay retire_callback x N =
     (case ProcessReadEvent env server_relay retire_callback x N of
        None \<Rightarrow> None
      | Some r \<Rightarrow>
          (case r of
             Finished rc N1 \<Rightarrow>
               if rc \<noteq> 0 \<and> rc \<noteq> ERR_NEED_MORE_INPUT_DATA then Some (Finished rc (read_loop_exit env x N1))
               else ReadEventLoop env server_relay retire_callback x N1
           | Offering stream buf len N1 \<Rightarrow> Some (Offering stream buf len N1)
           | Throws N1 \<Rightarrow> Some (Throws N1)))"


subsection \<open>Lemmas\<close>

named_theorems node_simps \<open>connections and tables of a node\<close>

lemma get_set_conn [simp, node_simps]: "get_conn x (set_conn x c N) = c"
  "x \<noteq> y \<Longrightarrow> get_conn x (set_conn y c N) = get_conn x N"
  by (simp_all add: get_conn_def set_conn_def)

lemma set_conn_tables [simp, node_simps]:
  "nd_streams (set_conn x c N) = nd_streams N" "nd_tunnels (set_conn x c N) = nd_tunnels N"
  "nd_wheel (set_conn x c N) = nd_wheel N" "nd_relays (set_conn x c N) = nd_relays N"
  "nd_retiring (set_conn x c N) = nd_retiring N" "nd_server_conn_num (set_conn x c N) = nd_server_conn_num N"
  "conn_store (nd_mgr (set_conn x c N)) = (conn_store (nd_mgr N))(x \<mapsto> c)"
  by (simp_all add: set_conn_def)

lemma get_conn_tables [simp, node_simps]:
  "get_conn x (N\<lparr>nd_streams := W\<rparr>) = get_conn x N" "get_conn x (N\<lparr>nd_relays := R\<rparr>) = get_conn x N"
  "get_conn x (N\<lparr>nd_tunnels := T\<rparr>) = get_conn x N" "get_conn x (N\<lparr>nd_wheel := V\<rparr>) = get_conn x N"
  "get_conn x (N\<lparr>nd_retiring := Q\<rparr>) = get_conn x N" "get_conn x (N\<lparr>nd_server_conn_num := n\<rparr>) = get_conn x N"
  by (simp_all add: get_conn_def)

lemma conn_write_node:
  "nd_streams (snd (conn_write env x ev N)) = nd_streams N"
  "y \<noteq> x \<Longrightarrow> conn_store (nd_mgr (snd (conn_write env x ev N))) y = conn_store (nd_mgr N) y"
  "client_id (get_conn x (snd (conn_write env x ev N))) = client_id (get_conn x N)"
  "last_unmatch_stream_id (get_conn x (snd (conn_write env x ev N))) = last_unmatch_stream_id (get_conn x N)"
proof -
  obtain ok c where w: "MuxConnection_Write (ne_enc env) (ne_wr env) (ne_tm env) (get_conn x N) ev = (ok, c)" by fastforce
  then have N: "snd (conn_write env x ev N) = set_conn x c N" by (simp add: conn_write_def)
  show "nd_streams (snd (conn_write env x ev N)) = nd_streams N"
    "y \<noteq> x \<Longrightarrow> conn_store (nd_mgr (snd (conn_write env x ev N))) y = conn_store (nd_mgr N) y"
    "client_id (get_conn x (snd (conn_write env x ev N))) = client_id (get_conn x N)"
    "last_unmatch_stream_id (get_conn x (snd (conn_write env x ev N))) = last_unmatch_stream_id (get_conn x N)"
    unfolding N using Write_keeps [OF w] by simp_all
qed

lemma GetSession_conn_store: "GetSession u cid ty m = (sr, m') \<Longrightarrow> conn_store m' = conn_store m"
  by (auto simp: GetSession_def GetUserMuxConn_def Let_def split: option.splits)

lemma handler_conn_store:
  assumes "tunnel_server_handler env e u cid ev m T = (rsp, m', T')"
  shows "conn_store m' = conn_store m"
proof -
  obtain sr m1 where g: "GetSession u cid MUX_EXIT_CONN m = (sr, m1)" by fastforce
  from GetSession_conn_store [OF g] assms g show ?thesis
    by (auto simp: tunnel_server_handler_def tunnel_response_def add_tunnel_def
        split: mux_body.splits if_splits prod.splits option.splits)
qed

text \<open>
  What one event may change: the stream \<open>p\<close> alone, by an offer or by a close; the connection \<open>x\<close>
  alone in the store.
\<close>

definition only_stream :: "nat \<Rightarrow> ('k, 'w) mux_world \<Rightarrow> ('k, 'w) mux_world \<Rightarrow> bool" where
  "only_stream p W W' \<longleftrightarrow>
     (\<forall>q. q \<noteq> p \<longrightarrow> stream_objs W' q = stream_objs W q) \<and>
     (\<forall>k. g_streams W k \<noteq> Some p \<longrightarrow> g_streams W' k = g_streams W k)"

lemma only_stream_refl [simp]: "only_stream p W W"
  by (simp add: only_stream_def)

lemma offer_only: "MuxStream_Offer p buf len W = Some (e, W') \<Longrightarrow> only_stream p W W'"
  by (auto simp: MuxStream_Offer_def only_stream_def put_stream_def split: option.splits if_splits)

lemma remote_close_only:
  assumes "stream_inv W" "MuxStream_Get cid sid W = Some p"
  shows "only_stream p W (snd (MuxStream_Close ops p True W))"
proof -
  obtain s where s: "stream_objs W p = Some s" "\<not> closed s" "stream_client_id s = cid" "stream_sid s = sid"
    using assms unfolding stream_inv_def MuxStream_Get_def by blast
  then have "snd (MuxStream_Close ops p True W) = close_stream p s W" by (simp add: MuxStream_Close.simps)
  with s assms(2) show ?thesis
    by (auto simp: close_stream_def put_stream_def MuxStream_Remove_def only_stream_def MuxStream_Get_def)
qed

lemma stream_owner: "stream_inv W \<Longrightarrow> g_streams W (c, i) = Some p \<Longrightarrow> g_streams W (d, j) = Some p \<Longrightarrow> c = d"
  unfolding stream_inv_def by (metis option.inject)

lemma only_stream_other:
  assumes "stream_inv W" "MuxStream_Get cid sid W = Some p" "only_stream p W W'" "c \<noteq> cid"
  shows "MuxStream_Get c i W' = MuxStream_Get c i W \<and>
    (\<forall>q. MuxStream_Get c i W = Some q \<longrightarrow> stream_objs W' q = stream_objs W q)"
  using assms stream_owner [OF assms(1)] unfolding MuxStream_Get_def only_stream_def by metis

fun progress_node :: "'n progress \<Rightarrow> 'n" where
  "progress_node (Finished rc N) = N"
| "progress_node (Offering p b n N) = N"
| "progress_node (Throws N) = N"

definition keeps_streams :: "u64 \<Rightarrow> ('k, 'w) mux_world \<Rightarrow> ('k, 'w) mux_world \<Rightarrow> bool" where
  "keeps_streams cid W W' \<longleftrightarrow> W' = W \<or> (\<exists>p sid. MuxStream_Get cid sid W = Some p \<and> only_stream p W W')"

lemma keeps_streams_refl [simp]: "keeps_streams cid W W"
  by (simp add: keeps_streams_def)

lemma chunk_keeps:
  "keeps_streams (client_id (get_conn x N)) (nd_streams N) (nd_streams (progress_node (on_stream_chunk env x ev N)))"
proof (cases "MuxStream_Get (client_id (get_conn x N)) (head_sid (ev_head ev)) (nd_streams N)")
  case None
  then show ?thesis by (simp add: on_stream_chunk_def keeps_streams_def conn_write_node Let_def)
next
  case (Some p)
  let ?o = "\<lambda>b n. MuxStream_Offer p b (unat n) (nd_streams N)"
  have "keeps_streams (client_id (get_conn x N)) (nd_streams N) W'" if "?o b n = Some (e, W')" for b e W' and n :: u32
    using Some offer_only [OF that] unfolding keeps_streams_def by blast
  then show ?thesis
    by (auto simp: on_stream_chunk_def Some Let_def split: mux_body.splits option.splits)
qed

lemma close_keeps:
  "stream_inv (nd_streams N) \<Longrightarrow>
   keeps_streams (client_id (get_conn x N)) (nd_streams N) (nd_streams (progress_node (on_stream_close env x ev N)))"
  using remote_close_only by (fastforce simp: on_stream_close_def keeps_streams_def split: option.splits)

lemma tunnel_open_keeps:
  "nd_streams (progress_node (on_tunnel_open env x ev N)) = nd_streams N"
  "y \<noteq> x \<Longrightarrow> conn_store (nd_mgr (progress_node (on_tunnel_open env x ev N))) y = conn_store (nd_mgr N) y"
  using handler_conn_store by (fastforce simp: on_tunnel_open_def conn_write_node Let_def split: prod.splits option.splits)+

text \<open>The retire callbacks of the program leave streams and connections alone.\<close>

definition callback_ok :: "(nat \<Rightarrow> ('r, 's, 'e, 'k, 'w) node \<Rightarrow> ('r, 's, 'e, 'k, 'w) node) option \<Rightarrow> bool" where
  "callback_ok cb \<longleftrightarrow> (\<forall>f x M. cb = Some f \<longrightarrow>
     nd_streams (f x M) = nd_streams M \<and> conn_store (nd_mgr (f x M)) = conn_store (nd_mgr M))"

lemma process_keeps_streams:
  assumes "stream_inv (nd_streams N)" "callback_ok cb"
  shows "keeps_streams (client_id (get_conn x N)) (nd_streams N) (nd_streams (progress_node (process_event env relay cb x ev N)))"
  using chunk_keeps close_keeps [OF assms(1)] tunnel_open_keeps assms(2)
  by (auto simp: process_event_def on_retire_def on_stream_open_def keeps_streams_def callback_ok_def Let_def
      split: option.splits mux_body.splits)

lemma process_keeps_conns:
  assumes "callback_ok cb" "y \<noteq> x"
  shows "conn_store (nd_mgr (progress_node (process_event env relay cb x ev N))) y = conn_store (nd_mgr N) y"
proof -
  have "conn_store (nd_mgr (progress_node (on_stream_chunk env x ev N))) y = conn_store (nd_mgr N) y"
    using assms(2) by (auto simp: on_stream_chunk_def conn_write_node Let_def split: mux_body.splits option.splits)
  moreover have "conn_store (nd_mgr (progress_node (on_stream_close env x ev N))) y = conn_store (nd_mgr N) y"
    by (simp add: on_stream_close_def split: option.splits)
  ultimately show ?thesis using assms tunnel_open_keeps(2) [OF assms(2)]
    by (auto simp: process_event_def on_retire_def on_stream_open_def callback_ok_def Let_def split: option.splits mux_body.splits)
qed

text \<open>A round of the read loop on a connection where a frame of an event comes next.\<close>

lemma ProcessReadEvent_frame:
  assumes live: "live_connection (ne_rd env) pend ok" and dec: "ne_dec env = CipherContext_Decrypt A L"
    and r: "reader_ok ok (get_conn x N)" "unread pend (get_conn x N) = f @ rest"
    and fr: "cipher_framed A L (cipher_ctx (get_conn x N)) e f r'"
  shows "\<exists>c. ProcessReadEvent env relay cb x N = Some (process_event env relay cb x e (set_conn x c N)) \<and>
    reader_ok ok c \<and> unread pend c = rest \<and> cipher_ctx c = r' \<and>
    client_id c = client_id (get_conn x N) \<and> auth_user c = auth_user (get_conn x N)"
proof -
  let ?c = "(get_conn x N)\<lparr>read_state := STATE_READING\<rparr>"
  have "reader_ok ok ?c" "unread pend ?c = f @ rest" "cipher_framed A L (cipher_ctx ?c) e f r'"
    using r fr by (simp_all add: reader_ok_def spans_ok_def unread_def)
  from event_reader.ReadEvent_frame [OF cipher_event_reader [OF live] this, of "ne_tm env"]
  obtain c where "ReadEvent (ne_dec env) (ne_rd env) (ne_tm env) ?c = Some (0, Some e, c)" "reader_ok ok c"
    "unread pend c = rest" "cipher_ctx c = r'" "write_side c = write_side ?c" by (auto simp: dec)
  then show ?thesis
    by (intro exI [of _ "c\<lparr>read_state := STATE_READED\<rparr>"])
      (simp add: ProcessReadEvent_def Let_def reader_ok_def spans_ok_def unread_def write_side_def)
qed

text \<open>A chunk for an idle open stream goes into that stream.\<close>

lemma chunk_round:
  assumes live: "live_connection (ne_rd env) pend ok" and dec: "ne_dec env = CipherContext_Decrypt A L"
    and r: "reader_ok ok (get_conn x N)" "unread pend (get_conn x N) = f @ rest"
    and fr: "cipher_framed A L (cipher_ctx (get_conn x N)) (with_len n (StreamChunk_of sid fl buf (length buf))) f r'"
    and q: "MuxStream_Get (client_id (get_conn x N)) sid (nd_streams N) = Some q" "stream_objs (nd_streams N) q = Some s"
      "\<not> closed s" "\<not> channel_closed s" "data_channel s = []"
    and buf: "length buf \<le> kMaxChunkSize"
  shows "\<exists>N1 W. ProcessReadEvent env relay cb x N = Some (Finished 0 N1) \<and>
    MuxStream_Read q (nd_streams N1) = Some ((Some buf, length buf, Ok), W) \<and>
    unread pend (get_conn x N1) = rest \<and> cipher_ctx (get_conn x N1) = r'"
proof -
  let ?e = "with_len n (StreamChunk_of sid fl buf (length buf))"
  have len: "unat (word_of_nat (length buf) :: u32) = length buf" using buf by (simp add: unat_of_nat)
  have e: "head_type (ev_head ?e) = EVENT_STREAM_CHUNK" "head_sid (ev_head ?e) = sid"
      "ev_body ?e = StreamChunk buf (word_of_nat (length buf))"
    by (simp_all add: StreamChunk_of_def make_event_def)
  from ProcessReadEvent_frame [OF live dec r fr, of relay cb] obtain c where
    "ProcessReadEvent env relay cb x N = Some (process_event env relay cb x ?e (set_conn x c N))"
    "unread pend c = rest" "cipher_ctx c = r'" "client_id c = client_id (get_conn x N)" by blast
  then show ?thesis using q e len
    by (simp add: process_event_def on_stream_chunk_def MuxStream_Offer_def MuxStream_Read_def put_stream_def Let_def unread_def)
qed

subsection \<open>Properties\<close>

text \<open>Data written to a connection for a stream comes out of that stream at the peer.  A chunk of
  at most \<open>kMaxChunkSize\<close> bytes that one side writes is accepted; and a peer whose cipher context is
  synchronised, on whose connection these bytes come next however the network cuts them, and that has
  an idle open stream under the connection's client id and the chunk's stream id, takes one round of
  its read loop to put the chunk into this stream, where the next \<open>Read\<close> returns exactly the bytes
  written; what follows stays unread and the two sides stay synchronised.\<close>

theorem chunk_end_to_end:
  assumes lib: "aead_ok A" "pb_lib_ok L" and live: "live_connection (ne_rd env) pend ok"
    and dec: "ne_dec env = CipherContext_Decrypt A L"
    and w: "writer_ok w" "synced (cipher_ctx w) (cipher_ctx (get_conn x N))"
    and r: "reader_ok ok (get_conn x N)"
    and q: "MuxStream_Get (client_id (get_conn x N)) sid (nd_streams N) = Some q"
      "stream_objs (nd_streams N) q = Some s" "\<not> closed s" "\<not> channel_closed s" "data_channel s = []"
    and buf: "length buf \<le> kMaxChunkSize"
  shows "\<exists>w' bs. MuxConnection_Write (CipherContext_Encrypt A L) wire_write tm w (StreamChunk_of sid fl buf (length buf)) = (True, w') \<and>
    io_conn w' = io_conn w @ bs \<and>
    (unread pend (get_conn x N) = bs @ rest \<longrightarrow>
      (\<exists>N' W. ProcessReadEvent env relay cb x N = Some (Finished 0 N') \<and>
         MuxStream_Read q (nd_streams N') = Some ((Some buf, length buf, Ok), W) \<and>
         unread pend (get_conn x N') = rest \<and> synced (cipher_ctx w') (cipher_ctx (get_conn x N'))))"
proof -
  let ?e = "StreamChunk_of sid fl buf (length buf)"
  have "wf_event kMaxChunkSize ?e" using buf by (simp add: wf_event_def StreamChunk_of_def make_event_def unat_of_nat)
  from Wire_framed [OF lib w this, of tm] obtain w' f n r1 where
    w': "MuxConnection_Write (CipherContext_Encrypt A L) wire_write tm w ?e = (True, w')" "io_conn w' = io_conn w @ f"
    and fr: "cipher_framed A L (cipher_ctx (get_conn x N)) (with_len n ?e) f r1" and sy: "synced (cipher_ctx w') r1" by blast
  from chunk_round [OF live dec r _ fr q buf, of rest relay cb] w' sy show ?thesis by blast
qed

definition sample_env :: "(bytes CipherContext, bytes list, u16, unit, MuxEvent list \<times> nat) node_env" where
  "sample_env = \<lparr>ne_dec = CipherContext_Decrypt ref_aead ref_pb, ne_enc = CipherContext_Encrypt ref_aead ref_pb,
     ne_rd = script_read, ne_wr = (\<lambda>s bs. (0, s)), ne_close = (\<lambda>s. []), ne_tm = (\<lambda>_. 1700000000),
     ne_ops = log_sink, ne_listen = env_ok 7, ne_is_entry = True\<rparr>"

definition sample_node :: "bytes list \<Rightarrow> (bytes CipherContext, bytes list, u16, unit, MuxEvent list \<times> nat) node" where
  "sample_node segs = \<lparr>nd_mgr = MuxConnManager_init [0 \<mapsto> (sample_conn segs)\<lparr>client_id := 9\<rparr>],
     nd_tunnels = tunnel_state_init, nd_streams = sample_world, nd_wheel = TimeWheel_instance, nd_relays = [],
     nd_retiring = [], nd_server_conn_num = 0\<rparr>"

lemma sample_node_conn:
  "get_conn 0 (sample_node segs) = (sample_conn segs)\<lparr>client_id := 9\<rparr>" "nd_streams (sample_node segs) = sample_world"
  "reader_ok (\<lambda>_. True) (get_conn 0 (sample_node segs))" "cipher_ctx (get_conn 0 (sample_node segs)) = sample_ctx"
  "unread concat (get_conn 0 (sample_node segs)) = concat segs"
  using sample_conn_simps
  by (simp_all add: sample_node_def get_conn_def MuxConnManager_init_def reader_ok_def spans_ok_def unread_def)

text \<open>Two bytes for stream 1, delivered in segments of one byte.\<close>

theorem chunk_end_to_end_witness:
  "\<exists>w' bs N' W. MuxConnection_Write (CipherContext_Encrypt ref_aead ref_pb) wire_write (\<lambda>_. 0) (sample_conn [])
       (StreamChunk_of 1 False [5, 6] 2) = (True, w') \<and> io_conn w' = bs \<and>
     ProcessReadEvent sample_env True None 0 (sample_node (map (\<lambda>b. [b]) bs)) = Some (Finished 0 N') \<and>
     MuxStream_Read 0 (nd_streams N') = Some ((Some [5, 6], 2, Ok), W)"
proof -
  note e2e = chunk_end_to_end [where env = sample_env and pend = concat and ok = "\<lambda>_. True" and w = "sample_conn []" and
      x = 0 and sid = 1 and q = 0 and s = "the (stream_objs sample_world 0)" and buf = "[5, 6]" and fl = False and tm = "\<lambda>_. 0" and rest = "[]" and relay = True and cb = None,
      OF ref_aead_ok ref_pb_ok _ _ sample_conn_simps(1)]
  have env: "ne_rd sample_env = script_read" "ne_dec sample_env = CipherContext_Decrypt ref_aead ref_pb"
    by (simp_all add: sample_env_def)
  have ex: "\<exists>w' bs. MuxConnection_Write (CipherContext_Encrypt ref_aead ref_pb) wire_write (\<lambda>_. 0) (sample_conn [])
       (StreamChunk_of 1 False [5, 6] (length [5 :: u8, 6])) = (True, w') \<and> io_conn w' = io_conn (sample_conn []) @ bs \<and>
     (unread concat (get_conn 0 (sample_node segs)) = bs @ [] \<longrightarrow>
       (\<exists>N' W. ProcessReadEvent sample_env True None 0 (sample_node segs) = Some (Finished 0 N') \<and>
         MuxStream_Read 0 (nd_streams N') = Some ((Some [5, 6], length [5 :: u8, 6], Ok), W) \<and>
         unread concat (get_conn 0 N') = [] \<and> synced (cipher_ctx w') (cipher_ctx (get_conn 0 N'))))" for segs
    by (rule e2e, unfold env sample_node_conn sample_conn_simps)
      (simp_all add: scripted.live_connection_axioms sample_ctx_synced sample_node_conn(3) [unfolded sample_node_conn] sample_world_stream sample_conn_simps)
  obtain w' bs where w: "MuxConnection_Write (CipherContext_Encrypt ref_aead ref_pb) wire_write (\<lambda>_. 0) (sample_conn [])
       (StreamChunk_of 1 False [5, 6] (length [5 :: u8, 6])) = (True, w')" "io_conn w' = bs"
    using ex [of "[]"] by (auto simp: sample_conn_simps)
  have "concat (map (\<lambda>b. [b]) bs) = bs" by (induction bs) auto
  then have "unread concat (get_conn 0 (sample_node (map (\<lambda>b. [b]) bs))) = bs @ []" by (simp only: sample_node_conn(5) append_Nil2)
  then obtain N' W where "ProcessReadEvent sample_env True None 0 (sample_node (map (\<lambda>b. [b]) bs)) = Some (Finished 0 N')"
      "MuxStream_Read 0 (nd_streams N') = Some ((Some [5, 6], length [5 :: u8, 6], Ok), W)"
    using ex [of "map (\<lambda>b. [b]) bs"] w by (auto simp: sample_conn_simps)
  with w have "MuxConnection_Write (CipherContext_Encrypt ref_aead ref_pb) wire_write (\<lambda>_. 0) (sample_conn [])
       (StreamChunk_of 1 False [5, 6] 2) = (True, w') \<and> io_conn w' = bs \<and>
     ProcessReadEvent sample_env True None 0 (sample_node (map (\<lambda>b. [b]) bs)) = Some (Finished 0 N') \<and>
     MuxStream_Read 0 (nd_streams N') = Some ((Some [5, 6], 2, Ok), W)" by (simp add: numeral_2_eq_2)
  then show ?thesis by blast
qed

text \<open>C7: whatever the peer sends, an event that is dispatched has a body of the class its head names, and
  a chunk has as many bytes as it says, at most \<open>kMaxChunkSize + 128\<close>; so the casts in the dispatch do not
  fail, and a round of the read loop ends with an error code only if reading an event failed with that
  code, and then nothing but the connection has changed.  Nothing is assumed of the bytes, the
  connection, the cipher or the message library.\<close>

theorem dispatch_well_typed:
  assumes dec: "ne_dec env = CipherContext_Decrypt A L" and step: "ProcessReadEvent env relay cb x N = Some P"
  shows "\<exists>rc ev c. ReadEvent (ne_dec env) (ne_rd env) (ne_tm env) ((get_conn x N)\<lparr>read_state := STATE_READING\<rparr>) = Some (rc, ev, c) \<and>
    (case ev of
       None \<Rightarrow> rc \<noteq> 0 \<and> P = Finished rc (set_conn x (c\<lparr>read_state := STATE_READED\<rparr>) N)
     | Some e \<Rightarrow> rc = 0 \<and> head_type (ev_head e) = event_type (ev_body e) \<and> sized_body (kMaxChunkSize + 128) (ev_body e) \<and>
         (\<forall>rc' N'. P = Finished rc' N' \<longrightarrow> rc' = 0))"
proof -
  let ?T = "\<lambda>e. head_type (ev_head e) = event_type (ev_body e) \<and> sized_body (kMaxChunkSize + 128) (ev_body e)"
  obtain rc ev c where r: "ReadEvent (ne_dec env) (ne_rd env) (ne_tm env) ((get_conn x N)\<lparr>read_state := STATE_READING\<rparr>) = Some (rc, ev, c)"
    using step by (cases "ReadEvent (ne_dec env) (ne_rd env) (ne_tm env) ((get_conn x N)\<lparr>read_state := STATE_READING\<rparr>)")
      (auto simp: ProcessReadEvent_def)
  have "decoder_ok ?T (ne_dec env)"
    using Decrypt_typed Decrypt_error by (fastforce simp: decoder_ok_def dec split: prod.split sum.split)
  from ReadEvent_loop_result [OF r [unfolded ReadEvent_def] this] have ev: "event_or_code ?T rc ev" by simp
  have typed: "rc' = 0" if "head_type (ev_head e) = event_type (ev_body e)" "process_event env relay cb x e N1 = Finished rc' N'" for e rc' N1 N'
    using that by (cases "ev_body e") (auto simp: process_event_def on_retire_def on_tunnel_open_def on_stream_open_def
        on_stream_close_def on_stream_chunk_def Let_def split: prod.splits option.splits if_splits)
  from r ev step show ?thesis
    by (intro exI [of _ rc] exI [of _ ev] exI [of _ c])
      (auto simp: ProcessReadEvent_def event_or_code_def Let_def dest: typed split: option.splits)
qed

text \<open>A chunk for stream 1 arrives.\<close>

theorem dispatch_well_typed_witness:
  "\<exists>f N' e c. ProcessReadEvent sample_env True None 0 (sample_node [f]) = Some (Finished 0 N') \<and>
     ReadEvent (ne_dec sample_env) script_read (\<lambda>_. 1700000000) ((get_conn 0 (sample_node [f]))\<lparr>read_state := STATE_READING\<rparr>) = Some (0, Some e, c) \<and>
     head_type (ev_head e) = event_type (ev_body e)"
proof -
  let ?e = "StreamChunk_of 1 False [5, 6] (length [5 :: u8, 6])"
  have wf: "wf_event kMaxChunkSize ?e" by (simp add: wf_event_def StreamChunk_of_def make_event_def unat_of_nat)
  have env: "ne_rd sample_env = script_read" "ne_dec sample_env = CipherContext_Decrypt ref_aead ref_pb"
    "ne_tm sample_env = (\<lambda>_. 1700000000)" by (simp_all add: sample_env_def)
  have "synced (cipher_ctx (sample_conn ([] :: bytes))) sample_ctx" by (simp add: sample_conn_simps sample_ctx_synced)
  from Wire_framed [OF ref_aead_ok ref_pb_ok sample_conn_simps(1) this wf, of "\<lambda>_. 0"] obtain f n r' where
    fr: "cipher_framed ref_aead ref_pb sample_ctx (with_len n ?e) f r'" by blast
  have "\<exists>N' W. ProcessReadEvent sample_env True None 0 (sample_node [f]) = Some (Finished 0 N') \<and>
      MuxStream_Read 0 (nd_streams N') = Some ((Some [5, 6], length [5 :: u8, 6], Ok), W) \<and>
      unread concat (get_conn 0 N') = [] \<and> cipher_ctx (get_conn 0 N') = r'"
    by (rule chunk_round [where A = ref_aead and L = ref_pb and ok = "\<lambda>_. True" and sid = 1 and f = f and n = n and fl = False and
          s = "the (stream_objs sample_world 0)"], unfold env sample_node_conn)
      (use fr in \<open>simp_all add: scripted.live_connection_axioms sample_node_conn(3,5) [unfolded sample_node_conn] sample_world_stream sample_conn_simps\<close>)
  then obtain N' where N': "ProcessReadEvent sample_env True None 0 (sample_node [f]) = Some (Finished 0 N')" by blast
  from dispatch_well_typed [OF env(2) N'] N' show ?thesis unfolding env(1,3) by (fastforce split: option.splits)
qed

text \<open>C15: a connection touches only the streams of its own client.  Whatever event a connection
  reads and however its handling ends, the streams registered under any other client id stay
  registered as they were and are not changed, and no other connection is changed (provided the
  retire callback leaves streams and connections alone).\<close>

theorem dispatch_isolated:
  assumes inv: "stream_inv (nd_streams N)" and cb: "callback_ok cb"
    and step: "progress_node (process_event env relay cb x ev N) = N'"
    and other: "cid \<noteq> client_id (get_conn x N)" "y \<noteq> x"
  shows "MuxStream_Get cid sid (nd_streams N') = MuxStream_Get cid sid (nd_streams N) \<and>
    (\<forall>q. MuxStream_Get cid sid (nd_streams N) = Some q \<longrightarrow> stream_objs (nd_streams N') q = stream_objs (nd_streams N) q) \<and>
    conn_store (nd_mgr N') y = conn_store (nd_mgr N) y"
proof -
  have "keeps_streams (client_id (get_conn x N)) (nd_streams N) (nd_streams N')"
    using process_keeps_streams [OF inv cb] step by blast
  then have "MuxStream_Get cid sid (nd_streams N') = MuxStream_Get cid sid (nd_streams N) \<and>
    (\<forall>q. MuxStream_Get cid sid (nd_streams N) = Some q \<longrightarrow> stream_objs (nd_streams N') q = stream_objs (nd_streams N) q)"
  proof (unfold keeps_streams_def, elim disjE exE conjE)
    fix p i assume p: "MuxStream_Get (client_id (get_conn x N)) i (nd_streams N) = Some p" "only_stream p (nd_streams N) (nd_streams N')"
    show ?thesis by (rule only_stream_other [OF inv p other(1)])
  qed simp
  with process_keeps_conns [OF cb other(2)] step show ?thesis by auto
qed

theorem dispatch_isolated_witness:
  "MuxStream_Get 8 1 (nd_streams (progress_node (process_event sample_env True None 0 sample_chunk (sample_node [])))) =
     MuxStream_Get 8 1 sample_world"
proof -
  have "stream_inv (nd_streams (sample_node []))"
    using stream_reachable_inv [OF sample_world_reachable] by (simp add: sample_node_conn)
  from dispatch_isolated [OF this _ refl, of None 8 0 1] show ?thesis by (simp add: callback_ok_def sample_node_conn)
qed

text \<open>Chunks for a stream that is gone provoke one close notice.  The first chunk under an id
  without a stream makes the connection write exactly one stream-close event for this id, and further
  chunks under the same id change nothing.\<close>

theorem unmatched_chunk_closes_once:
  assumes "head_type (ev_head ev) = EVENT_STREAM_CHUNK" "head_type (ev_head ev2) = EVENT_STREAM_CHUNK"
    and "head_sid (ev_head ev) = sid" "head_sid (ev_head ev2) = sid"
    and none: "MuxStream_Get (client_id (get_conn x N)) sid (nd_streams N) = None"
    and new: "last_unmatch_stream_id (get_conn x N) \<noteq> sid"
  shows "\<exists>N'. process_event env relay cb x ev N = Finished 0 N' \<and>
    get_conn x N' = snd (MuxConnection_Write (ne_enc env) (ne_wr env) (ne_tm env)
      ((get_conn x N)\<lparr>last_unmatch_stream_id := sid, read_state := STATE_CLOSING_STREAM\<rparr>) (StreamCloseRequest_of sid)) \<and>
    process_event env relay cb x ev2 N' = Finished 0 N'"
proof -
  let ?c = "(get_conn x N)\<lparr>last_unmatch_stream_id := sid, read_state := STATE_CLOSING_STREAM\<rparr>"
  let ?N = "snd (conn_write env x (StreamCloseRequest_of sid) (set_conn x ?c N))"
  have "process_event env relay cb x ev N = Finished 0 ?N"
    using assms by (simp add: process_event_def on_stream_chunk_def Let_def)
  moreover have "process_event env relay cb x ev2 ?N = Finished 0 ?N"
    using assms by (simp add: process_event_def on_stream_chunk_def conn_write_node Let_def)
  moreover have "get_conn x ?N = snd (MuxConnection_Write (ne_enc env) (ne_wr env) (ne_tm env) ?c (StreamCloseRequest_of sid))"
    by (simp add: conn_write_def split: prod.splits)
  ultimately show ?thesis by blast
qed


theorem unmatched_chunk_closes_once_witness:
  "\<exists>N'. process_event sample_env True None 0 sample_chunk (sample_node []) = Finished 0 N' \<and>
     process_event sample_env True None 0 sample_chunk N' = Finished 0 N'"
proof -
  have "MuxStream_Get (client_id (get_conn 0 (sample_node []))) 3 (nd_streams (sample_node [])) = None"
    by (simp add: sample_node_conn sample_world_def MuxStream_New_def mux_world_init_def MuxStream_Get_def Let_def)
  from unmatched_chunk_closes_once [OF _ _ _ _ this, of sample_chunk sample_chunk sample_env True None] show ?thesis
    by (auto simp: sample_chunk_def sample_of_def sample_node_conn sample_conn_def MuxConnection_new_def)
qed

end
