(* ===== verification/Relay.thy ===== *)
theory Relay
  imports Mux_Dispatch
begin

text \<open>
  \<^verbatim>\<open>snova/io/transfer.cc\<close> and \<^verbatim>\<open>snova/server/relay.cc\<close>: a relay copies bytes between a local and a
  remote end, each a socket or a mux stream, with one coroutine per direction.  The coroutines are cut
  at their suspension points (a read and a write per round); \<open>relay_step\<close> interleaves the two
  directions, the timeout of the time wheel and the rest of the node.  What asio answers to reads,
  writes and connects of sockets is an argument.
\<close>

subsection \<open>Ends\<close>

datatype ('k, 'w) endpoint = Socket nat | Stream "('k, 'w) writer_ops" nat

record ('k, 'w) relay_world =
  rl_mux :: "('k, 'w) mux_world"
  sock_open :: "nat \<Rightarrow> bool"
  sock_out :: "nat \<Rightarrow> bytes"
  latest_io_time :: u64

text \<open>
  A completed read: \<open>None\<close> while it suspends, else the data and its length or, for an error, \<open>None\<close>.
  \<open>res\<close> is the socket's answer, into a buffer of \<^verbatim>\<open>kMaxChunkSize\<close> bytes.
\<close>

fun ep_read ::
  "('k, 'w) endpoint \<Rightarrow> bytes option \<Rightarrow> ('k, 'w) relay_world \<Rightarrow> ((bytes \<times> nat) option \<times> ('k, 'w) relay_world) option" where
  "ep_read (Socket i) res S =
     Some (case res of Some d \<Rightarrow> if sock_open S i then Some (take 8192 d, length (take 8192 d)) else None | None \<Rightarrow> None, S)"
| "ep_read (Stream ops p) res S =
     (case MuxStream_Read p (rl_mux S) of
        None \<Rightarrow> None
      | Some ((buf, len, ec), W) \<Rightarrow> Some (if ec = Ok then Some (the buf, len) else None, S\<lparr>rl_mux := W\<rparr>))"

text \<open>A completed write; a socket fails with \<open>fault = Some m\<close> after \<open>m\<close> bytes.\<close>

fun ep_write ::
  "bool \<Rightarrow> ('k, 'w) endpoint \<Rightarrow> nat option \<Rightarrow> bytes \<Rightarrow> nat \<Rightarrow> ('k, 'w) relay_world \<Rightarrow> bool \<times> ('k, 'w) relay_world" where
  "ep_write is_entry (Socket i) fault buf len S =
     (if \<not> sock_open S i then (False, S)
      else case fault of
          None \<Rightarrow> (True, S\<lparr>sock_out := (sock_out S)(i := sock_out S i @ take len buf)\<rparr>)
        | Some m \<Rightarrow> (False, S\<lparr>sock_out := (sock_out S)(i := sock_out S i @ take m (take len buf))\<rparr>))"
| "ep_write is_entry (Stream ops p) fault buf len S =
     (case MuxStream_Write ops is_entry p buf len (rl_mux S) of (ec, W) \<Rightarrow> (ec = Ok, S\<lparr>rl_mux := W\<rparr>))"

fun ep_close :: "('k, 'w) endpoint \<Rightarrow> ('k, 'w) relay_world \<Rightarrow> ('k, 'w) relay_world" where
  "ep_close (Socket i) S = S\<lparr>sock_open := (sock_open S)(i := False)\<rparr>"
| "ep_close (Stream ops p) S = S\<lparr>rl_mux := snd (MuxStream_Close ops p False (rl_mux S))\<rparr>"

subsection \<open>transfer\<close>

text \<open>Where a direction is, and how it ended.\<close>

datatype xfer = Reading | Writing bytes nat | SourceEnded | SinkFailed

text \<open>What the four overloads do behind their loops.\<close>

fun transfer_end :: "('k, 'w) endpoint \<Rightarrow> ('k, 'w) endpoint \<Rightarrow> ('k, 'w) relay_world \<Rightarrow> ('k, 'w) relay_world" where
  "transfer_end (Stream ops p) (Stream ops' q) S = ep_close (Stream ops' q) S"
| "transfer_end (Stream ops p) (Socket j) S = ep_close (Socket j) (ep_close (Stream ops p) S)"
| "transfer_end (Socket i) (Stream ops q) S = ep_close (Stream ops q) S"
| "transfer_end (Socket i) (Socket j) S = S"

text \<open>The routine is set if a timeout is configured.\<close>

definition transfer_routine :: "bool \<Rightarrow> u64 \<Rightarrow> ('k, 'w) relay_world \<Rightarrow> ('k, 'w) relay_world" where
  "transfer_routine timed now S = (if timed then S\<lparr>latest_io_time := now\<rparr> else S)"

definition transfer_read ::
  "bool \<Rightarrow> u64 \<Rightarrow> ('k, 'w) endpoint \<Rightarrow> ('k, 'w) endpoint \<Rightarrow> bytes option \<Rightarrow> ('k, 'w) relay_world \<Rightarrow>
     (xfer \<times> ('k, 'w) relay_world) option" where
  "transfer_read timed now src dst res S =
     (case ep_read src res S of
        None \<Rightarrow> None
      | Some (None, S1) \<Rightarrow> Some (SourceEnded, transfer_end src dst S1)
      | Some (Some (data, len), S1) \<Rightarrow> Some (Writing data len, transfer_routine timed now S1))"

definition transfer_write ::
  "bool \<Rightarrow> u64 \<Rightarrow> bool \<Rightarrow> ('k, 'w) endpoint \<Rightarrow> ('k, 'w) endpoint \<Rightarrow> nat option \<Rightarrow> bytes \<Rightarrow> nat \<Rightarrow>
     ('k, 'w) relay_world \<Rightarrow> xfer \<times> ('k, 'w) relay_world" where
  "transfer_write timed now is_entry src dst fault data len S =
     (case ep_write is_entry dst fault data len S of
        (True, S1) \<Rightarrow> (Reading, transfer_routine timed now S1)
      | (False, S1) \<Rightarrow> (SinkFailed, transfer_end src dst S1))"

subsection \<open>do\_relay\<close>

text \<open>
  Up to the two transfers: the remote end, if there is one.  \<open>connected\<close> is the socket of
  \<^verbatim>\<open>get_connected_socket\<close>, \<open>factory\<close> the answer of \<^verbatim>\<open>GetRelayEventWriterFactory\<close>.  The result of \<open>Open\<close>
  and of the first write is not looked at.
\<close>

definition do_relay_begin ::
  "bool \<Rightarrow> bool \<Rightarrow> RelayContext \<Rightarrow> nat option \<Rightarrow> nat option \<Rightarrow> (u64 \<times> ('k, 'w) writer_ops) option \<Rightarrow> bytes \<Rightarrow>
     ('k, 'w) relay_world \<Rightarrow> ('k, 'w) endpoint option \<times> ('k, 'w) relay_world" where
  "do_relay_begin is_exit is_entry ctx connected fault factory readed_data S =
     (if is_exit \<or> rc_direct ctx
      then case connected of
          None \<Rightarrow> (None, S)
        | Some i \<Rightarrow>
            let S1 = S\<lparr>sock_open := (sock_open S)(i := True)\<rparr> in
            (Some (Socket i),
             if 0 < length readed_data
             then snd (ep_write is_entry (Socket i) fault readed_data (length readed_data) S1) else S1)
      else case factory of
          None \<Rightarrow> (None, S)
        | Some (cid, ops) \<Rightarrow>
            (case MuxStream_NextID True (rl_mux S) of (stream_id, W1) \<Rightarrow>
             case MuxStream_New ops cid stream_id W1 of (p, W2) \<Rightarrow>
             let W3 = MuxStream_SetTLS p (rc_is_tls ctx) W2;
                 W4 = snd (MuxStream_Open ops p (rc_remote_host ctx) (rc_remote_port ctx) (rc_is_tcp ctx) (rc_is_tls ctx) W3);
                 W5 = (if 0 < length readed_data
                       then snd (MuxStream_Write ops is_entry p readed_data (length readed_data) W4) else W4)
             in (Some (Stream ops p), S\<lparr>rl_mux := W5\<rparr>)))"

text \<open>Behind the transfers; the cleanup removes the stream's ids, a socket is closed by its destructor.\<close>

fun do_relay_end :: "('k, 'w) endpoint \<Rightarrow> u64 \<Rightarrow> u32 \<Rightarrow> ('k, 'w) relay_world \<Rightarrow> ('k, 'w) relay_world" where
  "do_relay_end (Socket i) cid sid S = ep_close (Socket i) S"
| "do_relay_end (Stream ops p) cid sid S =
     (let S1 = ep_close (Stream ops p) S in S1\<lparr>rl_mux := MuxStream_Remove cid sid (rl_mux S1)\<rparr>)"

text \<open>The callback of the time wheel.\<close>

definition close_local :: "('k, 'w) endpoint \<Rightarrow> ('k, 'w) relay_world \<Rightarrow> ('k, 'w) relay_world" where
  "close_local local S = ep_close local S"

text \<open>The three callers and the handler of a stream-open event: the contexts they relay with.\<close>

definition relay :: "RelayContext \<Rightarrow> RelayContext" where
  "relay ctx = ctx\<lparr>rc_direct := False\<rparr>"

definition relay_direct :: "RelayContext \<Rightarrow> RelayContext" where
  "relay_direct ctx = ctx\<lparr>rc_direct := True\<rparr>"

definition relay_handler ::
  "('k, 'w) writer_ops \<Rightarrow> bytes \<Rightarrow> u64 \<Rightarrow> MuxEvent \<Rightarrow> ('k, 'w) relay_world \<Rightarrow>
     (RelayContext \<times> ('k, 'w) endpoint \<times> ('k, 'w) relay_world) option" where
  "relay_handler ops user cid event S =
     (case ev_body event of
        StreamOpenRequest req \<Rightarrow>
          (case MuxStream_New ops cid (head_sid (ev_head event)) (rl_mux S) of (p, W) \<Rightarrow>
             Some (RelayContext_init\<lparr>rc_user := user, rc_remote_host := so_remote_host req,
                     rc_remote_port := ucast (so_remote_port req), rc_is_tcp := so_is_tcp req,
                     rc_is_tls := so_is_tls req, rc_direct := False\<rparr>,
                   Stream ops p, S\<lparr>rl_mux := MuxStream_SetTLS p (so_is_tls req) W\<rparr>))
      | _ \<Rightarrow> None)"

subsection \<open>Both directions\<close>

record ('k, 'w) relay_run =
  rr_world :: "('k, 'w) relay_world"
  rr_up :: xfer
  rr_down :: xfer
  up_got :: bytes
  down_got :: bytes

fun inflight :: "xfer \<Rightarrow> bytes" where
  "inflight (Writing data len) = take len data"
| "inflight x = []"

text \<open>
  \<open>up_got\<close> and \<open>down_got\<close> are history: all bytes a direction has read.  \<open>interfere\<close> is what the other
  coroutines of the node may do meanwhile.
\<close>

inductive relay_step ::
  "bool \<Rightarrow> bool \<Rightarrow> ('k, 'w) endpoint \<Rightarrow> ('k, 'w) endpoint \<Rightarrow>
     (('k, 'w) relay_world \<Rightarrow> ('k, 'w) relay_world \<Rightarrow> bool) \<Rightarrow> ('k, 'w) relay_run \<Rightarrow> ('k, 'w) relay_run \<Rightarrow> bool"
  for timed is_entry L R interfere where
  up_read: "rr_up r = Reading \<Longrightarrow> transfer_read timed now L R res (rr_world r) = Some (x, S') \<Longrightarrow>
    relay_step timed is_entry L R interfere r (r\<lparr>rr_world := S', rr_up := x, up_got := up_got r @ inflight x\<rparr>)"
| up_write: "rr_up r = Writing data len \<Longrightarrow> transfer_write timed now is_entry L R fault data len (rr_world r) = (x, S') \<Longrightarrow>
    relay_step timed is_entry L R interfere r (r\<lparr>rr_world := S', rr_up := x\<rparr>)"
| down_read: "rr_down r = Reading \<Longrightarrow> transfer_read timed now R L res (rr_world r) = Some (x, S') \<Longrightarrow>
    relay_step timed is_entry L R interfere r (r\<lparr>rr_world := S', rr_down := x, down_got := down_got r @ inflight x\<rparr>)"
| down_write: "rr_down r = Writing data len \<Longrightarrow> transfer_write timed now is_entry R L fault data len (rr_world r) = (x, S') \<Longrightarrow>
    relay_step timed is_entry L R interfere r (r\<lparr>rr_world := S', rr_down := x\<rparr>)"
| timeout: "timed \<Longrightarrow>
    relay_step timed is_entry L R interfere r (r\<lparr>rr_world := close_local L (rr_world r)\<rparr>)"
| other: "interfere (rr_world r) S' \<Longrightarrow>
    relay_step timed is_entry L R interfere r (r\<lparr>rr_world := S'\<rparr>)"

inductive_cases relay_stepE: "relay_step timed is_entry L R interfere r r'"

inductive relay_runs ::
  "bool \<Rightarrow> bool \<Rightarrow> ('k, 'w) endpoint \<Rightarrow> ('k, 'w) endpoint \<Rightarrow>
     (('k, 'w) relay_world \<Rightarrow> ('k, 'w) relay_world \<Rightarrow> bool) \<Rightarrow> ('k, 'w) relay_world \<Rightarrow> ('k, 'w) relay_run \<Rightarrow> bool"
  for timed is_entry L R interfere S where
  start: "relay_runs timed is_entry L R interfere S
    \<lparr>rr_world = S, rr_up = Reading, rr_down = Reading, up_got = [], down_got = []\<rparr>"
| step: "relay_runs timed is_entry L R interfere S r \<Longrightarrow> relay_step timed is_entry L R interfere r r' \<Longrightarrow>
    relay_runs timed is_entry L R interfere S r'"

subsection \<open>What streams do to the log and the store\<close>

definition unaffected :: "('k, 'w) writer_ops \<Rightarrow> ('w \<Rightarrow> 'a) \<Rightarrow> bool" where
  "unaffected ops f \<longleftrightarrow> (\<forall>k ev w ok w'. run_writer ops k ev w = (ok, w') \<longrightarrow> f w' = f w)"

lemma write_tries_unaffected:
  assumes "unaffected ops f"
  shows "write_tries ops n ev k w = (ok, k', w') \<Longrightarrow> f w' = f w"
proof (induction n arbitrary: k w)
  case (Suc n)
  show ?case
  proof (cases k)
    case None
    with Suc show ?thesis by simp
  next
    case (Some wr)
    obtain b w1 where r: "run_writer ops wr ev w = (b, w1)" by fastforce
    then have "f w1 = f w" using assms by (auto simp: unaffected_def)
    with Suc.IH [of "make_writer ops w1" w1] Suc.prems Some r show ?thesis by (auto split: if_splits)
  qed
qed auto

text \<open>The change of a stream that a write or a close makes.\<close>

definition same_stream :: "'k MuxStream \<Rightarrow> 'k MuxStream \<Rightarrow> bool" where
  "same_stream s s' \<longleftrightarrow> stream_sid s' = stream_sid s \<and> stream_client_id s' = stream_client_id s \<and>
     data_channel s' = data_channel s \<and> (closed s \<longrightarrow> closed s')"

definition log_keeps :: "('w \<Rightarrow> MuxEvent list) \<Rightarrow> u32 \<Rightarrow> ('k, 'w) mux_world \<Rightarrow> ('k, 'w) mux_world \<Rightarrow> bool" where
  "log_keeps sent sid W W' \<longleftrightarrow>
     sent (outer W') = sent (outer W) \<or> sent (outer W') = sent (outer W) @ [StreamCloseRequest_of sid]"

lemma WriteEvent_effect:
  assumes s: "stream_objs W p = Some s" and w: "MuxStream_WriteEvent ops p ev W = (ok, W')"
  shows "\<exists>s'. stream_objs W' = (stream_objs W)(p \<mapsto> s') \<and> same_stream s s' \<and> (\<not> ok \<longrightarrow> closed s')"
    and "unaffected ops f \<Longrightarrow> f (outer W') = f (outer W)"
    and "event_sink ops sent \<Longrightarrow> if ok then sent (outer W') = sent (outer W) @ [ev] else log_keeps sent (stream_sid s) W W'"
proof -
  obtain ok1 k w1 where t: "write_tries ops 3 ev (event_writer s) (outer W) = (ok1, k, w1)"
    by (metis prod_cases3)
  obtain ok2 k2 w2 where t2: "write_tries ops 3 (StreamCloseRequest_of (stream_sid s)) k w1 = (ok2, k2, w2)"
    by (metis prod_cases3)
  have eq: "MuxStream_WriteEvent ops p ev W =
    (if ok1 \<or> closed s then (ok1, put_stream p (s\<lparr>event_writer := k\<rparr>) (W\<lparr>outer := w1\<rparr>))
     else (False, (close_stream p (s\<lparr>event_writer := k2\<rparr>) W)\<lparr>outer := w2\<rparr>))"
    using WriteEvent_closed [OF s _ t] WriteEvent_open [OF s _ t t2] by (cases "closed s") auto
  show "\<exists>s'. stream_objs W' = (stream_objs W)(p \<mapsto> s') \<and> same_stream s s' \<and> (\<not> ok \<longrightarrow> closed s')"
    using w eq by (auto simp: put_stream_def close_stream_def MuxStream_Remove_def same_stream_def split: if_splits)
  show "f (outer W') = f (outer W)" if u: "unaffected ops f"
    using w eq write_tries_unaffected [OF u t] write_tries_unaffected [OF u t2]
    by (auto simp: put_stream_def split: if_splits)
  show "if ok then sent (outer W') = sent (outer W) @ [ev] else log_keeps sent (stream_sid s) W W'"
    if e: "event_sink ops sent"
    using w eq write_tries_sent_of [OF e t] write_tries_sent_of [OF e t2]
    by (auto simp: put_stream_def log_keeps_def split: if_splits)
qed

lemma Close_effect:
  assumes s: "stream_objs W p = Some s" and w: "MuxStream_Close ops p False W = (ec, W')"
  shows "\<exists>s'. stream_objs W' = (stream_objs W)(p \<mapsto> s') \<and> same_stream s s' \<and> closed s'"
    and "unaffected ops f \<Longrightarrow> f (outer W') = f (outer W)"
    and "event_sink ops sent \<Longrightarrow> log_keeps sent (stream_sid s) W W'"
proof -
  obtain ok k w1 where t: "write_tries ops 3 (StreamCloseRequest_of (stream_sid s)) (event_writer s) (outer W) = (ok, k, w1)"
    by (metis prod_cases3)
  have eq: "MuxStream_Close ops p False W =
    (if closed s then (Ok, W) else (if ok then Ok else NoLink, (close_stream p (s\<lparr>event_writer := k\<rparr>) W)\<lparr>outer := w1\<rparr>))"
    using Close_closed [OF s] Close_local [OF s _ t] by auto
  have id: "(stream_objs W)(p \<mapsto> s) = stream_objs W" using s by auto
  show "\<exists>s'. stream_objs W' = (stream_objs W)(p \<mapsto> s') \<and> same_stream s s' \<and> closed s'"
  proof (cases "closed s")
    case True
    with w eq id show ?thesis by (intro exI [of _ s]) (simp add: same_stream_def)
  next
    case False
    with w eq show ?thesis by (auto simp: put_stream_def close_stream_def MuxStream_Remove_def same_stream_def)
  qed
  show "f (outer W') = f (outer W)" if u: "unaffected ops f"
    using w eq write_tries_unaffected [OF u t] by (auto split: if_splits)
  show "log_keeps sent (stream_sid s) W W'" if e: "event_sink ops sent"
    using w eq write_tries_sent_of [OF e t] by (auto simp: log_keeps_def split: if_splits)
qed

subsection \<open>What reaches an end\<close>

text \<open>The bytes in the chunks sent for a stream.\<close>

definition chunk_bytes :: "u32 \<Rightarrow> MuxEvent list \<Rightarrow> bytes" where
  "chunk_bytes sid evs = concat (map (\<lambda>e. case ev_body e of
     StreamChunk c n \<Rightarrow> if head_sid (ev_head e) = sid then take (unat n) c else [] | _ \<Rightarrow> []) evs)"

fun delivered :: "u32 \<Rightarrow> ('w \<Rightarrow> MuxEvent list) \<Rightarrow> ('k, 'w) endpoint \<Rightarrow> ('k, 'w) relay_world \<Rightarrow> bytes" where
  "delivered sid sent (Socket i) S = sock_out S i"
| "delivered sid sent (Stream ops p) S = chunk_bytes sid (sent (outer (rl_mux S)))"

text \<open>The stream is there, with its id; chunk lengths are 32-bit numbers.\<close>

fun ep_good :: "u32 \<Rightarrow> ('k, 'w) endpoint \<Rightarrow> ('k, 'w) relay_world \<Rightarrow> bool" where
  "ep_good sid (Socket i) S = True"
| "ep_good sid (Stream ops p) S = (\<exists>s. stream_objs (rl_mux S) p = Some s \<and> stream_sid s = sid \<and>
     (\<forall>c\<in>set (data_channel s). snd c < 2 ^ 32))"

fun ep_closed :: "('k, 'w) endpoint \<Rightarrow> ('k, 'w) relay_world \<Rightarrow> bool" where
  "ep_closed (Socket i) S = (\<not> sock_open S i)"
| "ep_closed (Stream ops p) S = (\<exists>s. stream_objs (rl_mux S) p = Some s \<and> closed s)"

lemma chunk_bytes_append [simp]: "chunk_bytes sid (xs @ ys) = chunk_bytes sid xs @ chunk_bytes sid ys"
  by (simp add: chunk_bytes_def)

lemma chunk_bytes_close [simp]: "chunk_bytes sid [StreamCloseRequest_of sid'] = []"
  by (simp add: chunk_bytes_def StreamCloseRequest_of_def make_event_def Let_def)

lemma chunk_bytes_chunk [simp]:
  "n < 2 ^ 32 \<Longrightarrow> chunk_bytes sid [StreamChunk_of sid flag buf n] = take n buf"
  by (simp add: chunk_bytes_def StreamChunk_of_def make_event_def Let_def unat_of_nat)

lemma log_keeps_chunks: "log_keeps sent sid' W W' \<Longrightarrow> chunk_bytes sid (sent (outer W')) = chunk_bytes sid (sent (outer W))"
  by (auto simp: log_keeps_def)

lemma same_stream_good:
  "ep_good sid (Stream ops p) S \<Longrightarrow> stream_objs (rl_mux S) q = Some s \<Longrightarrow> same_stream s s' \<Longrightarrow>
   stream_objs W = (stream_objs (rl_mux S))(q \<mapsto> s') \<Longrightarrow> ep_good sid (Stream ops p) (S\<lparr>rl_mux := W\<rparr>)"
  by (auto simp: same_stream_def)

definition pair_good :: "u32 \<Rightarrow> u32 \<Rightarrow> ('k, 'w) endpoint \<Rightarrow> ('k, 'w) endpoint \<Rightarrow> ('k, 'w) relay_world \<Rightarrow> bool" where
  "pair_good sid_L sid_R L R S \<longleftrightarrow> ep_good sid_L L S \<and> ep_good sid_R R S"

text \<open>A step that delivers nothing to either end and reopens none.\<close>

definition pair_quiet ::
  "u32 \<Rightarrow> u32 \<Rightarrow> ('w \<Rightarrow> MuxEvent list) \<Rightarrow> ('w \<Rightarrow> MuxEvent list) \<Rightarrow> ('k, 'w) endpoint \<Rightarrow> ('k, 'w) endpoint \<Rightarrow>
     ('k, 'w) relay_world \<Rightarrow> ('k, 'w) relay_world \<Rightarrow> bool" where
  "pair_quiet sid_L sid_R sent_L sent_R L R S S' \<longleftrightarrow>
     delivered sid_L sent_L L S' = delivered sid_L sent_L L S \<and>
     delivered sid_R sent_R R S' = delivered sid_R sent_R R S \<and> pair_good sid_L sid_R L R S' \<and>
     (ep_closed L S \<longrightarrow> ep_closed L S') \<and> (ep_closed R S \<longrightarrow> ep_closed R S')"

lemma pair_swap:
  "pair_good sid_R sid_L R L = pair_good sid_L sid_R L R"
  "pair_quiet sid_R sid_L sent_R sent_L R L = pair_quiet sid_L sid_R sent_L sent_R L R"
  by (auto simp: fun_eq_iff pair_good_def pair_quiet_def)

text \<open>
  The two ends of a relay: different sockets or streams; the writers of a stream log what they
  send and do not touch the other end's log.
\<close>

locale relay_pair =
  fixes L R :: "('k, 'w) endpoint" and sid_L sid_R :: u32 and sent_L sent_R :: "'w \<Rightarrow> MuxEvent list"
  assumes sink_L: "L = Stream ops p \<Longrightarrow> event_sink ops sent_L"
    and sink_R: "R = Stream ops p \<Longrightarrow> event_sink ops sent_R"
    and apart_L: "L = Stream ops p \<Longrightarrow> R = Stream ops' q \<Longrightarrow> p \<noteq> q \<and> unaffected ops (chunk_bytes sid_R \<circ> sent_R)"
    and apart_R: "R = Stream ops p \<Longrightarrow> L = Stream ops' q \<Longrightarrow> unaffected ops (chunk_bytes sid_L \<circ> sent_L)"
    and sockets: "L = Socket i \<Longrightarrow> R \<noteq> Socket i"
begin

lemma mirror: "relay_pair R L sid_R sid_L sent_R sent_L"
  by (rule relay_pair.intro) (use sink_L sink_R apart_L apart_R sockets in blast)+

abbreviation good :: "('k, 'w) relay_world \<Rightarrow> bool" where
  "good \<equiv> pair_good sid_L sid_R L R"

abbreviation quiet :: "('k, 'w) relay_world \<Rightarrow> ('k, 'w) relay_world \<Rightarrow> bool" where
  "quiet \<equiv> pair_quiet sid_L sid_R sent_L sent_R L R"

lemma quiet_trans: "quiet S S' \<Longrightarrow> quiet S' S'' \<Longrightarrow> quiet S S''"
  by (auto simp: pair_quiet_def)

lemma quiet_routine:
  assumes "good S"
  shows "quiet S (transfer_routine timed now S)"
  using assms by (cases L; cases R) (auto simp: pair_quiet_def pair_good_def transfer_routine_def)

lemma read_quiet:
  assumes g: "good S" and r: "ep_read L res S = Some (d, S')"
  shows "quiet S S' \<and> (\<forall>b n. d = Some (b, n) \<longrightarrow> n < 2 ^ 32 \<and> \<not> ep_closed L S)"
proof (cases L)
  case (Socket i)
  with g r show ?thesis by (cases R) (auto simp: pair_quiet_def pair_good_def split: option.splits if_splits)
next
  case (Stream ops p)
  then obtain s where s: "stream_objs (rl_mux S) p = Some s" "stream_sid s = sid_L" "\<forall>c\<in>set (data_channel s). snd c < 2 ^ 32"
    using g by (auto simp: pair_good_def)
  show ?thesis
  proof (cases "\<not> closed s \<and> data_channel s \<noteq> []")
    case True
    then obtain buf len rest where c: "data_channel s = (buf, len) # rest" by (cases "data_channel s") auto
    have S': "S' = S\<lparr>rl_mux := put_stream p (s\<lparr>data_channel := rest\<rparr>) (rl_mux S)\<rparr>" "d = Some (buf, len)"
      using r Stream s(1) c True by (auto simp: MuxStream_Read_def)
    have "quiet S S'"
    proof (cases R)
      case (Socket j)
      with S' Stream s c True g show ?thesis by (auto simp: pair_quiet_def pair_good_def put_stream_def)
    next
      case R: (Stream ops' q)
      have "p \<noteq> q" using apart_L [OF Stream R] by simp
      with S' Stream R s c True g show ?thesis by (auto simp: pair_quiet_def pair_good_def put_stream_def)
    qed
    with S' s(3) c True Stream s(1) show ?thesis by simp
  next
    case False
    with r Stream s(1) have "S' = S" "d = None"
      by (auto simp: MuxStream_Read_def split: if_splits list.splits)
    with g show ?thesis by (simp add: pair_quiet_def)
  qed
qed

text \<open>A change of the store at one end's stream.\<close>

lemma store_quiet:
  assumes g: "good S" and L: "L = Stream ops p" and s: "stream_objs (rl_mux S) p = Some s"
    and s': "stream_objs W = (stream_objs (rl_mux S))(p \<mapsto> s')" "same_stream s s'"
    and u: "\<And>f :: 'w \<Rightarrow> bytes. unaffected ops f \<Longrightarrow> f (outer W) = f (outer (rl_mux S))"
  shows "good (S\<lparr>rl_mux := W\<rparr>) \<and> delivered sid_R sent_R R (S\<lparr>rl_mux := W\<rparr>) = delivered sid_R sent_R R S \<and>
    (ep_closed L S \<longrightarrow> ep_closed L (S\<lparr>rl_mux := W\<rparr>)) \<and> (ep_closed R S \<longrightarrow> ep_closed R (S\<lparr>rl_mux := W\<rparr>))"
proof (cases R)
  case (Socket j)
  with g L s s' show ?thesis by (auto simp: pair_good_def same_stream_def)
next
  case (Stream ops' q)
  have "p \<noteq> q" "(chunk_bytes sid_R \<circ> sent_R) (outer W) = (chunk_bytes sid_R \<circ> sent_R) (outer (rl_mux S))"
    using apart_L [OF L Stream] u by blast+
  with g L Stream s s' show ?thesis by (auto simp: pair_good_def same_stream_def)
qed

lemma close_quiet:
  assumes g: "good S"
  shows "quiet S (ep_close L S) \<and> ep_closed L (ep_close L S)"
proof (cases L)
  case (Socket i)
  with g sockets show ?thesis by (cases R) (auto simp: pair_quiet_def pair_good_def)
next
  case (Stream ops p)
  then obtain s where s: "stream_objs (rl_mux S) p = Some s" "stream_sid s = sid_L" using g by (auto simp: pair_good_def)
  obtain ec W where c: "MuxStream_Close ops p False (rl_mux S) = (ec, W)" by fastforce
  note eff = Close_effect [OF s(1) c]
  obtain s' where s': "stream_objs W = (stream_objs (rl_mux S))(p \<mapsto> s')" "same_stream s s'" "closed s'" using eff(1) by blast
  have "delivered sid_L sent_L L (S\<lparr>rl_mux := W\<rparr>) = delivered sid_L sent_L L S"
    using Stream log_keeps_chunks [OF eff(3) [OF sink_L [OF Stream]]] by simp
  with store_quiet [OF g Stream s(1) s'(1,2) eff(2)] s' c Stream show ?thesis by (simp add: pair_quiet_def)
qed

lemma write_effect:
  assumes g: "good S" and n: "n < 2 ^ 32" and w: "ep_write is_entry L fault buf n S = (ok, S')"
  shows "good S' \<and> delivered sid_R sent_R R S' = delivered sid_R sent_R R S \<and>
    (ep_closed L S \<longrightarrow> ep_closed L S') \<and> (ep_closed R S \<longrightarrow> ep_closed R S') \<and>
    (\<exists>m. delivered sid_L sent_L L S' = delivered sid_L sent_L L S @ take m (take n buf) \<and> (ok \<longrightarrow> n \<le> m))"
proof (cases L)
  case (Socket i)
  have R: "delivered sid_R sent_R R (S\<lparr>sock_out := (sock_out S)(i := x)\<rparr>) = delivered sid_R sent_R R S" for x
    using sockets [OF Socket] by (cases R) auto
  have G: "good (S\<lparr>sock_out := (sock_out S)(i := x)\<rparr>)" "ep_closed R (S\<lparr>sock_out := (sock_out S)(i := x)\<rparr>) = ep_closed R S" for x
    using g Socket by (cases R; simp add: pair_good_def)+
  show ?thesis
  proof (cases "sock_open S i")
    case False
    with Socket w g show ?thesis by (intro conjI exI [of _ 0]) auto
  next
    case True
    with Socket w R G g show ?thesis
      by (cases fault) (auto intro: exI [of _ n])
  qed
next
  case (Stream ops p)
  then obtain s where s: "stream_objs (rl_mux S) p = Some s" "stream_sid s = sid_L" using g by (auto simp: pair_good_def)
  define flag where "flag = (if is_tls s then (if write_bytes s = 0 \<and> is_entry then False else True) else False)"
  define s1 where "s1 = s\<lparr>write_bytes := write_bytes s + word_of_nat n\<rparr>"
  define W1 where "W1 = put_stream p s1 (rl_mux S)"
  obtain ok1 W where c: "MuxStream_WriteEvent ops p (StreamChunk_of sid_L flag buf n) W1 = (ok1, W)" by fastforce
  have S': "S' = S\<lparr>rl_mux := W\<rparr>" "ok = ok1"
    using w Stream s c by (auto simp: MuxStream_Write_def Let_def flag_def W1_def s1_def split: if_splits)
  have W1: "stream_objs W1 p = Some s1" "outer W1 = outer (rl_mux S)" by (simp_all add: W1_def put_stream_def)
  note eff = WriteEvent_effect [OF W1(1) c]
  obtain s' where s': "stream_objs W = (stream_objs W1)(p \<mapsto> s')" "same_stream s1 s'" using eff(1) by blast
  have st: "stream_objs W = (stream_objs (rl_mux S))(p \<mapsto> s')" "same_stream s s'"
    using s' by (simp_all add: W1_def put_stream_def s1_def same_stream_def)
  have sid: "stream_sid s1 = sid_L" using s(2) by (simp add: s1_def)
  have "\<exists>m. delivered sid_L sent_L L (S\<lparr>rl_mux := W\<rparr>) = delivered sid_L sent_L L S @ take m (take n buf) \<and> (ok1 \<longrightarrow> n \<le> m)"
  proof (cases ok1)
    case True
    with eff(3) [OF sink_L [OF Stream]] W1(2) Stream n show ?thesis by (intro exI [of _ n]) simp
  next
    case False
    with log_keeps_chunks [of sent_L "stream_sid s1" W1 W sid_L] eff(3) [OF sink_L [OF Stream]] W1(2) Stream show ?thesis
      by (intro exI [of _ 0]) simp
  qed
  moreover have "f (outer W) = f (outer (rl_mux S))" if "unaffected ops f" for f :: "'w \<Rightarrow> bytes"
    using eff(2) [OF that] W1(2) by simp
  ultimately show ?thesis using store_quiet [OF g Stream s(1) st] S' by simp
qed

end

subsection \<open>A direction\<close>

fun after_end :: "('k, 'w) endpoint \<Rightarrow> ('k, 'w) endpoint \<Rightarrow> ('k, 'w) relay_world \<Rightarrow> bool" where
  "after_end (Socket i) (Socket j) S = True"
| "after_end (Stream ops p) (Socket j) S = (ep_closed (Stream ops p) S \<and> ep_closed (Socket j) S)"
| "after_end src dst S = ep_closed dst S"

lemma after_end_mono:
  "after_end src dst S \<Longrightarrow> (ep_closed src S \<longrightarrow> ep_closed src S') \<Longrightarrow> (ep_closed dst S \<longrightarrow> ep_closed dst S') \<Longrightarrow>
   after_end src dst S'"
  by (cases src; cases dst) auto

text \<open>What was read is what was delivered and what is in flight; a failed write may lose a rest.\<close>

definition dir_inv :: "bytes \<Rightarrow> xfer \<Rightarrow> bytes \<Rightarrow> bytes \<Rightarrow> bool" where
  "dir_inv d0 x got d \<longleftrightarrow>
     (\<exists>put lost. d = d0 @ put \<and> got = put @ lost \<and> (x \<noteq> SinkFailed \<longrightarrow> lost = inflight x)) \<and>
     (\<forall>data len. x = Writing data len \<longrightarrow> len < 2 ^ 32)"

lemma dir_inv_read:
  assumes "dir_inv d0 Reading got d" "x \<noteq> SinkFailed" "\<forall>data len. x = Writing data len \<longrightarrow> len < 2 ^ 32"
  shows "dir_inv d0 x (got @ inflight x) d"
  using assms by (auto simp: dir_inv_def)

lemma dir_inv_write:
  assumes "dir_inv d0 (Writing data len) got d" "d' = d @ take m (take len data)" "x = Reading \<and> len \<le> m \<or> x = SinkFailed"
  shows "dir_inv d0 x got d'"
proof -
  obtain put where put: "d = d0 @ put" "got = put @ take len data" using assms(1) by (auto simp: dir_inv_def)
  have split: "take m (take len data) @ drop m (take len data) = take len data" by (rule append_take_drop_id)
  show ?thesis
  proof (cases "x = Reading")
    case True
    with assms(3) have "take m (take len data) = take len data" by (simp add: min_def)
    with True put assms(2) show ?thesis by (simp add: dir_inv_def)
  next
    case False
    with assms(3) have "x = SinkFailed" by blast
    then show ?thesis unfolding dir_inv_def
      by (intro conjI exI [of _ "put @ take m (take len data)"] exI [of _ "drop m (take len data)"])
        (simp_all only: put assms(2) append_assoc split xfer.simps simp_thms)
  qed
qed

context relay_pair
begin

lemmas close_quiet_R = relay_pair.close_quiet [OF mirror, unfolded pair_swap(1) [of sid_R sid_L R L] pair_swap(2) [of sid_R sid_L sent_R sent_L R L]]

lemma end_quiet:
  assumes "good S"
  shows "quiet S (transfer_end L R S) \<and> after_end L R (transfer_end L R S)"
proof (cases L)
  case L: (Socket i)
  show ?thesis
  proof (cases R)
    case (Socket j)
    with L assms show ?thesis by (simp add: pair_quiet_def)
  next
    case (Stream ops q)
    with L close_quiet_R [OF assms] show ?thesis by simp
  qed
next
  case L: (Stream ops p)
  show ?thesis
  proof (cases R)
    case (Socket j)
    have q: "quiet S (ep_close L S)" "ep_closed L (ep_close L S)" using close_quiet [OF assms] by auto
    then have "good (ep_close L S)" by (simp add: pair_quiet_def)
    note c = close_quiet_R [OF this]
    have "quiet S (ep_close R (ep_close L S))" using c q(1) quiet_trans by blast
    moreover have "ep_closed L (ep_close R (ep_close L S))" using c q(2) by (unfold pair_quiet_def) blast
    ultimately show ?thesis using c unfolding L Socket by simp
  next
    case (Stream ops' q)
    with L close_quiet_R [OF assms] show ?thesis by simp
  qed
qed

lemma transfer_read_dir:
  assumes g: "good S" and r: "transfer_read timed now L R res S = Some (x, S')"
  shows "quiet S S' \<and> x \<noteq> Reading \<and> x \<noteq> SinkFailed \<and> (\<forall>data len. x = Writing data len \<longrightarrow> len < 2 ^ 32) \<and>
    (x = SourceEnded \<longrightarrow> after_end L R S')"
proof -
  obtain d S1 where e: "ep_read L res S = Some (d, S1)" using r by (auto simp: transfer_read_def split: option.splits)
  note q = read_quiet [OF g e]
  then have g1: "good S1" by (simp add: pair_quiet_def)
  show ?thesis
  proof (cases d)
    case None
    with r e have "x = SourceEnded" "S' = transfer_end L R S1" by (simp_all add: transfer_read_def)
    with end_quiet [OF g1] q quiet_trans show ?thesis by blast
  next
    case (Some c)
    with r e have "x = Writing (fst c) (snd c)" "S' = transfer_routine timed now S1"
      by (auto simp: transfer_read_def split: prod.splits)
    with quiet_routine [OF g1, of timed now] q quiet_trans Some show ?thesis by (cases c) auto
  qed
qed

lemma transfer_write_dir:
  assumes g: "good S" and n: "len < 2 ^ 32" and w: "transfer_write timed now is_entry L R fault data len S = (x, S')"
  shows "good S' \<and> delivered sid_L sent_L L S' = delivered sid_L sent_L L S \<and>
    (ep_closed L S \<longrightarrow> ep_closed L S') \<and> (ep_closed R S \<longrightarrow> ep_closed R S') \<and>
    (\<exists>m. delivered sid_R sent_R R S' = delivered sid_R sent_R R S @ take m (take len data) \<and>
      (x = Reading \<and> len \<le> m \<or> x = SinkFailed \<and> after_end L R S'))"
proof -
  obtain ok S1 where e: "ep_write is_entry R fault data len S = (ok, S1)" by fastforce
  have g': "pair_good sid_R sid_L R L S" using g by (simp add: pair_good_def)
  from relay_pair.write_effect [OF mirror g' n e] obtain m where
    1: "good S1" "delivered sid_L sent_L L S1 = delivered sid_L sent_L L S"
      "ep_closed L S \<longrightarrow> ep_closed L S1" "ep_closed R S \<longrightarrow> ep_closed R S1"
      "delivered sid_R sent_R R S1 = delivered sid_R sent_R R S @ take m (take len data)" "ok \<longrightarrow> len \<le> m"
    by (auto simp: pair_good_def)
  show ?thesis
  proof (cases ok)
    case True
    with w e have "x = Reading" "S' = transfer_routine timed now S1" by (simp_all add: transfer_write_def)
    with 1 True quiet_routine [OF 1(1), of timed now] show ?thesis
      by (intro conjI) (auto simp: pair_quiet_def intro!: exI [of _ m])
  next
    case False
    with w e have "x = SinkFailed" "S' = transfer_end L R S1" by (simp_all add: transfer_write_def)
    with 1 end_quiet [OF 1(1)] show ?thesis
      by (intro conjI) (auto simp: pair_quiet_def intro!: exI [of _ m])
  qed
qed

end

subsection \<open>The run\<close>

definition ended :: "xfer \<Rightarrow> bool" where
  "ended x \<longleftrightarrow> x = SourceEnded \<or> x = SinkFailed"

definition run_inv ::
  "u32 \<Rightarrow> u32 \<Rightarrow> ('w \<Rightarrow> MuxEvent list) \<Rightarrow> ('w \<Rightarrow> MuxEvent list) \<Rightarrow> ('k, 'w) endpoint \<Rightarrow> ('k, 'w) endpoint \<Rightarrow>
     ('k, 'w) relay_world \<Rightarrow> ('k, 'w) relay_run \<Rightarrow> bool" where
  "run_inv sid_L sid_R sent_L sent_R L R S0 r \<longleftrightarrow>
     pair_good sid_L sid_R L R (rr_world r) \<and>
     dir_inv (delivered sid_R sent_R R S0) (rr_up r) (up_got r) (delivered sid_R sent_R R (rr_world r)) \<and>
     dir_inv (delivered sid_L sent_L L S0) (rr_down r) (down_got r) (delivered sid_L sent_L L (rr_world r)) \<and>
     (ended (rr_up r) \<longrightarrow> after_end L R (rr_world r)) \<and> (ended (rr_down r) \<longrightarrow> after_end R L (rr_world r))"

context relay_pair
begin

lemmas transfer_read_dir_R = relay_pair.transfer_read_dir [OF mirror, unfolded pair_swap(1) [of sid_R sid_L R L] pair_swap(2) [of sid_R sid_L sent_R sent_L R L]]
lemmas transfer_write_dir_R = relay_pair.transfer_write_dir [OF mirror, unfolded pair_swap(1) [of sid_R sid_L R L]]

lemma run_inv_quiet:
  assumes "run_inv sid_L sid_R sent_L sent_R L R S0 r" "quiet (rr_world r) S'"
  shows "run_inv sid_L sid_R sent_L sent_R L R S0 (r\<lparr>rr_world := S'\<rparr>)"
  using assms after_end_mono by (fastforce simp: run_inv_def pair_quiet_def)

lemma run_inv_step:
  assumes inv: "run_inv sid_L sid_R sent_L sent_R L R S0 r" and st: "relay_step timed is_entry L R interfere r r'"
    and other: "\<And>S S'. interfere S S' \<Longrightarrow> good S \<Longrightarrow> quiet S S'"
  shows "run_inv sid_L sid_R sent_L sent_R L R S0 r'"
proof -
  have g: "good (rr_world r)" using inv by (simp add: run_inv_def)
  from st show ?thesis
  proof cases
    case (up_read now res x S')
    note d = transfer_read_dir [OF g up_read(3)]
    from run_inv_quiet [OF inv conjunct1 [OF d]] d dir_inv_read up_read(2) show ?thesis
      unfolding up_read(1) by (auto simp: run_inv_def ended_def)
  next
    case (up_write data len now fault x S')
    have n: "len < 2 ^ 32" using inv up_write(2) by (simp add: run_inv_def dir_inv_def)
    note d = transfer_write_dir [OF g n up_write(3)]
    then obtain m where m: "delivered sid_R sent_R R S' = delivered sid_R sent_R R (rr_world r) @ take m (take len data)"
        "x = Reading \<and> len \<le> m \<or> x = SinkFailed \<and> after_end L R S'" by blast
    have up: "dir_inv (delivered sid_R sent_R R S0) x (up_got r) (delivered sid_R sent_R R S')"
      by (rule dir_inv_write [OF _ m(1)]) (use inv up_write(2) m(2) in \<open>auto simp: run_inv_def\<close>)
    have "ended (rr_down r) \<longrightarrow> after_end R L S'" using inv d after_end_mono by (auto simp: run_inv_def)
    with inv d up m(2) show ?thesis unfolding up_write(1) by (auto simp: run_inv_def ended_def)
  next
    case (down_read now res x S')
    note d = transfer_read_dir_R [OF g down_read(3)]
    from run_inv_quiet [OF inv conjunct1 [OF d]] d dir_inv_read down_read(2) show ?thesis
      unfolding down_read(1) by (auto simp: run_inv_def ended_def)
  next
    case (down_write data len now fault x S')
    have n: "len < 2 ^ 32" using inv down_write(2) by (simp add: run_inv_def dir_inv_def)
    note d = transfer_write_dir_R [OF g n down_write(3)]
    then obtain m where m: "delivered sid_L sent_L L S' = delivered sid_L sent_L L (rr_world r) @ take m (take len data)"
        "x = Reading \<and> len \<le> m \<or> x = SinkFailed \<and> after_end R L S'" by blast
    have down: "dir_inv (delivered sid_L sent_L L S0) x (down_got r) (delivered sid_L sent_L L S')"
      by (rule dir_inv_write [OF _ m(1)]) (use inv down_write(2) m(2) in \<open>auto simp: run_inv_def\<close>)
    have "ended (rr_up r) \<longrightarrow> after_end L R S'" using inv d after_end_mono by (auto simp: run_inv_def)
    with inv d down m(2) show ?thesis unfolding down_write(1) by (auto simp: run_inv_def ended_def)
  next
    case timeout
    then show ?thesis using run_inv_quiet [OF inv] close_quiet [OF g] by (simp add: close_local_def)
  next
    case (other S')
    then show ?thesis using run_inv_quiet [OF inv] assms(3) g by simp
  qed
qed

lemma runs_inv:
  assumes "relay_runs timed is_entry L R interfere S0 r" "good S0"
    and "\<And>S S'. interfere S S' \<Longrightarrow> good S \<Longrightarrow> quiet S S'"
  shows "run_inv sid_L sid_R sent_L sent_R L R S0 r"
  using assms(1)
proof induction
  case start
  show ?case using assms(2) by (simp add: run_inv_def dir_inv_def ended_def)
next
  case (step r r')
  show ?case by (rule run_inv_step [OF step.IH step.hyps(2) assms(3)])
qed

end

subsection \<open>The relays of the program\<close>

text \<open>An entry node relays a socket to a stream, an exit node a stream to a socket.\<close>

interpretation entry_relay: relay_pair "Socket i" "Stream (session_ops enc wr tm sr) p" sid_L sid_R sent_L snd
  for i enc wr tm sr p sid_L sid_R sent_L
  by (rule relay_pair.intro) (auto simp: session_sink.event_sink_axioms)

interpretation exit_relay: relay_pair "Stream (session_ops enc wr tm sr) p" "Socket i" sid_L sid_R snd sent_R
  for i enc wr tm sr p sid_L sid_R sent_R
  by (rule relay_pair.intro) (auto simp: session_sink.event_sink_axioms)

lemma closed_read:
  "ep_closed X S \<Longrightarrow> ep_read X res S = Some (None, S)"
  by (cases X) (auto simp: MuxStream_Read_def split: option.split)

lemma after_end_closed:
  "after_end src dst S \<Longrightarrow> \<not> (\<exists>i j. src = Socket i \<and> dst = Socket j) \<Longrightarrow> ep_closed dst S"
  by (cases src; cases dst) auto

text \<open>What a connection's read loop does to the stream of a relay meanwhile: it offers chunks, or closes it.\<close>

definition relay_env ::
  "('k, 'w) writer_ops \<Rightarrow> nat \<Rightarrow> ('k, 'w) relay_world \<Rightarrow> ('k, 'w) relay_world \<Rightarrow> bool" where
  "relay_env ops p S S' \<longleftrightarrow>
     (\<exists>buf len ec W. len < 2 ^ 32 \<and> MuxStream_Offer p buf len (rl_mux S) = Some (ec, W) \<and> S' = S\<lparr>rl_mux := W\<rparr>) \<or>
     S' = S\<lparr>rl_mux := snd (MuxStream_Close ops p True (rl_mux S))\<rparr>"

lemma relay_env_quiet:
  assumes "relay_env ops p S S'" "pair_good sid_L sid_R (Socket i) (Stream ops p) S" "event_sink ops sent_R"
  shows "pair_quiet sid_L sid_R sent_L sent_R (Socket i) (Stream ops p) S S'"
proof -
  obtain s where s: "stream_objs (rl_mux S) p = Some s" "stream_sid s = sid_R" "\<forall>c\<in>set (data_channel s). snd c < 2 ^ 32"
    using assms(2) by (auto simp: pair_good_def)
  from assms(1) show ?thesis unfolding relay_env_def
  proof (elim disjE exE conjE)
    fix buf len ec W
    assume "len < 2 ^ 32" "MuxStream_Offer p buf len (rl_mux S) = Some (ec, W)" "S' = S\<lparr>rl_mux := W\<rparr>"
    with s show ?thesis by (auto simp: MuxStream_Offer_def pair_quiet_def pair_good_def put_stream_def split: if_splits)
  next
    assume S': "S' = S\<lparr>rl_mux := snd (MuxStream_Close ops p True (rl_mux S))\<rparr>"
    show ?thesis
    proof (cases "closed s")
      case True
      with S' s show ?thesis by (simp add: Close_closed pair_quiet_def pair_good_def)
    next
      case False
      with S' s show ?thesis
        by (simp add: Close_remote pair_quiet_def pair_good_def close_stream_def put_stream_def MuxStream_Remove_def)
    qed
  qed
qed

subsection \<open>Properties\<close>

text \<open>C11: a relay neither loses, repeats, reorders nor mixes bytes.  In every interleaving of the two
  directions, the timeout and harmless steps of the rest of the node, what has been delivered to
  each end is a beginning of what was read from the other, and all of it but the chunk in flight
  unless a write to that end failed.\<close>

theorem relay_faithful:
  assumes "relay_pair L R sid_L sid_R sent_L sent_R" "pair_good sid_L sid_R L R S0"
    and "\<And>S S'. interfere S S' \<Longrightarrow> pair_good sid_L sid_R L R S \<Longrightarrow> pair_quiet sid_L sid_R sent_L sent_R L R S S'"
    and "relay_runs timed is_entry L R interfere S0 r"
  shows "(\<exists>put lost. delivered sid_R sent_R R (rr_world r) = delivered sid_R sent_R R S0 @ put \<and>
      up_got r = put @ lost \<and> (rr_up r \<noteq> SinkFailed \<longrightarrow> lost = inflight (rr_up r))) \<and>
    (\<exists>put lost. delivered sid_L sent_L L (rr_world r) = delivered sid_L sent_L L S0 @ put \<and>
      down_got r = put @ lost \<and> (rr_down r \<noteq> SinkFailed \<longrightarrow> lost = inflight (rr_down r)))"
  using relay_pair.runs_inv [OF assms(1,4,2,3)] by (auto simp: run_inv_def dir_inv_def)

definition sample_relay :: "(unit, MuxEvent list \<times> nat) relay_world" where
  "sample_relay = \<lparr>rl_mux = sample_world, sock_open = (\<lambda>_. True), sock_out = (\<lambda>_. []), latest_io_time = 0\<rparr>"

lemma sample_pair: "relay_pair (Socket 0) (Stream log_sink 0) 0 1 (\<lambda>_. []) fst"
  by (rule relay_pair.intro) (auto simp: log_sink.event_sink_axioms)

lemma sample_relay_good: "pair_good 0 1 (Socket 0) (Stream log_sink 0) sample_relay"
  by (simp add: pair_good_def sample_relay_def sample_world_stream)

lemmas sample_env = relay_env_quiet [where ops = log_sink and p = 0 and i = 0 and sid_L = 0 and sid_R = 1 and
    sent_L = "\<lambda>_. []" and sent_R = fst, OF _ _ log_sink.event_sink_axioms]

lemma sample_write:
  "\<exists>S'. transfer_write False 0 True (Socket 0) (Stream log_sink 0) None [7, 8] 2 sample_relay = (Reading, S')"
  by (simp add: transfer_write_def sample_relay_def MuxStream_Write_def sample_world_stream
      MuxStream_WriteEvent.simps put_stream_def Let_def numeral_3_eq_3 transfer_routine_def log_sink_def)

theorem relay_faithful_witness:
  "\<exists>r. relay_runs False True (Socket 0) (Stream log_sink 0) (relay_env log_sink 0) sample_relay r \<and>
     up_got r = [7, 8] \<and> delivered 1 fst (Stream log_sink 0) (rr_world r) = [7, 8]"
proof -
  let ?runs = "relay_runs False True (Socket 0) (Stream log_sink 0) (relay_env log_sink 0) sample_relay"
  let ?r0 = "\<lparr>rr_world = sample_relay, rr_up = Reading, rr_down = Reading, up_got = [], down_got = []\<rparr>"
  have "transfer_read False 0 (Socket 0) (Stream log_sink 0) (Some [7, 8]) sample_relay = Some (Writing [7, 8] 2, sample_relay)"
    by (simp add: transfer_read_def sample_relay_def transfer_routine_def)
  with relay_step.up_read [of ?r0 False 0 "Socket 0" "Stream log_sink 0" "Some [7, 8]" "Writing [7, 8] 2" sample_relay]
    relay_runs.start have 1: "?runs (?r0\<lparr>rr_up := Writing [7, 8] 2, up_got := [7, 8]\<rparr>)"
    using relay_runs.step by fastforce
  obtain S' where w: "transfer_write False 0 True (Socket 0) (Stream log_sink 0) None [7, 8] 2 sample_relay = (Reading, S')"
    using sample_write by blast
  let ?r2 = "\<lparr>rr_world = S', rr_up = Reading, rr_down = Reading, up_got = [7, 8], down_got = []\<rparr>"
  have 2: "?runs ?r2"
    using relay_runs.step [OF 1] relay_step.up_write [of "?r0\<lparr>rr_up := Writing [7, 8] 2, up_got := [7, 8]\<rparr>" "[7, 8]" 2 False 0 True
        "Socket 0" "Stream log_sink 0" None Reading S'] w by fastforce
  have "delivered 1 fst (Stream log_sink 0) sample_relay = []"
    by (simp add: sample_relay_def sample_world_stream chunk_bytes_def)
  with relay_faithful [OF sample_pair sample_relay_good sample_env 2] 2 show ?thesis by (intro exI [of _ ?r2]) auto
qed

text \<open>C12: the two directions of a relay end together.  Once one direction has ended, every read the
  other one waits for or starts returns at once and ends it too; when both have ended, both ends
  are closed.  This needs a stream at one end at least: between two sockets (a direct relay)
  neither transfer closes anything.\<close>

theorem relay_winds_down:
  assumes "relay_pair L R sid_L sid_R sent_L sent_R" "pair_good sid_L sid_R L R S0"
    and "\<And>S S'. interfere S S' \<Longrightarrow> pair_good sid_L sid_R L R S \<Longrightarrow> pair_quiet sid_L sid_R sent_L sent_R L R S S'"
    and "relay_runs timed is_entry L R interfere S0 r"
    and "\<not> (\<exists>i j. L = Socket i \<and> R = Socket j)"
  shows "(ended (rr_up r) \<longrightarrow> (\<forall>now res. \<exists>S'. transfer_read timed now R L res (rr_world r) = Some (SourceEnded, S'))) \<and>
    (ended (rr_down r) \<longrightarrow> (\<forall>now res. \<exists>S'. transfer_read timed now L R res (rr_world r) = Some (SourceEnded, S'))) \<and>
    (ended (rr_up r) \<longrightarrow> ended (rr_down r) \<longrightarrow> ep_closed L (rr_world r) \<and> ep_closed R (rr_world r))"
proof -
  have inv: "run_inv sid_L sid_R sent_L sent_R L R S0 r" by (rule relay_pair.runs_inv [OF assms(1,4,2,3)])
  have "ep_closed R (rr_world r)" if "ended (rr_up r)"
    using inv that after_end_closed [of L R] assms(5) by (auto simp: run_inv_def)
  moreover have "ep_closed L (rr_world r)" if "ended (rr_down r)"
    using inv that after_end_closed [of R L] assms(5) by (auto simp: run_inv_def)
  ultimately show ?thesis by (auto simp: transfer_read_def closed_read)
qed

theorem relay_winds_down_witness:
  "\<exists>r S'. relay_runs False True (Socket 0) (Stream log_sink 0) (relay_env log_sink 0) sample_relay r \<and>
     rr_up r = SourceEnded \<and> rr_down r = Reading \<and>
     transfer_read False 0 (Stream log_sink 0) (Socket 0) None (rr_world r) = Some (SourceEnded, S')"
proof -
  let ?r0 = "\<lparr>rr_world = sample_relay, rr_up = Reading, rr_down = Reading, up_got = [], down_got = []\<rparr>"
  let ?S = "transfer_end (Socket 0) (Stream log_sink 0) sample_relay"
  have "transfer_read False 0 (Socket 0) (Stream log_sink 0) None sample_relay = Some (SourceEnded, ?S)"
    by (simp add: transfer_read_def)
  with relay_step.up_read [of ?r0 False 0 "Socket 0" "Stream log_sink 0" None SourceEnded ?S]
  have 1: "relay_runs False True (Socket 0) (Stream log_sink 0) (relay_env log_sink 0) sample_relay
      (?r0\<lparr>rr_world := ?S, rr_up := SourceEnded\<rparr>)"
    using relay_runs.step [OF relay_runs.start] by fastforce
  from relay_winds_down [OF sample_pair sample_relay_good sample_env 1] 1 show ?thesis
    by (intro exI [of _ "?r0\<lparr>rr_world := ?S, rr_up := SourceEnded\<rparr>"]) (simp add: ended_def)
qed

definition accepting :: "('k, 'w) writer_ops \<Rightarrow> bool" where
  "accepting ops \<longleftrightarrow> (\<forall>w. make_writer ops w \<noteq> None) \<and> (\<forall>k ev w. fst (run_writer ops k ev w))"

lemma WriteEvent_success:
  fixes ops :: "('k, 'w) writer_ops"
  assumes "stream_objs W p = Some s" "event_writer s = Some k" "run_writer ops k ev (outer W) = (True, w)"
  shows "MuxStream_WriteEvent ops p ev W = (True, put_stream p s (W\<lparr>outer := w\<rparr>))"
proof -
  have "put_stream p (s\<lparr>event_writer := Some k\<rparr>) V = put_stream p s V" for V :: "('k, 'w) mux_world" using assms(2) by (cases s) simp
  with assms show ?thesis by (simp add: MuxStream_WriteEvent.simps numeral_3_eq_3 Let_def)
qed

text \<open>A relay through the mux with a writer that takes the two events.\<close>

lemma relay_begin_writes:
  assumes mk: "make_writer ops (outer (rl_mux S)) = Some k"
    and r1: "run_writer ops k (StreamOpenRequest_of sid (rc_remote_host ctx) (rc_remote_port ctx) (rc_is_tcp ctx) (rc_is_tls ctx))
      (outer (rl_mux S)) = (True, w1)"
    and r2: "readed_data \<noteq> [] \<Longrightarrow>
      run_writer ops k (StreamChunk_of sid (rc_is_tls ctx \<and> \<not> is_entry) readed_data (length readed_data)) w1 = (True, w2)"
    and mux: "\<not> is_exit" "\<not> rc_direct ctx"
    and sid: "sid = g_client_sid (rl_mux S)" "g_streams (rl_mux S) (cid, sid) = None"
  shows "\<exists>p S' s. do_relay_begin is_exit is_entry ctx connected fault (Some (cid, ops)) readed_data S = (Some (Stream ops p), S') \<and>
    outer (rl_mux S') = (if readed_data = [] then w1 else w2) \<and> g_client_sid (rl_mux S') = sid + 2 \<and>
    MuxStream_Get cid sid (rl_mux S') = Some p \<and> stream_objs (rl_mux S') p = Some s"
proof -
  let ?W = "rl_mux S" and ?p = "next_ref (rl_mux S)"
  define W1 where "W1 = ?W\<lparr>g_client_sid := sid + 2\<rparr>"
  define s where "s = \<lparr>event_writer = Some k, data_channel = [], channel_closed = False,
               write_bytes = 0, stream_client_id = cid, stream_sid = sid, is_tls = rc_is_tls ctx, closed = False\<rparr>"
  define W2 where "W2 = snd (MuxStream_New ops cid sid W1)"
  have id: "MuxStream_NextID True ?W = (sid, W1)" by (simp add: MuxStream_NextID_def W1_def sid(1))
  have new: "MuxStream_New ops cid sid W1 = (?p, W2)" "stream_objs W2 ?p = Some (s\<lparr>is_tls := False\<rparr>)" "outer W2 = outer ?W"
      "g_streams W2 (cid, sid) = Some ?p" "g_client_sid W2 = sid + 2"
    using mk sid(2) by (simp_all add: MuxStream_New_def W2_def W1_def Let_def s_def)
  define W3 where "W3 = put_stream ?p s W2"
  have tls: "MuxStream_SetTLS ?p (rc_is_tls ctx) W2 = W3" using new(2) by (simp add: MuxStream_SetTLS_def W3_def s_def)
  have W3: "stream_objs W3 ?p = Some s" "outer W3 = outer ?W" "put_stream ?p (s\<lparr>is_tls := rc_is_tls ctx\<rparr>) W3 = W3"
    using new by (simp_all add: W3_def put_stream_def s_def)
  have ev: "event_writer s = Some k" "stream_sid s = sid" "is_tls s = rc_is_tls ctx" "write_bytes s = 0" by (simp_all add: s_def)
  define W4 where "W4 = put_stream ?p s (W3\<lparr>outer := w1\<rparr>)"
  have op: "MuxStream_Open ops ?p (rc_remote_host ctx) (rc_remote_port ctx) (rc_is_tcp ctx) (rc_is_tls ctx) W3 = (Ok, W4)"
    using WriteEvent_success [OF W3(1) ev(1), of ops] r1 W3 ev by (simp add: MuxStream_Open_def W4_def)
  let ?s5 = "s\<lparr>write_bytes := word_of_nat (length readed_data)\<rparr>"
  define W5 where "W5 = (if readed_data = [] then W4 else put_stream ?p ?s5 ((put_stream ?p ?s5 W4)\<lparr>outer := w2\<rparr>))"
  have "MuxStream_WriteEvent ops ?p (StreamChunk_of sid (rc_is_tls ctx \<and> \<not> is_entry) readed_data (length readed_data)) (put_stream ?p ?s5 W4) =
      (True, put_stream ?p ?s5 ((put_stream ?p ?s5 W4)\<lparr>outer := w2\<rparr>))" if "readed_data \<noteq> []"
    using WriteEvent_success [of "put_stream ?p ?s5 W4" ?p ?s5 k ops] r2 [OF that] ev(1) by (simp add: put_stream_def W4_def)
  then have wr: "(if 0 < length readed_data then snd (MuxStream_Write ops is_entry ?p readed_data (length readed_data) W4) else W4) = W5"
    using ev by (auto simp: MuxStream_Write_def W5_def W4_def put_stream_def Let_def)
  have "do_relay_begin is_exit is_entry ctx connected fault (Some (cid, ops)) readed_data S = (Some (Stream ops ?p), S\<lparr>rl_mux := W5\<rparr>)"
    using mux id new(1) tls op wr by (cases "readed_data = []") (simp_all add: do_relay_begin_def Let_def)
  moreover have "g_client_sid W5 = sid + 2" "g_streams W5 (cid, sid) = Some ?p" "outer W5 = (if readed_data = [] then w1 else w2)"
    using new by (simp_all add: W5_def W4_def W3_def put_stream_def)
  moreover have "stream_objs W5 ?p = Some (if readed_data = [] then s else ?s5)" by (simp add: W5_def W4_def put_stream_def)
  ultimately show ?thesis
    by (intro exI [of _ ?p] exI [of _ "S\<lparr>rl_mux := W5\<rparr>"]) (simp add: MuxStream_Get_def)
qed

text \<open>A relay through the mux announces its destination first.  With writers that accept, the
  events sent are a stream-open request with the host, port and flags of the relay context under a
  fresh client stream id, then the bytes already read as one chunk, unencrypted only for a TLS relay
  off an entry node; the stream is registered while the relay runs and neither registered nor open
  behind its end.\<close>

theorem relay_begin_announces:
  assumes "event_sink ops sent" "accepting ops" "\<not> is_exit" "\<not> rc_direct ctx"
    and "sid = g_client_sid (rl_mux S)" "g_streams (rl_mux S) (cid, sid) = None"
  shows "\<exists>p S'. do_relay_begin is_exit is_entry ctx connected fault (Some (cid, ops)) readed_data S = (Some (Stream ops p), S') \<and>
    sent (outer (rl_mux S')) = sent (outer (rl_mux S)) @
      [StreamOpenRequest_of sid (rc_remote_host ctx) (rc_remote_port ctx) (rc_is_tcp ctx) (rc_is_tls ctx)] @
      (if readed_data = [] then []
       else [StreamChunk_of sid (rc_is_tls ctx \<and> \<not> is_entry) readed_data (length readed_data)]) \<and>
    g_client_sid (rl_mux S') = sid + 2 \<and> MuxStream_Get cid sid (rl_mux S') = Some p \<and>
    MuxStream_Get cid sid (rl_mux (do_relay_end (Stream ops p) cid sid S')) = None \<and>
    ep_closed (Stream ops p) (do_relay_end (Stream ops p) cid sid S')"
proof -
  let ?open = "StreamOpenRequest_of sid (rc_remote_host ctx) (rc_remote_port ctx) (rc_is_tcp ctx) (rc_is_tls ctx)"
  let ?chunk = "StreamChunk_of sid (rc_is_tls ctx \<and> \<not> is_entry) readed_data (length readed_data)"
  obtain k where k: "make_writer ops (outer (rl_mux S)) = Some k" using assms(2) unfolding accepting_def by blast
  have acc: "\<exists>w1. run_writer ops k ev w = (True, w1) \<and> sent w1 = sent w @ [ev]" for ev w
  proof -
    obtain b w1 where r: "run_writer ops k ev w = (b, w1)" by fastforce
    have "fst (run_writer ops k ev w)" using assms(2) by (simp add: accepting_def)
    with r have "run_writer ops k ev w = (True, w1)" by simp
    with event_sink.run_success [OF assms(1) this] show ?thesis by blast
  qed
  obtain w1 where w1: "run_writer ops k ?open (outer (rl_mux S)) = (True, w1)" "sent w1 = sent (outer (rl_mux S)) @ [?open]"
    using acc by blast
  obtain w2 where w2: "run_writer ops k ?chunk w1 = (True, w2)" "sent w2 = sent w1 @ [?chunk]" using acc by blast
  from relay_begin_writes [OF k w1(1) w2(1) assms(3-6), of connected fault] obtain p S' s where
    b: "do_relay_begin is_exit is_entry ctx connected fault (Some (cid, ops)) readed_data S = (Some (Stream ops p), S')"
      "outer (rl_mux S') = (if readed_data = [] then w1 else w2)" "g_client_sid (rl_mux S') = sid + 2"
      "MuxStream_Get cid sid (rl_mux S') = Some p" "stream_objs (rl_mux S') p = Some s" by blast
  obtain ec W6 where c: "MuxStream_Close ops p False (rl_mux S') = (ec, W6)" by fastforce
  with Close_effect(1) [OF b(5) c] have "ep_closed (Stream ops p) (do_relay_end (Stream ops p) cid sid S')"
      "MuxStream_Get cid sid (rl_mux (do_relay_end (Stream ops p) cid sid S')) = None"
    by (auto simp: MuxStream_Remove_def MuxStream_Get_def)
  with b w1(2) w2(2) show ?thesis by (intro exI [of _ p] exI [of _ S']) simp
qed

text \<open>Writers that accept everything.\<close>

definition open_sink :: "(unit, MuxEvent list) writer_ops" where
  "open_sink = \<lparr>make_writer = (\<lambda>_. Some ()), run_writer = (\<lambda>_ ev l. (True, l @ [ev]))\<rparr>"

interpretation open_sink: event_sink open_sink "\<lambda>l. l"
  by unfold_locales (auto simp: open_sink_def)

theorem relay_begin_announces_witness:
  "\<exists>p S'. do_relay_begin False True (RelayContext_init\<lparr>rc_remote_host := [104], rc_remote_port := 443, rc_is_tls := True\<rparr>)
      None None (Some (5, open_sink)) [22, 3] \<lparr>rl_mux = mux_world_init [], sock_open = (\<lambda>_. True), sock_out = (\<lambda>_. []), latest_io_time = 0\<rparr> =
      (Some (Stream open_sink p), S') \<and>
    outer (rl_mux S') = [StreamOpenRequest_of 1 [104] 443 False True, StreamChunk_of 1 False [22, 3] 2] \<and>
    MuxStream_Get 5 1 (rl_mux S') = Some p"
proof -
  have "accepting open_sink" by (simp add: accepting_def open_sink_def)
  from relay_begin_announces [OF open_sink.event_sink_axioms this, of False
      "RelayContext_init\<lparr>rc_remote_host := [104], rc_remote_port := 443, rc_is_tls := True\<rparr>" 1
      "\<lparr>rl_mux = mux_world_init [], sock_open = (\<lambda>_. True), sock_out = (\<lambda>_. []), latest_io_time = 0\<rparr>" 5 True None None "[22, 3]"]
  show ?thesis by (fastforce simp: RelayContext_init_def mux_world_init_def numeral_2_eq_2)
qed

end
