(* ===== verification/Relay_Session.thy ===== *)
theory Relay_Session
  imports Relay Time_Wheel
begin

text \<open>
  The whole of \<^verbatim>\<open>do_relay\<close> (\<^verbatim>\<open>snova/server/relay.cc\<close>) from its first statement to its return to a caller,
  with the timer it registers in the time wheel: set-up, the two transfers, the end, the cleanups, and
  what \<^verbatim>\<open>relay\<close>, \<^verbatim>\<open>relay_direct\<close> and \<^verbatim>\<open>relay_handler\<close> do behind it.  The timer's functions refer to
  variables of \<^verbatim>\<open>do_relay\<close>, so the theory shows that they do not run behind its return.  The clock is in
  milliseconds, \<^verbatim>\<open>time(nullptr)\<close> is its second.
\<close>

definition time_now :: "nat \<Rightarrow> u64" where
  "time_now ms = word_of_nat (ms div 1000)"

text \<open>The timer of a relay; the product of the two 32-bit numbers may wrap.\<close>

definition do_relay_timer :: "u32 \<Rightarrow> nat \<Rightarrow> TimeWheel \<Rightarrow> nat option \<times> TimeWheel" where
  "do_relay_timer timeout_secs now w =
     (if 0 < timeout_secs
      then case TimeWheel_Add_active (ucast (timeout_secs * 1000)) (word_of_nat now) w of (t, w1) \<Rightarrow> (Some t, w1)
      else (None, w))"

definition relay_active_time :: "('k, 'w) relay_world \<Rightarrow> u64" where
  "relay_active_time S = latest_io_time S * 1000"

definition auto_cancel_timeout :: "nat option \<Rightarrow> TimeWheel \<Rightarrow> TimeWheel" where
  "auto_cancel_timeout timer w = (case timer of None \<Rightarrow> w | Some t \<Rightarrow> cancel_func t w)"

text \<open>
  Behind \<^verbatim>\<open>do_relay\<close>: the socket's destructor or the stream's \<^verbatim>\<open>Close\<close>, and for the handler of a
  stream-open event the cleanup that removes the stream.
\<close>

definition relay_end :: "('k, 'w) endpoint \<Rightarrow> ('k, 'w) relay_world \<Rightarrow> ('k, 'w) relay_world" where
  "relay_end local S = ep_close local S"

definition relay_handler_end :: "('k, 'w) endpoint \<Rightarrow> u64 \<Rightarrow> u32 \<Rightarrow> ('k, 'w) relay_world \<Rightarrow> ('k, 'w) relay_world" where
  "relay_handler_end local cid sid S =
     (let S1 = ep_close local S in S1\<lparr>rl_mux := MuxStream_Remove cid sid (rl_mux S1)\<rparr>)"

text \<open>Where \<^verbatim>\<open>do_relay\<close> is: it runs with its remote end and the ids of the remote stream.\<close>

datatype ('k, 'w) relay_phase = Connecting | Running "('k, 'w) endpoint" u64 u32 | Returned

text \<open>
  \<open>rs_last_io\<close>, \<open>rs_timeouts\<close> and \<open>rs_dangling\<close> are history: when a byte last passed, when the timer's
  callback ran with the last pass before it, and whether it ran behind the return.
\<close>

record ('k, 'w) relay_session =
  rs_phase :: "('k, 'w) relay_phase"
  rs_run :: "('k, 'w) relay_run"
  rs_timer :: "nat option"
  rs_wheel :: TimeWheel
  rs_clock :: nat
  rs_last_io :: nat
  rs_timeouts :: "(nat \<times> nat) list"
  rs_dangling :: bool

definition relay_run_of :: "('k, 'w) relay_world \<Rightarrow> ('k, 'w) relay_run" where
  "relay_run_of S = \<lparr>rr_world = S, rr_up = Reading, rr_down = Reading, up_got = [], down_got = []\<rparr>"

definition do_relay_start :: "u32 \<Rightarrow> nat \<Rightarrow> ('k, 'w) relay_world \<Rightarrow> TimeWheel \<Rightarrow> ('k, 'w) relay_session" where
  "do_relay_start timeout_secs now S w =
     (case do_relay_timer timeout_secs now w of (timer, w1) \<Rightarrow>
      \<lparr>rs_phase = Connecting, rs_run = relay_run_of (S\<lparr>latest_io_time := time_now now\<rparr>), rs_timer = timer, rs_wheel = w1,
       rs_clock = now, rs_last_io = now, rs_timeouts = [], rs_dangling = False\<rparr>)"

definition session_world ::
  "(('k, 'w) relay_world \<Rightarrow> ('k, 'w) relay_world) \<Rightarrow> ('k, 'w) relay_session \<Rightarrow> ('k, 'w) relay_session" where
  "session_world f s = s\<lparr>rs_run := (rs_run s)\<lparr>rr_world := f (rr_world (rs_run s))\<rparr>\<rparr>"

definition do_relay_return ::
  "(('k, 'w) relay_world \<Rightarrow> ('k, 'w) relay_world) \<Rightarrow> ('k, 'w) relay_session \<Rightarrow> ('k, 'w) relay_session" where
  "do_relay_return caller_end s =
     (session_world caller_end s)\<lparr>rs_phase := Returned, rs_wheel := auto_cancel_timeout (rs_timer s) (rs_wheel s)\<rparr>"

text \<open>The tasks that fired in a round of the wheel: the relay's callback closes the local end.\<close>

definition session_tick :: "('k, 'w) endpoint \<Rightarrow> nat \<Rightarrow> nat list \<times> TimeWheel \<Rightarrow> ('k, 'w) relay_session \<Rightarrow> ('k, 'w) relay_session" where
  "session_tick local now tick s =
     (let s1 = s\<lparr>rs_clock := now, rs_wheel := snd tick\<rparr> in
      if \<exists>t. rs_timer s = Some t \<and> t \<in> set (fst tick)
      then (session_world (close_local local) s1)\<lparr>rs_timeouts := rs_timeouts s @ [(now, rs_last_io s)],
             rs_dangling := (rs_dangling s \<or> rs_phase s = Returned)\<rparr>
      else s1)"

text \<open>A read or write of one direction completes at a given second; the index is how the direction goes on.\<close>

inductive io_step ::
  "bool \<Rightarrow> u64 \<Rightarrow> bool \<Rightarrow> ('k, 'w) endpoint \<Rightarrow> ('k, 'w) endpoint \<Rightarrow> ('k, 'w) relay_run \<Rightarrow> xfer \<Rightarrow> ('k, 'w) relay_run \<Rightarrow> bool"
  for timed now is_entry L R r where
  up_read: "rr_up r = Reading \<Longrightarrow> transfer_read timed now L R res (rr_world r) = Some (x, S') \<Longrightarrow>
    io_step timed now is_entry L R r x (r\<lparr>rr_world := S', rr_up := x, up_got := up_got r @ inflight x\<rparr>)"
| up_write: "rr_up r = Writing data len \<Longrightarrow> transfer_write timed now is_entry L R fault data len (rr_world r) = (x, S') \<Longrightarrow>
    io_step timed now is_entry L R r x (r\<lparr>rr_world := S', rr_up := x\<rparr>)"
| down_read: "rr_down r = Reading \<Longrightarrow> transfer_read timed now R L res (rr_world r) = Some (x, S') \<Longrightarrow>
    io_step timed now is_entry L R r x (r\<lparr>rr_world := S', rr_down := x, down_got := down_got r @ inflight x\<rparr>)"
| down_write: "rr_down r = Writing data len \<Longrightarrow> transfer_write timed now is_entry R L fault data len (rr_world r) = (x, S') \<Longrightarrow>
    io_step timed now is_entry L R r x (r\<lparr>rr_world := S', rr_down := x\<rparr>)"

text \<open>
  A relay among the other coroutines: between its steps the clock goes on, the time wheel makes its
  rounds, other tasks are added to the wheel and canceled, and the rest of the node does what
  \<open>interfere\<close> allows; the variable \<^verbatim>\<open>latest_io_time\<close> is the relay's own.
\<close>

inductive session_step ::
  "u32 \<Rightarrow> bool \<Rightarrow> bool \<Rightarrow> RelayContext \<Rightarrow> bytes \<Rightarrow> ('k, 'w) endpoint \<Rightarrow> (('k, 'w) relay_world \<Rightarrow> ('k, 'w) relay_world) \<Rightarrow>
     (('k, 'w) relay_world \<Rightarrow> ('k, 'w) relay_world \<Rightarrow> bool) \<Rightarrow> ('k, 'w) relay_session \<Rightarrow> ('k, 'w) relay_session \<Rightarrow> bool"
  for timeout_secs is_exit is_entry ctx readed_data L caller_end interfere s where
  not_connected: "rs_phase s = Connecting \<Longrightarrow>
    do_relay_begin is_exit is_entry ctx connected fault factory readed_data (rr_world (rs_run s)) = (None, S') \<Longrightarrow>
    session_step timeout_secs is_exit is_entry ctx readed_data L caller_end interfere s
      (do_relay_return caller_end (s\<lparr>rs_run := relay_run_of S'\<rparr>))"
| connected: "rs_phase s = Connecting \<Longrightarrow>
    do_relay_begin is_exit is_entry ctx connected fault factory readed_data (rr_world (rs_run s)) = (Some R, S') \<Longrightarrow>
    session_step timeout_secs is_exit is_entry ctx readed_data L caller_end interfere s
      (s\<lparr>rs_phase := Running R (case factory of Some (cid, ops) \<Rightarrow> cid | None \<Rightarrow> 0) (g_client_sid (rl_mux (rr_world (rs_run s)))),
         rs_run := relay_run_of S'\<rparr>)"
| io: "rs_phase s = Running R cid sid \<Longrightarrow>
    io_step (0 < timeout_secs) (time_now (rs_clock s)) is_entry L R (rs_run s) x r' \<Longrightarrow>
    session_step timeout_secs is_exit is_entry ctx readed_data L caller_end interfere s
      (s\<lparr>rs_run := r', rs_last_io := if ended x then rs_last_io s else rs_clock s\<rparr>)"
| finished: "rs_phase s = Running R cid sid \<Longrightarrow> ended (rr_up (rs_run s)) \<Longrightarrow> ended (rr_down (rs_run s)) \<Longrightarrow>
    session_step timeout_secs is_exit is_entry ctx readed_data L caller_end interfere s
      (do_relay_return caller_end (session_world (do_relay_end R cid sid) s))"
| tick: "rs_clock s \<le> now \<Longrightarrow> now < 2 ^ 64 \<Longrightarrow>
    (rs_phase s \<noteq> Returned \<Longrightarrow> \<forall>t. rs_timer s = Some t \<longrightarrow> act t = relay_active_time (rr_world (rs_run s))) \<Longrightarrow>
    session_step timeout_secs is_exit is_entry ctx readed_data L caller_end interfere s
      (session_tick L now (Run_tick (\<lambda>_ w. w) act (word_of_nat now) (rs_wheel s)) s)"
| clock: "rs_clock s \<le> now \<Longrightarrow> now < 2 ^ 64 \<Longrightarrow>
    session_step timeout_secs is_exit is_entry ctx readed_data L caller_end interfere s (s\<lparr>rs_clock := now\<rparr>)"
| task_added: "DoRegister active timeout (word_of_nat (rs_clock s)) (rs_wheel s) = (t, w') \<Longrightarrow>
    session_step timeout_secs is_exit is_entry ctx readed_data L caller_end interfere s (s\<lparr>rs_wheel := w'\<rparr>)"
| task_canceled: "rs_timer s \<noteq> Some t \<Longrightarrow>
    session_step timeout_secs is_exit is_entry ctx readed_data L caller_end interfere s (s\<lparr>rs_wheel := cancel_func t (rs_wheel s)\<rparr>)"
| other: "interfere (rr_world (rs_run s)) S' \<Longrightarrow> latest_io_time S' = latest_io_time (rr_world (rs_run s)) \<Longrightarrow>
    session_step timeout_secs is_exit is_entry ctx readed_data L caller_end interfere s (session_world (\<lambda>_. S') s)"

inductive session_runs ::
  "u32 \<Rightarrow> bool \<Rightarrow> bool \<Rightarrow> RelayContext \<Rightarrow> bytes \<Rightarrow> ('k, 'w) endpoint \<Rightarrow> (('k, 'w) relay_world \<Rightarrow> ('k, 'w) relay_world) \<Rightarrow>
     (('k, 'w) relay_world \<Rightarrow> ('k, 'w) relay_world \<Rightarrow> bool) \<Rightarrow> nat \<Rightarrow> ('k, 'w) relay_world \<Rightarrow> TimeWheel \<Rightarrow>
     ('k, 'w) relay_session \<Rightarrow> bool"
  for timeout_secs is_exit is_entry ctx readed_data L caller_end interfere now S w where
  start: "session_runs timeout_secs is_exit is_entry ctx readed_data L caller_end interfere now S w
    (do_relay_start timeout_secs now S w)"
| step: "session_runs timeout_secs is_exit is_entry ctx readed_data L caller_end interfere now S w s \<Longrightarrow>
    session_step timeout_secs is_exit is_entry ctx readed_data L caller_end interfere s s' \<Longrightarrow>
    session_runs timeout_secs is_exit is_entry ctx readed_data L caller_end interfere now S w s'"

lemma io_step_relay_step: "io_step timed now is_entry L R r x r' \<Longrightarrow> relay_step timed is_entry L R interfere r r'"
  by (induction rule: io_step.induct) (auto intro: relay_step.intros)

text \<open>Only the routine of the transfers sets \<^verbatim>\<open>latest_io_time\<close>.\<close>

lemma ep_latest [simp]:
  "latest_io_time (ep_close X S) = latest_io_time S" "latest_io_time (transfer_end X Y S) = latest_io_time S"
  "latest_io_time (snd (ep_write is_entry X fault buf len S)) = latest_io_time S"
  by (cases X; cases Y; auto split: option.split prod.split)+

lemma transfer_latest:
  "transfer_read timed now X Y res S = Some (x, S') \<Longrightarrow>
   latest_io_time S' = (if timed \<and> \<not> ended x then now else latest_io_time S)"
  "transfer_write timed now is_entry X Y fault data len S = (y, T) \<Longrightarrow>
   latest_io_time T = (if timed \<and> \<not> ended y then now else latest_io_time S)"
proof -
  have read: "ep_read X res S = Some (d, S1) \<Longrightarrow> latest_io_time S1 = latest_io_time S" for d S1
    by (cases X) (auto split: option.splits if_splits prod.splits)
  show "transfer_read timed now X Y res S = Some (x, S') \<Longrightarrow>
      latest_io_time S' = (if timed \<and> \<not> ended x then now else latest_io_time S)"
    using read by (auto simp: transfer_read_def transfer_routine_def ended_def split: option.splits)
  show "latest_io_time T = (if timed \<and> \<not> ended y then now else latest_io_time S)"
    if "transfer_write timed now is_entry X Y fault data len S = (y, T)"
  proof -
    obtain ok S1 where e: "ep_write is_entry Y fault data len S = (ok, S1)" by fastforce
    have "latest_io_time S1 = latest_io_time S" using ep_latest(3) [of is_entry Y fault data len S] e by simp
    with that e show ?thesis by (cases ok) (auto simp: transfer_write_def transfer_routine_def ended_def)
  qed
qed

lemma io_step_latest:
  "io_step timed now is_entry L R r x r' \<Longrightarrow>
   latest_io_time (rr_world r') = (if timed \<and> \<not> ended x then now else latest_io_time (rr_world r))"
  by (induction rule: io_step.induct) (auto dest: transfer_latest)

lemma do_relay_begin_latest:
  assumes "do_relay_begin is_exit is_entry ctx connected fault factory readed_data S = (R, S')"
  shows "latest_io_time S' = latest_io_time S"
  using assms ep_latest(3) [of is_entry "Socket (the connected)" fault readed_data "length readed_data"]
  by (auto simp: do_relay_begin_def Let_def simp del: ep_write.simps split: if_splits option.splits prod.splits)

text \<open>
  The timer is in the wheel at most once and not any more once its callback ran; it is live until the
  return and canceled behind it.
\<close>

definition timer_task :: "u32 \<Rightarrow> ('k, 'w) relay_session \<Rightarrow> bool" where
  "timer_task timeout_secs s \<longleftrightarrow>
     (case rs_timer s of
        None \<Rightarrow> timeout_secs = 0 \<and> rs_timeouts s = []
      | Some t \<Rightarrow> 0 < timeout_secs \<and> count (in_wheel (rs_wheel s)) t + length (rs_timeouts s) \<le> 1 \<and>
          (\<exists>k. tasks (rs_wheel s) t = Some k \<and> timeout_msecs k = ucast (timeout_secs * 1000) \<and>
             (if rs_phase s = Returned then canceled k else \<not> canceled k \<and> has_active_time k)))"

definition timeouts_late :: "u32 \<Rightarrow> ('k, 'w) relay_session \<Rightarrow> bool" where
  "timeouts_late timeout_secs s \<longleftrightarrow> (\<forall>(c, l)\<in>set (rs_timeouts s). l \<le> c \<and> unat timeout_secs * 1000 < c - l + 1000)"

definition session_inv :: "u32 \<Rightarrow> ('k, 'w) relay_session \<Rightarrow> bool" where
  "session_inv timeout_secs s \<longleftrightarrow> wheel_ok (rs_wheel s) \<and> rs_last_io s \<le> rs_clock s \<and> rs_clock s < 2 ^ 64 \<and> \<not> rs_dangling s \<and>
     (rs_phase s \<noteq> Returned \<longrightarrow> 0 < timeout_secs \<longrightarrow> latest_io_time (rr_world (rs_run s)) = time_now (rs_last_io s)) \<and>
     timer_task timeout_secs s \<and> timeouts_late timeout_secs s"

lemma timeout_msecs_nat:
  assumes "unat (secs :: u32) * 1000 < 2 ^ 32"
  shows "unat (ucast (secs * 1000) :: u64) = unat secs * 1000"
proof -
  have "unat (secs * 1000) = unat secs * 1000" using assms by (subst unat_mult_lem [THEN iffD1]) simp_all
  then show ?thesis by (subst unat_ucast_up) simp_all
qed

text \<open>A task whose time has come has been idle for its timeout, rounded down to the second.\<close>

lemma expired_idle:
  assumes "expired act (word_of_nat now) t k" "has_active_time k" "act t = time_now last_io * 1000"
    "last_io \<le> now" "now < 2 ^ 64"
  shows "unat (timeout_msecs k) < now - last_io + 1000"
proof -
  let ?a = "last_io div 1000 * 1000"
  have a: "?a \<le> last_io" "last_io < ?a + 1000" by auto
  have "act t = word_of_nat ?a" by (simp add: assms(3) time_now_def)
  then have "unat (timeout_msecs k) < unat (word_of_nat now - word_of_nat ?a :: u64)"
    using assms(1,2) by (simp add: expired_def task_active_def word_less_nat_alt del: of_nat_mult)
  also have "\<dots> = now - ?a" by (rule clock_diff) (use a assms(4,5) in linarith)+
  finally show ?thesis using a assms(4) by linarith
qed

lemma session_inv_start:
  assumes "wheel_ok w" "now < 2 ^ 64" "unat timeout_secs * 1000 < 2 ^ 32"
  shows "session_inv timeout_secs (do_relay_start timeout_secs now S w)"
proof (cases "0 < timeout_secs")
  case True
  obtain t w1 where r: "DoRegister True (ucast (timeout_secs * 1000)) (word_of_nat now) w = (t, w1)" by fastforce
  note eff = DoRegister_effect [OF assms(1) r]
  have "t \<notin># in_wheel w" using assms(1) eff by (auto simp: wheel_ok_def)
  moreover have "ucast (timeout_secs * 1000) \<noteq> (0 :: u64)"
    using timeout_msecs_nat [OF assms(3)] True by (metis mult_is_0 unat_0 word_neq_0_conv unat_eq_zero zero_neq_numeral)
  ultimately show ?thesis using True r eff assms(2)
    by (simp add: session_inv_def timer_task_def timeouts_late_def do_relay_start_def do_relay_timer_def
        TimeWheel_Add_active_def relay_run_of_def not_in_iff)
qed (use assms word_neq_0_conv [of timeout_secs] in \<open>simp add: session_inv_def timer_task_def timeouts_late_def do_relay_start_def do_relay_timer_def relay_run_of_def\<close>)

lemma session_inv_return:
  assumes "session_inv timeout_secs s"
  shows "session_inv timeout_secs (do_relay_return f (s\<lparr>rs_run := r\<rparr>))"
  using assms
  by (auto simp: session_inv_def timer_task_def timeouts_late_def do_relay_return_def session_world_def auto_cancel_timeout_def
      cancel_func_effect split: option.splits)

lemma session_inv_tick:
  assumes inv: "session_inv timeout_secs s" and small: "unat timeout_secs * 1000 < 2 ^ 32" and now: "rs_clock s \<le> now" "now < 2 ^ 64"
    and act: "rs_phase s \<noteq> Returned \<Longrightarrow> \<forall>t. rs_timer s = Some t \<longrightarrow> act t = relay_active_time (rr_world (rs_run s))"
  shows "session_inv timeout_secs (session_tick L now (Run_tick (\<lambda>_ w. w) act (word_of_nat now) (rs_wheel s)) s)"
proof -
  obtain fired w' where r: "Run_tick (\<lambda>_ w. w) act (word_of_nat now) (rs_wheel s) = (fired, w')" by fastforce
  have ok: "wheel_ok (rs_wheel s)" using inv by (simp add: session_inv_def)
  note acc = Run_tick_accounts [OF ok r]
  have clock: "rs_last_io s \<le> now" using inv now by (simp add: session_inv_def)
  show ?thesis
  proof (cases "rs_timer s")
    case None
    with inv now acc clock r show ?thesis
      by (simp add: session_inv_def timer_task_def timeouts_late_def session_tick_def Let_def)
  next
    case (Some t)
    then obtain k where k: "tasks (rs_wheel s) t = Some k" "timeout_msecs k = ucast (timeout_secs * 1000)"
      "if rs_phase s = Returned then canceled k else \<not> canceled k \<and> has_active_time k"
      and once: "0 < timeout_secs" "count (in_wheel (rs_wheel s)) t + length (rs_timeouts s) \<le> 1"
      using inv by (auto simp: session_inv_def timer_task_def)
    have cnt: "count (in_wheel w') t + count (mset fired) t \<le> count (in_wheel (rs_wheel s)) t"
      using conjunct1 [OF acc] by simp
    have w': "wheel_ok w'" "tasks w' t = Some k" using acc k(1) by simp_all
    show ?thesis
    proof (cases "t \<in> set fired")
      case False
      with inv now clock r Some k once w' cnt show ?thesis
        by (auto simp: session_inv_def timer_task_def timeouts_late_def session_tick_def Let_def)
    next
      case True
      then have live: "\<not> canceled k" "expired act (word_of_nat now) t k" using acc k(1) by auto
      then have run: "rs_phase s \<noteq> Returned" "has_active_time k" using k(3) by (auto split: if_splits)
      then have "act t = time_now (rs_last_io s) * 1000"
        using act Some inv once by (simp add: session_inv_def relay_active_time_def)
      from expired_idle [OF live(2) run(2) this clock now(2)]
      have late: "unat timeout_secs * 1000 < now - rs_last_io s + 1000" using timeout_msecs_nat [OF small] k(2) by simp
      have "0 < count (mset fired) t" using True by simp
      then have "count (in_wheel w') t + length (rs_timeouts s) = 0" using cnt once(2) by linarith
      with inv now clock r Some k once w' run late live True show ?thesis
        by (auto simp: session_inv_def timer_task_def timeouts_late_def session_tick_def session_world_def close_local_def Let_def)
    qed
  qed
qed

lemma session_inv_step:
  assumes inv: "session_inv timeout_secs s" and small: "unat timeout_secs * 1000 < 2 ^ 32"
    and st: "session_step timeout_secs is_exit is_entry ctx readed_data L caller_end interfere s s'"
  shows "session_inv timeout_secs s'"
  using st
proof cases
  case (not_connected connected fault factory S')
  then show ?thesis using session_inv_return [OF inv] by simp
next
  case (connected c fault factory R S')
  with inv do_relay_begin_latest [OF connected(3)] show ?thesis
    by (auto simp: session_inv_def timer_task_def timeouts_late_def relay_run_of_def split: option.splits)
next
  case (io R cid sid x r')
  with inv io_step_latest [OF io(3)] show ?thesis
    by (auto simp: session_inv_def timer_task_def timeouts_late_def split: option.splits)
next
  case (finished R cid sid)
  then show ?thesis using session_inv_return [OF inv] by (simp add: session_world_def)
next
  case (tick now act)
  then show ?thesis using session_inv_tick [OF inv small] by simp
next
  case (clock now)
  with inv show ?thesis by (auto simp: session_inv_def timer_task_def timeouts_late_def split: option.splits)
next
  case (task_added active timeout t w')
  have ok: "wheel_ok (rs_wheel s)" using inv by (simp add: session_inv_def)
  from inv DoRegister_effect [OF ok task_added(2)] ok task_added(1) show ?thesis
    by (auto simp: session_inv_def timer_task_def timeouts_late_def wheel_ok_def split: option.splits)
next
  case (task_canceled t)
  with inv show ?thesis
    by (auto simp: session_inv_def timer_task_def timeouts_late_def cancel_func_effect split: option.splits)
next
  case (other S')
  with inv show ?thesis
    by (auto simp: session_inv_def timer_task_def timeouts_late_def session_world_def split: option.splits)
qed

text \<open>The transfers of a session are a run of the relay from where its set-up left the world.\<close>

definition session_refines ::
  "u32 \<Rightarrow> bool \<Rightarrow> bool \<Rightarrow> RelayContext \<Rightarrow> bytes \<Rightarrow> ('k, 'w) endpoint \<Rightarrow>
     (('k, 'w) relay_world \<Rightarrow> ('k, 'w) relay_world \<Rightarrow> bool) \<Rightarrow> ('k, 'w) relay_session \<Rightarrow> bool" where
  "session_refines timeout_secs is_exit is_entry ctx readed_data L interfere s \<longleftrightarrow>
     (\<forall>R cid sid. rs_phase s = Running R cid sid \<longrightarrow>
        (\<exists>c fault factory S1 S0. do_relay_begin is_exit is_entry ctx c fault factory readed_data S1 = (Some R, S0) \<and>
           relay_runs (0 < timeout_secs) is_entry L R interfere S0 (rs_run s)))"

lemma session_refines_step:
  assumes ref: "session_refines timeout_secs is_exit is_entry ctx readed_data L interfere s"
    and inv: "session_inv timeout_secs s"
    and st: "session_step timeout_secs is_exit is_entry ctx readed_data L caller_end interfere s s'"
  shows "session_refines timeout_secs is_exit is_entry ctx readed_data L interfere s'"
  using st
proof cases
  case (connected c fault factory R S')
  then show ?thesis by (fastforce simp: session_refines_def relay_run_of_def intro: relay_runs.start)
next
  case (io R cid sid x r')
  with ref show ?thesis
    by (simp add: session_refines_def) (blast intro: relay_runs.step io_step_relay_step)
next
  case (tick now act)
  show ?thesis
  proof (cases "\<exists>t. rs_timer s = Some t \<and> t \<in> set (fst (Run_tick (\<lambda>_ w. w) act (word_of_nat now) (rs_wheel s)))")
    case True
    then have "0 < timeout_secs" using inv by (auto simp: session_inv_def timer_task_def)
    with True tick(1) ref show ?thesis
      by (simp add: session_refines_def session_tick_def session_world_def Let_def) (blast intro: relay_runs.step relay_step.timeout)
  qed (use tick(1) ref in \<open>auto simp: session_refines_def session_tick_def Let_def\<close>)
next
  case (other S')
  with ref show ?thesis
    by (simp add: session_refines_def session_world_def) (blast intro: relay_runs.step relay_step.other)
qed (use ref in \<open>auto simp: session_refines_def do_relay_return_def\<close>)


text \<open>A relay with a timeout of one second that begins at 5000 milliseconds and passes no byte is closed by
  the round at 7280, the first one in the timer's slot behind the timeout.\<close>

definition idle_session :: "(unit, MuxEvent list \<times> nat) relay_session" where
  "idle_session = do_relay_start 1 5000 sample_relay TimeWheel_instance"

definition idle_tick :: "nat list \<times> TimeWheel" where
  "idle_tick = Run_tick (\<lambda>_ w. w) (\<lambda>_. 5000) (word_of_nat 7280) (rs_wheel idle_session)"

lemma wheel_ok_instance: "wheel_ok TimeWheel_instance"
  by (auto simp: wheel_ok_def TimeWheel_instance_def TimeWheel_new_def in_wheel_def)

lemma idle_session_eq:
  "rs_timer idle_session = Some 0" "rs_clock idle_session = 5000" "rs_last_io idle_session = 5000" "rs_timeouts idle_session = []"
  "relay_active_time (rr_world (rs_run idle_session)) = 5000" "rs_phase idle_session = Connecting"
  by (simp_all add: idle_session_def do_relay_start_def do_relay_timer_def TimeWheel_Add_active_def DoRegister_def Let_def
      TimeWheel_instance_def TimeWheel_new_def relay_active_time_def time_now_def relay_run_of_def)

lemma idle_tick_fires: "fst idle_tick = [0]"
  by (simp add: idle_tick_def idle_session_def do_relay_start_def do_relay_timer_def TimeWheel_Add_active_def DoRegister_def Let_def
      TimeWheel_instance_def TimeWheel_new_def Run_tick_def GetIdxByMillsecs_def push_slot_def expired_def task_active_def)


end
