(* ===== verification/Iobuf_Pool.thy ===== *)
theory Iobuf_Pool
  imports Snova_Prelude "HOL-Library.Multiset"
begin

text \<open>
  \<^verbatim>\<open>snova/io/io.cc\<close>: the pool of I/O buffers.  A buffer is a \<^verbatim>\<open>std::vector<uint8_t>\<close>, of which
  the pool only uses size and capacity.  How much \<^verbatim>\<open>resize\<close> over-allocates is left to the standard
  library by C++ and is the parameter \<open>grow\<close>; the counters are unsigned and wrap.
\<close>

subsection \<open>State\<close>

record IOBuf =
  buf_size :: nat
  buf_capacity :: nat

record iobuf_pool =
  g_io_bufs :: "IOBuf list"
  g_iobuf_pool_bytes :: u64
  g_active_iobuf_bytes :: u64
  g_active_iobuf_num :: u32

definition iobuf_pool_init :: iobuf_pool where
  "iobuf_pool_init = \<lparr>g_io_bufs = [], g_iobuf_pool_bytes = 0, g_active_iobuf_bytes = 0, g_active_iobuf_num = 0\<rparr>"

subsection \<open>Operations\<close>

definition vector_resize :: "(nat \<Rightarrow> nat \<Rightarrow> nat) \<Rightarrow> nat \<Rightarrow> IOBuf \<Rightarrow> IOBuf" where
  "vector_resize grow n b =
     \<lparr>buf_size = n, buf_capacity = (if n \<le> buf_capacity b then buf_capacity b else max n (grow (buf_capacity b) n))\<rparr>"

definition IOBufDeleter :: "nat \<Rightarrow> IOBuf \<Rightarrow> iobuf_pool \<Rightarrow> iobuf_pool" where
  "IOBufDeleter max_pool_size v g =
     (let g1 = g\<lparr>g_active_iobuf_num := g_active_iobuf_num g - 1,
                 g_active_iobuf_bytes := g_active_iobuf_bytes g - word_of_nat (buf_capacity v)\<rparr>
      in if length (g_io_bufs g1) < max_pool_size
         then g1\<lparr>g_io_bufs := v # g_io_bufs g1,
                 g_iobuf_pool_bytes := g_iobuf_pool_bytes g1 + word_of_nat (buf_capacity v)\<rparr>
         else g1)"

definition get_raw_iobuf :: "(nat \<Rightarrow> nat \<Rightarrow> nat) \<Rightarrow> nat \<Rightarrow> iobuf_pool \<Rightarrow> IOBuf \<times> iobuf_pool" where
  "get_raw_iobuf grow n g =
     (case (case g_io_bufs g of
              [] \<Rightarrow> (\<lparr>buf_size = 0, buf_capacity = 0\<rparr>, g)
            | p # rest \<Rightarrow> (p, g\<lparr>g_io_bufs := rest,
                               g_iobuf_pool_bytes := g_iobuf_pool_bytes g - word_of_nat (buf_capacity p)\<rparr>)) of
        (p, g1) \<Rightarrow>
          let n1 = (if n < 8192 + 256 then 8192 + 256 else n);
              p1 = (if buf_size p < n1 then vector_resize grow n1 p else p)
          in (p1, g1\<lparr>g_active_iobuf_num := g_active_iobuf_num g1 + 1,
                     g_active_iobuf_bytes := g_active_iobuf_bytes g1 + word_of_nat (buf_capacity p1)\<rparr>))"

text \<open>
  What the program does with buffers; \<open>live\<close> are those that are out.  \<open>resized\<close> says whether a
  holder may resize a buffer, as \<^verbatim>\<open>read_until\<close> does.
\<close>

inductive pool_reachable ::
  "nat \<Rightarrow> (nat \<Rightarrow> nat \<Rightarrow> nat) \<Rightarrow> bool \<Rightarrow> iobuf_pool \<times> IOBuf multiset \<Rightarrow> bool"
  for mx :: nat and grow :: "nat \<Rightarrow> nat \<Rightarrow> nat" and resized :: bool where
  init: "pool_reachable mx grow resized (iobuf_pool_init, {#})"
| get: "pool_reachable mx grow resized (g, live) \<Longrightarrow> get_raw_iobuf grow n g = (b, g') \<Longrightarrow>
    pool_reachable mx grow resized (g', add_mset b live)"
| put: "pool_reachable mx grow resized (g, add_mset b live) \<Longrightarrow>
    pool_reachable mx grow resized (IOBufDeleter mx b g, live)"
| resize: "resized \<Longrightarrow> pool_reachable mx grow resized (g, add_mset b live) \<Longrightarrow>
    pool_reachable mx grow resized (g, add_mset (vector_resize grow n b) live)"

subsection \<open>Invariants\<close>

definition bytes_of :: "IOBuf multiset \<Rightarrow> u64" where
  "bytes_of bs = word_of_nat (sum_mset (image_mset buf_capacity bs))"

lemma bytes_of_simps [simp]:
  "bytes_of {#} = 0" "bytes_of (add_mset b bs) = word_of_nat (buf_capacity b) + bytes_of bs"
  by (simp_all add: bytes_of_def)

definition pool_inv :: "nat \<Rightarrow> iobuf_pool \<times> IOBuf multiset \<Rightarrow> bool" where
  "pool_inv mx s \<longleftrightarrow> (case s of (g, live) \<Rightarrow>
     length (g_io_bufs g) \<le> mx \<and> g_iobuf_pool_bytes g = bytes_of (mset (g_io_bufs g)) \<and>
     g_active_iobuf_num g = word_of_nat (size live))"

lemma get_raw_iobuf_cases:
  assumes "get_raw_iobuf grow n g = (b, g')"
  shows "(g_io_bufs g = [] \<and> g_io_bufs g' = [] \<and> g_iobuf_pool_bytes g' = g_iobuf_pool_bytes g \<or>
     (\<exists>p. g_io_bufs g = p # g_io_bufs g' \<and>
       g_iobuf_pool_bytes g' = g_iobuf_pool_bytes g - word_of_nat (buf_capacity p))) \<and>
    g_active_iobuf_num g' = g_active_iobuf_num g + 1 \<and>
    g_active_iobuf_bytes g' = g_active_iobuf_bytes g + word_of_nat (buf_capacity b) \<and>
    n \<le> buf_size b \<and> 8448 \<le> buf_size b"
  using assms
  by (auto simp: get_raw_iobuf_def Let_def vector_resize_def split: list.splits if_splits)

lemma pool_reachable_inv: "pool_reachable mx grow r s \<Longrightarrow> pool_inv mx s"
proof (induction rule: pool_reachable.induct)
  case init
  show ?case by (simp add: pool_inv_def iobuf_pool_init_def)
next
  case (get g live n b g')
  then show ?case using get_raw_iobuf_cases [OF get.hyps(2)] by (auto simp: pool_inv_def)
next
  case (put g b live)
  then show ?case by (auto simp: pool_inv_def IOBufDeleter_def Let_def)
next
  case (resize g b live n)
  then show ?case by (auto simp: pool_inv_def)
qed

lemma pool_reachable_active:
  "pool_reachable mx grow False s \<Longrightarrow> g_active_iobuf_bytes (fst s) = bytes_of (snd s)"
proof (induction rule: pool_reachable.induct)
  case init
  show ?case by (simp add: iobuf_pool_init_def)
next
  case (get g live n b g')
  then show ?case using get_raw_iobuf_cases [OF get.hyps(2)] by auto
next
  case (put g b live)
  then show ?case by (auto simp: IOBufDeleter_def Let_def)
qed simp

subsection \<open>Properties\<close>

text \<open>C33: the pool's books balance.  In every reachable state the pool holds at most the configured
  number of buffers, the pool's byte counter is the total capacity of the pooled buffers and the
  buffer counter the number of buffers that are out (modulo the counters' widths); and every buffer
  handed out has room for the requested bytes and for a full chunk with its reserve.\<close>

theorem pool_accounting:
  assumes "pool_reachable mx grow r (g, live)" "get_raw_iobuf grow n g = (b, g')"
  shows "length (g_io_bufs g) \<le> mx \<and> g_iobuf_pool_bytes g = bytes_of (mset (g_io_bufs g)) \<and>
    g_active_iobuf_num g = word_of_nat (size live) \<and> n \<le> buf_size b \<and> 8192 + 256 \<le> buf_size b"
  using pool_reachable_inv [OF assms(1)] get_raw_iobuf_cases [OF assms(2)] by (simp add: pool_inv_def)

theorem pool_accounting_witness:
  "\<exists>b g'. get_raw_iobuf (\<lambda>_ n. n) 10000 iobuf_pool_init = (b, g') \<and> 10000 \<le> buf_size b"
proof -
  obtain b g' where g: "get_raw_iobuf (\<lambda>_ n. n) 10000 iobuf_pool_init = (b, g')" by fastforce
  from pool_accounting [OF pool_reachable.init g, of 64] g show ?thesis by auto
qed

text \<open>What is out is counted, unless it is resized.  As long as no holder resizes a buffer, the
  active byte counter is the total capacity of the buffers that are out.  A buffer that grew while it
  was out is taken off the counter with its new capacity, so the counter falls below zero, that is,
  wraps, by the difference.\<close>

theorem active_bytes_exact_unless_resized:
  assumes "pool_reachable mx grow False (g, live)" "get_raw_iobuf grow n g = (b, g')"
    and "buf_capacity b < m" "m < 2 ^ 64"
  shows "g_active_iobuf_bytes g = bytes_of live \<and>
    g_active_iobuf_bytes (IOBufDeleter mx b g') = bytes_of live \<and>
    g_active_iobuf_bytes (IOBufDeleter mx (vector_resize (\<lambda>_ k. k) m b) g') =
      bytes_of live - word_of_nat (m - buf_capacity b)"
proof -
  have "g_active_iobuf_bytes g = bytes_of live" using pool_reachable_active [OF assms(1)] by simp
  moreover have "g_active_iobuf_bytes g' = g_active_iobuf_bytes g + word_of_nat (buf_capacity b)"
    using get_raw_iobuf_cases [OF assms(2)] by simp
  moreover have "(word_of_nat (m - buf_capacity b) :: u64) = word_of_nat m - word_of_nat (buf_capacity b)"
    using assms(3) by (simp add: of_nat_diff)
  ultimately show ?thesis using assms(3) by (simp add: IOBufDeleter_def vector_resize_def Let_def)
qed

theorem active_bytes_exact_unless_resized_witness:
  "\<exists>b g'. get_raw_iobuf (\<lambda>_ n. n) 0 iobuf_pool_init = (b, g') \<and> buf_capacity b = 8448 \<and>
     g_active_iobuf_bytes (IOBufDeleter 64 (vector_resize (\<lambda>_ k. k) 16896 b) g') = - 8448"
proof -
  obtain b g' where g: "get_raw_iobuf (\<lambda>_ n. n) 0 iobuf_pool_init = (b, g')" by fastforce
  then have "buf_capacity b = 8448"
    by (auto simp: get_raw_iobuf_def iobuf_pool_init_def vector_resize_def Let_def)
  with active_bytes_exact_unless_resized [OF pool_reachable.init g, of 16896 64] g show ?thesis by auto
qed

end
