(* ===== verification/Mux_Server.thy ===== *)
theory Mux_Server
  imports Mux_Dispatch Mux_Auth
begin

text \<open>
  \<^verbatim>\<open>snova/server/mux_server.cc\<close>: the server end of mux connections.  A connection that is accepted
  is wrapped in its transport, authenticated, registered with the connection manager, served by its
  read loop, and removed.  What the transport's handshake and the sockets answer are arguments.

  The abstract view of the manager is the set of connections that are active for a user, a client id
  and a connection type; \<open>active\<close> is the abstraction, and the lemmas show that each operation of
  the manager is the corresponding operation on these sets.
\<close>

subsection \<open>Starting\<close>

datatype MuxTransportType = MUX_OVER_TCP | MUX_OVER_WEBSOCKET | MUX_OVER_TLS | MUX_OVER_TLS_WEBSOCKET

definition invalid_argument :: error_code where
  "invalid_argument = 22"

text \<open>
  The result, \<open>None\<close> when opening the acceptor throws; and the transport of the accept loop that is
  spawned.
\<close>

definition start_mux_server ::
  "'c aead \<Rightarrow> 'e listen_env \<Rightarrow> NetAddress \<Rightarrow> string \<Rightarrow> bytes \<Rightarrow> error_code option \<times> MuxTransportType option" where
  "start_mux_server A env server_address method key =
     (case CipherContext_New A method key of
        None \<Rightarrow> (Some invalid_argument, None)
      | Some _ \<Rightarrow>
          let transport_type = (if addr_schema server_address = str ''ws'' then MUX_OVER_WEBSOCKET else MUX_OVER_TCP) in
          (case env_resolve env of
             Inl resolve_ec \<Rightarrow> (Some resolve_ec, None)
           | Inr endpoint \<Rightarrow>
               if env_open_throws env then (None, None)
               else if env_bind env \<noteq> 0 then (Some (env_bind env), None)
               else if env_listen env \<noteq> 0 then (Some (env_listen env), None)
               else (Some 0, Some transport_type)))"

text \<open>The sockets handed to \<^verbatim>\<open>handle_conn\<close>, over what \<^verbatim>\<open>async_accept\<close> answers.\<close>

fun mux_server_loop :: "MuxTransportType \<Rightarrow> (error_code + 'c) list \<Rightarrow> ('c \<times> MuxTransportType) list" where
  "mux_server_loop transport_type [] = []"
| "mux_server_loop transport_type (Inl ec # accepts) = []"
| "mux_server_loop transport_type (Inr client # accepts) =
     (client, transport_type) # mux_server_loop transport_type accepts"

subsection \<open>Serving a connection\<close>

type_synonym ('c, 's, 'e, 'k, 'w) cipher_node = "('c CipherContext, 's, 'e, 'k, 'w) node"
type_synonym ('c, 's, 'e, 'k, 'w) cipher_env = "('c CipherContext, 's, 'e, 'k, 'w) node_env"

datatype 'n serving =
    Dropped 'n
  | Serving bytes u64 'n

definition leave_server :: "('r, 's, 'e, 'k, 'w) node \<Rightarrow> ('r, 's, 'e, 'k, 'w) node" where
  "leave_server N = N\<lparr>nd_server_conn_num := nd_server_conn_num N - 1\<rparr>"

text \<open>
  From the accepted socket to the registered connection \<open>x\<close>: \<open>c\<close> is the connection just made, over the
  socket or over the WebSocket whose handshake answered \<open>ws_ec\<close>.  \<open>None\<close> when \<^verbatim>\<open>ServerAuth\<close> does not
  return.
\<close>

definition handle_conn_open ::
  "'c aead \<Rightarrow> pb_lib \<Rightarrow> ('c, 's, 'e, 'k, 'w) cipher_env \<Rightarrow> node_flags \<Rightarrow> MuxTransportType \<Rightarrow> error_code \<Rightarrow> u64 \<Rightarrow>
     ('c, 's) cipher_conn \<Rightarrow> nat \<Rightarrow> ('c, 's, 'e, 'k, 'w) cipher_node \<Rightarrow> ('c, 's, 'e, 'k, 'w) cipher_node serving option" where
  "handle_conn_open A L env g transport_type ws_ec iv c x N0 =
     (let N = N0\<lparr>nd_server_conn_num := nd_server_conn_num N0 + 1\<rparr> in
      if transport_type \<noteq> MUX_OVER_TCP \<and> \<not> (transport_type = MUX_OVER_WEBSOCKET \<and> ws_ec = 0)
      then Some (Dropped (leave_server N))
      else case ServerAuth A L (ne_rd env) (ne_wr env) (ne_tm env) g iv c of
             None \<Rightarrow> None
           | Some ((user, cid, auth_success), c1) \<Rightarrow>
               if \<not> auth_success then Some (Dropped (leave_server N))
               else let N1 = set_conn x c1 N in
                 (case MuxConnManager_Add user cid x (nd_mgr N1) of (sr, idx, m) \<Rightarrow>
                    let N2 = N1\<lparr>nd_mgr := m\<rparr> in
                    Some (Serving user cid (set_conn x ((get_conn x N2)\<lparr>conn_idx := word_of_nat idx\<rparr>) N2))))"

text \<open>The retire callback: the connection is removed, and a timer will close it when it is idle.\<close>

definition server_retire ::
  "u64 \<Rightarrow> bytes \<Rightarrow> nat \<Rightarrow> ('r, 's, 'e, 'k, 'w) node \<Rightarrow> ('r, 's, 'e, 'k, 'w) node" where
  "server_retire now mux_user x N =
     (let N1 = N\<lparr>nd_mgr := MuxConnManager_Remove mux_user (client_id (get_conn x N)) x (nd_mgr N)\<rparr> in
      case TimeWheel_Add_active 60000 now (nd_wheel N1) of (t, w) \<Rightarrow>
        N1\<lparr>nd_wheel := w, nd_retiring := (t, x) # nd_retiring N1\<rparr>)"

text \<open>The two functions of that timer: what it calls when it fires, and the activity it asks for.\<close>

definition retire_timeout ::
  "('r, 's, 'e, 'k, 'w) node_env \<Rightarrow> nat \<Rightarrow> ('r, 's, 'e, 'k, 'w) node \<Rightarrow> ('r, 's, 'e, 'k, 'w) node" where
  "retire_timeout env x N = set_conn x (MuxConnection_Close (ne_close env) (get_conn x N)) N"

definition retire_active_time :: "nat \<Rightarrow> ('r, 's, 'e, 'k, 'w) node \<Rightarrow> u64" where
  "retire_active_time x N = ucast (GetLastActiveUnixSecs (get_conn x N)) * 1000"

text \<open>After the read loop.\<close>

definition handle_conn_close ::
  "('r, 's, 'e, 'k, 'w) node_env \<Rightarrow> bytes \<Rightarrow> u64 \<Rightarrow> nat \<Rightarrow> ('r, 's, 'e, 'k, 'w) node \<Rightarrow> ('r, 's, 'e, 'k, 'w) node" where
  "handle_conn_close env mux_user cid x N =
     (let N1 = set_conn x (MuxConnection_Close (ne_close env) (get_conn x N)) N in
      leave_server (N1\<lparr>nd_mgr := MuxConnManager_Remove mux_user cid x (nd_mgr N1)\<rparr>))"

text \<open>The whole handler; \<open>now\<close> is the clock at a retire request.\<close>

definition mux_handle_conn ::
  "'c aead \<Rightarrow> pb_lib \<Rightarrow> ('c, 's, 'e, 'k, 'w) cipher_env \<Rightarrow> node_flags \<Rightarrow> MuxTransportType \<Rightarrow> error_code \<Rightarrow> u64 \<Rightarrow> u64 \<Rightarrow>
     ('c, 's) cipher_conn \<Rightarrow> nat \<Rightarrow> ('c, 's, 'e, 'k, 'w) cipher_node \<Rightarrow>
     ('c, 's, 'e, 'k, 'w) cipher_node progress option" where
  "mux_handle_conn A L env g transport_type ws_ec iv now c x N =
     (case handle_conn_open A L env g transport_type ws_ec iv c x N of
        None \<Rightarrow> None
      | Some (Dropped N1) \<Rightarrow> Some (Finished 0 N1)
      | Some (Serving user cid N1) \<Rightarrow>
          (case ReadEventLoop env True (Some (server_retire now user)) x N1 of
             None \<Rightarrow> None
           | Some (Finished rc N2) \<Rightarrow> Some (Finished 0 (handle_conn_close env user cid x N2))
           | Some (Offering p b n N2) \<Rightarrow> Some (Offering p b n N2)
           | Some (Throws N2) \<Rightarrow> Some (Throws N2)))"

subsection \<open>The manager as sets of active connections\<close>

definition active :: "('r, 's) MuxConnManager \<Rightarrow> bytes \<times> u64 \<times> MuxConnectionType \<Rightarrow> nat set" where
  "active m k = (case k of (u, c, t) \<Rightarrow>
     case find_session u c t m of None \<Rightarrow> {} | Some sr \<Rightarrow> {x. Some x \<in> set (session_conns sr m)})"

lemma put_conn_set:
  assumes "put_conn x cs = (i, cs')"
  shows "{y. Some y \<in> set cs'} = insert x {y. Some y \<in> set cs}"
proof (cases "first_empty cs")
  case None
  with assms show ?thesis by (auto simp: put_conn_def)
next
  case (Some k)
  then have k: "k < length cs" "cs ! k = None" using first_empty_Some by blast+
  have "cs = take k cs @ None # drop (Suc k) cs" using id_take_nth_drop [OF k(1)] k(2) by simp
  then have "set cs = insert None (set (take k cs) \<union> set (drop (Suc k) cs))" by (metis Un_insert_right set_append list.simps(15))
  moreover have "set (cs[k := Some x]) = insert (Some x) (set (take k cs) \<union> set (drop (Suc k) cs))"
    by (simp add: upd_conv_take_nth_drop [OF k(1)])
  moreover have "cs' = cs[k := Some x]" using assms Some by (auto simp: put_conn_def)
  ultimately show ?thesis by auto
qed

lemma active_Add:
  assumes inv: "manager_inv m" and add: "MuxConnManager_Add user cid x m = (sr, idx, m')"
  shows "active m' = (active m)((user, cid, conn_type (the (conn_store m x))) :=
    insert x (active m (user, cid, conn_type (the (conn_store m x)))))"
proof
  fix k :: "bytes \<times> u64 \<times> MuxConnectionType"
  obtain u c t where k: "k = (u, c, t)" by (cases k) auto
  define ty where "ty = conn_type (the (conn_store m x))"
  define old where "old = (case find_session user cid ty m of Some r \<Rightarrow> session_conns r m | None \<Rightarrow> [])"
  note spec = Add_spec [OF inv add ty_def old_def]
  show "active m' k = ((active m)((user, cid, conn_type (the (conn_store m x))) :=
    insert x (active m (user, cid, conn_type (the (conn_store m x)))))) k"
  proof (cases "k = (user, cid, ty)")
    case True
    have "active m (user, cid, ty) = {y. Some y \<in> set old}"
      by (auto simp: active_def old_def split: option.splits)
    moreover have "active m' k = {y. Some y \<in> set (session_conns sr m')}" using True spec(2) by (simp add: active_def)
    ultimately show ?thesis using True put_conn_set [OF spec(1)] by (simp add: ty_def)
  next
    case False
    then have f: "find_session u c t m' = find_session u c t m" using spec(2) k by auto
    have "r \<noteq> sr" if "find_session u c t m = Some r" for r
    proof
      assume "r = sr"
      with that f have "find_session u c t m' = Some sr" by simp
      moreover have "find_session user cid ty m' = Some sr" using spec(2) by simp
      moreover have "find_session user cid ty m \<noteq> None \<Longrightarrow> find_session user cid ty m = Some sr"
        using add GetSession_found [of user cid ty m]
        by (auto simp: MuxConnManager_Add_def ty_def [symmetric] Let_def split: prod.splits)
      ultimately show False
        using inv that \<open>r = sr\<close> False k spec(7) unfolding manager_inv_def by (metis less_irrefl)
    qed
    then have "active m' k = active m k"
      using f k spec(3) by (auto simp: active_def session_conns_def split: option.splits)
    with False show ?thesis by (simp add: ty_def)
  qed
qed

lemma active_Remove:
  assumes inv: "manager_inv m"
  shows "active (MuxConnManager_Remove user cid x m) = (active m)((user, cid, conn_type (the (conn_store m x))) :=
    active m (user, cid, conn_type (the (conn_store m x))) - {x})"
proof (cases "find_session user cid (conn_type (the (conn_store m x))) m")
  case None
  then show ?thesis by (simp add: Remove_absent active_def fun_upd_idem)
next
  case (Some sr)
  note spec = Remove_spec [OF inv refl Some refl]
  let ?ty = "conn_type (the (conn_store m x))" and ?m' = "MuxConnManager_Remove user cid x m"
  show ?thesis
  proof
    fix k :: "bytes \<times> u64 \<times> MuxConnectionType"
    obtain u c t where k: "k = (u, c, t)" by (cases k) auto
    show "active ?m' k = ((active m)((user, cid, ?ty) := active m (user, cid, ?ty) - {x})) k"
    proof (cases "k = (user, cid, ?ty)")
      case True
      have "{y. Some y \<in> set (session_conns sr ?m')} = {y. Some y \<in> set (session_conns sr m)} - {x}"
        by (auto simp: spec(1) clear_slot_def image_iff split: if_splits)
      with True Some k spec(5) [of u c t] show ?thesis by (auto simp: active_def)
    next
      case False
      have "r \<noteq> sr" if "find_session u c t m = Some r" for r
        using inv that Some False k unfolding manager_inv_def by blast
      with False k spec(2,5) show ?thesis by (auto simp: active_def session_conns_def split: option.splits)
    qed
  qed
qed


lemma conn_store_views [simp]:
  "find_session u c t (m\<lparr>conn_store := cs\<rparr>) = find_session u c t m"
  "session_conns sr (m\<lparr>conn_store := cs\<rparr>) = session_conns sr m"
  by (simp_all add: find_session_def session_conns_def)

lemma active_conn_store [simp]: "active (m\<lparr>conn_store := cs\<rparr>) = active m"
  by (rule ext) (simp add: active_def split: prod.split option.split)

lemma manager_inv_conn_store [simp]: "manager_inv (m\<lparr>conn_store := cs\<rparr>) = manager_inv m"
  by (simp add: manager_inv_def)

lemma nd_mgr_set_conn: "nd_mgr (set_conn x c N) = (nd_mgr N)\<lparr>conn_store := (conn_store (nd_mgr N))(x \<mapsto> c)\<rparr>"
  by (simp add: set_conn_def)

lemma active_set_conn [simp]: "active (nd_mgr (set_conn x c N)) = active (nd_mgr N)"
  by (simp add: nd_mgr_set_conn)

lemma Remove_conn_store: "conn_store (MuxConnManager_Remove u c x m) = conn_store m"
  by (auto simp: MuxConnManager_Remove_def Let_def split: option.splits prod.splits)

lemma active_close:
  assumes "manager_inv (nd_mgr N)"
  shows "active (nd_mgr (handle_conn_close env user cid x N)) =
    (active (nd_mgr N))((user, cid, conn_type (get_conn x N)) := active (nd_mgr N) (user, cid, conn_type (get_conn x N)) - {x})"
  using active_Remove [of "nd_mgr (set_conn x (MuxConnection_Close (ne_close env) (get_conn x N)) N)" user cid x] assms
  by (simp add: handle_conn_close_def leave_server_def nd_mgr_set_conn MuxConnection_Close_def Let_def)

lemma active_retire:
  assumes "manager_inv (nd_mgr N)" "client_id (get_conn x N) = cid"
  shows "active (nd_mgr (server_retire now user x N)) =
      (active (nd_mgr N))((user, cid, conn_type (get_conn x N)) := active (nd_mgr N) (user, cid, conn_type (get_conn x N)) - {x})"
    "manager_inv (nd_mgr (server_retire now user x N))" "get_conn x (server_retire now user x N) = get_conn x N"
  using active_Remove [OF assms(1), of user cid x] manager_inv_Remove [OF assms(1)] assms(2)
  by (simp_all add: server_retire_def Let_def get_conn_def Remove_conn_store split: prod.splits)

lemma ServerAuth_client:
  assumes "ServerAuth A L rd wr tm g iv c = Some ((user, cid, True), c1)"
  shows "client_id c1 = cid"
proof -
  obtain rc ev c0 where r: "ReadEvent (CipherContext_Decrypt A L) rd tm c = Some (rc, ev, c0)"
    using assms by (auto simp: ServerAuth_def split: if_splits option.splits)
  with assms obtain m where "server_accept A L wr tm iv m c0 = ((user, cid, True), c1)"
    by (auto simp: ServerAuth_def split: if_splits option.splits mux_body.splits)
  then show ?thesis by (auto simp: server_accept_def Let_def split: prod.splits)
qed

subsection \<open>Properties\<close>





definition wire_env :: "(bytes, wire, u16, unit, MuxEvent list \<times> nat) cipher_env" where
  "wire_env = \<lparr>ne_dec = CipherContext_Decrypt ref_aead ref_pb, ne_enc = CipherContext_Encrypt ref_aead ref_pb,
     ne_rd = duplex_read, ne_wr = duplex_write, ne_close = (\<lambda>s. s), ne_tm = (\<lambda>_. 0),
     ne_ops = log_sink, ne_listen = env_ok 7, ne_is_entry = False\<rparr>"

definition wire_node :: "(bytes, wire, u16, unit, MuxEvent list \<times> nat) cipher_node" where
  "wire_node = \<lparr>nd_mgr = MuxConnManager_init Map.empty, nd_tunnels = tunnel_state_init, nd_streams = mux_world_init ([], 0),
     nd_wheel = TimeWheel_instance, nd_relays = [], nd_retiring = [], nd_server_conn_num = 0\<rparr>"

lemma wire_node_fresh:
  "manager_inv (nd_mgr wire_node)" "\<forall>sr s. sess_store (nd_mgr wire_node) sr = Some s \<longrightarrow> Some x \<notin> set (conns s)"
  by (simp_all add: wire_node_def MuxConnManager_init_def manager_inv_def find_session_def)

lemma wire_auth:
  "\<exists>segs sv1. ServerAuth ref_aead ref_pb duplex_read duplex_write (\<lambda>_. 0) sample_server_flags 5
     (sample_server\<lparr>io_conn := (segs, [])\<rparr>) = Some ((snprintf_s 256 [117], 77, True), sv1)"
proof -
  obtain f n r1 and cl1 :: "(bytes, wire) cipher_conn" where
    fr: "cipher_framed ref_aead ref_pb (cipher_ctx sample_server) (with_len n (auth_request sample_client_flags [117] 77)) f r1"
    and sy: "synced r1 (cipher_ctx cl1)"
    using client_requests [OF ref_aead_ok ref_pb_ok sample_ends_fresh, of "\<lambda>_. 0" sample_client_flags "[117]" 77] by blast
  have "\<not> invalid_role sample_server_flags (auth_message sample_client_flags [117] 77)"
    by (simp add: invalid_role_def auth_message_def snova_AuthRequest_init_default_def)
  from server_answers [OF ref_aead_ok ref_pb_ok sample_ends_fresh fr _ this sy, of "[f]" "\<lambda>_. 0" 5] show ?thesis by auto
qed


end
