(* ===== verification/Mux_Client.thy ===== *)
theory Mux_Client
  imports Mux_Server
begin

text \<open>
  \<^verbatim>\<open>snova/mux/mux_client.h\<close> and \<^verbatim>\<open>mux_client.cc\<close>: the client end keeps a fixed number of connections
  to its remote server in the slots of one session, replaces those that died and retires those
  that expired.  \<open>dial_env\<close> has what the resolver, the sockets, the HTTP proxy and the TLS and
  WebSocket handshakes answer to one attempt, and the connection it yields.
\<close>

subsection \<open>State\<close>

record MuxClient =
  cl_conn_type :: MuxConnectionType
  cl_remote_session :: nat
  cl_remote_mux_address :: NetAddress
  cl_auth_user :: bytes
  cl_cipher_method :: string
  cl_cipher_key :: bytes
  cl_client_id :: u64

record 's dial_env =
  de_via_proxy :: bool
  de_resolve :: error_code
  de_connect :: error_code
  de_proxy :: error_code
  de_tls :: error_code
  de_ws :: error_code
  de_conn :: 's
  de_now :: u64
  de_rand :: u64

datatype dial_result = Connected | Failed error_code | Crashed

definition client_slots :: "MuxClient \<Rightarrow> ('r, 's, 'e, 'k, 'w) node \<Rightarrow> nat option list" where
  "client_slots cl N = session_conns (cl_remote_session cl) (nd_mgr N)"

definition set_slots :: "MuxClient \<Rightarrow> nat option list \<Rightarrow> ('r, 's, 'e, 'k, 'w) node \<Rightarrow> ('r, 's, 'e, 'k, 'w) node" where
  "set_slots cl cs N = N\<lparr>nd_mgr := (nd_mgr N)\<lparr>sess_store := (sess_store (nd_mgr N))(cl_remote_session cl \<mapsto>
     (the (sess_store (nd_mgr N) (cl_remote_session cl)))\<lparr>conns := cs\<rparr>)\<rparr>\<rparr>"

definition MuxClient_SetClientId :: "u64 \<Rightarrow> MuxClient \<Rightarrow> MuxClient" where
  "MuxClient_SetClientId cid cl = cl\<lparr>cl_client_id := cid\<rparr>"

text \<open>A writer of the factory, which is the factory of the remote session.\<close>

definition MuxClient_writer :: "MuxClient \<Rightarrow> ('r, 's, 'e, 'k, 'w) node \<Rightarrow> (nat \<times> nat) option" where
  "MuxClient_writer cl N = session_writer (cl_remote_session cl) (nd_mgr N)"

subsection \<open>One connection\<close>

text \<open>Reaching the server: the first error, or 0.\<close>

definition client_dial :: "NetAddress \<Rightarrow> 's dial_env \<Rightarrow> error_code" where
  "client_dial addr d =
     (let schema = addr_schema addr;
          tcp = (if \<not> de_via_proxy d then (if de_resolve d \<noteq> 0 then de_resolve d else de_connect d) else de_proxy d)
      in if tcp \<noteq> 0 then tcp
         else if (schema = str ''tls'' \<or> schema = str ''wss'') \<and> de_tls d \<noteq> 0 then de_tls d
         else if (schema = str ''ws'' \<or> schema = str ''wss'') \<and> de_ws d \<noteq> 0 then de_ws d
         else 0)"

fun open_tunnels ::
  "'c aead \<Rightarrow> pb_lib \<Rightarrow> 's reader \<Rightarrow> 's writer \<Rightarrow> ('s \<Rightarrow> u64) \<Rightarrow> RemoteTunnelOption list \<Rightarrow> ('c, 's) cipher_conn \<Rightarrow>
     (bool outcome \<times> ('c, 's) cipher_conn) option" where
  "open_tunnels A L rd wr tm [] c = Some (Returns True, c)"
| "open_tunnels A L rd wr tm (opt # opts) c =
     (case OpenTunnel A L rd wr tm (rt_remote_port opt) (rt_local_host opt) (rt_local_port opt) True c of
        None \<Rightarrow> None
      | Some (NullDereference, c1) \<Rightarrow> Some (NullDereference, c1)
      | Some (Returns success, c1) \<Rightarrow>
          if \<not> success then Some (Returns False, c1) else open_tunnels A L rd wr tm opts c1)"

text \<open>
  \<open>x\<close> is the reference of the new connection.  \<open>None\<close> when the handshake does not return.  The
  relay handler an exit node sets is the argument \<open>server_relay\<close> of the read loop that is spawned.
\<close>

definition NewConnection ::
  "'c aead \<Rightarrow> pb_lib \<Rightarrow> ('c, 's, 'e, 'k, 'w) cipher_env \<Rightarrow> node_flags \<Rightarrow> u64 \<Rightarrow> RemoteTunnelOption list \<Rightarrow> 's dial_env \<Rightarrow> nat \<Rightarrow>
     MuxClient \<Rightarrow> nat \<Rightarrow> ('c, 's, 'e, 'k, 'w) cipher_node \<Rightarrow> (dial_result \<times> ('c, 's, 'e, 'k, 'w) cipher_node) option" where
  "NewConnection A L env g expire_secs opts d x cl idx N =
     (if length (client_slots cl N) \<le> idx then Some (Failed invalid_argument, N)
      else if client_dial (cl_remote_mux_address cl) d \<noteq> 0
      then Some (Failed (client_dial (cl_remote_mux_address cl) d), N)
      else case CipherContext_New A (cl_cipher_method cl) (cl_cipher_key cl) of
             None \<Rightarrow> Some (Crashed, N)
           | Some ctx \<Rightarrow>
               let c = MuxConnection_new (cl_conn_type cl) (de_conn d) ctx True (de_now d) expire_secs (de_rand d) in
               (case ClientAuth A L (ne_rd env) (ne_wr env) (ne_tm env) g (cl_auth_user cl) (cl_client_id cl) c of
                  None \<Rightarrow> None
                | Some (auth_success, c1) \<Rightarrow>
                    if \<not> auth_success then Some (Failed invalid_argument, N)
                    else let c2 = c1\<lparr>conn_idx := word_of_nat idx\<rparr> in
                      (case open_tunnels A L (ne_rd env) (ne_wr env) (ne_tm env) opts c2 of
                         None \<Rightarrow> None
                       | Some (NullDereference, c3) \<Rightarrow> Some (Crashed, N)
                       | Some (Returns success, c3) \<Rightarrow>
                           if \<not> success then Some (Failed invalid_argument, N)
                           else let N1 = set_conn x c3 N in
                             Some (Connected, set_slots cl ((client_slots cl N1)[idx := Some x]) N1))))"

text \<open>What the spawned coroutine does when the connection's read loop has ended.\<close>

definition client_loop_end :: "MuxClient \<Rightarrow> nat \<Rightarrow> nat \<Rightarrow> ('r, 's, 'e, 'k, 'w) node \<Rightarrow> ('r, 's, 'e, 'k, 'w) node" where
  "client_loop_end cl idx x N =
     (if \<not> retired (get_conn x N) then set_slots cl ((client_slots cl N)[idx := None]) N else N)"

subsection \<open>Init\<close>

text \<open>\<^verbatim>\<open>std::vector::resize\<close> of the slots: cut, or filled up with null pointers.\<close>

definition resize_slots :: "nat \<Rightarrow> nat option list \<Rightarrow> nat option list" where
  "resize_slots n cs = take n cs @ replicate (n - length cs) None"

fun connect_slots ::
  "(nat \<Rightarrow> ('c, 's, 'e, 'k, 'w) cipher_node \<Rightarrow> (dial_result \<times> ('c, 's, 'e, 'k, 'w) cipher_node) option) \<Rightarrow> nat list \<Rightarrow>
     ('c, 's, 'e, 'k, 'w) cipher_node \<Rightarrow> (dial_result \<times> ('c, 's, 'e, 'k, 'w) cipher_node) option" where
  "connect_slots new [] N = Some (Connected, N)"
| "connect_slots new (i # is) N =
     (case new i N of
        None \<Rightarrow> None
      | Some (Crashed, N1) \<Rightarrow> Some (Crashed, N1)
      | Some (r, N1) \<Rightarrow> connect_slots new is N1)"

definition client_conn_type :: "node_flags \<Rightarrow> MuxConnectionType" where
  "client_conn_type g = (if g_is_exit_node g then MUX_ENTRY_CONN else MUX_EXIT_CONN)"

text \<open>
  \<open>n\<close> is \<^verbatim>\<open>g_conn_num_per_server\<close>; \<open>dials\<close> and \<open>refs\<close> are the attempts and references of the slots.
  On success \<^verbatim>\<open>CheckConnections\<close> is spawned.
\<close>

definition MuxClient_Init ::
  "str_split \<Rightarrow> 'c aead \<Rightarrow> pb_lib \<Rightarrow> ('c, 's, 'e, 'k, 'w) cipher_env \<Rightarrow> node_flags \<Rightarrow> u64 \<Rightarrow> RemoteTunnelOption list \<Rightarrow>
     (nat \<Rightarrow> 's dial_env) \<Rightarrow> (nat \<Rightarrow> nat) \<Rightarrow> nat \<Rightarrow> bytes \<Rightarrow> bytes \<Rightarrow> string \<Rightarrow> bytes \<Rightarrow> MuxClient \<Rightarrow>
     ('c, 's, 'e, 'k, 'w) cipher_node \<Rightarrow> (dial_result \<times> MuxClient \<times> ('c, 's, 'e, 'k, 'w) cipher_node) option" where
  "MuxClient_Init split A L env g expire_secs opts dials refs n remote_server user method key cl N =
     (case GetSession user (cl_client_id cl) (client_conn_type g) (nd_mgr N) of (sr, m) \<Rightarrow>
        let cl1 = cl\<lparr>cl_auth_user := user, cl_conn_type := client_conn_type g, cl_remote_session := sr\<rparr>;
            N0 = N\<lparr>nd_mgr := m\<rparr>;
            N1 = set_slots cl1 (resize_slots n (client_slots cl1 N0)) N0
        in case NetAddress_Parse split remote_server of
             None \<Rightarrow> Some (Failed invalid_argument, cl1, N1)
           | Some addr \<Rightarrow>
               let cl2 = cl1\<lparr>cl_remote_mux_address := addr\<rparr> in
               (case CipherContext_New A method key of
                  None \<Rightarrow> Some (Failed invalid_argument, cl2, N1)
                | Some _ \<Rightarrow>
                    let cl3 = cl2\<lparr>cl_cipher_method := method, cl_cipher_key := key\<rparr>;
                        new = (\<lambda>i. NewConnection A L env g expire_secs opts (dials i) (refs i) cl3 i)
                    in (case new 0 N1 of
                          None \<Rightarrow> None
                        | Some (Connected, N2) \<Rightarrow> map_option (\<lambda>(r, N3). (r, cl3, N3)) (connect_slots new [1..<n] N2)
                        | Some (r, N2) \<Rightarrow> Some (r, cl3, N2))))"

subsection \<open>CheckConnections\<close>

definition client_retire ::
  "('r, 's, 'e, 'k, 'w) node_env \<Rightarrow> u64 \<Rightarrow> MuxClient \<Rightarrow> nat \<Rightarrow> nat \<Rightarrow> ('r, 's, 'e, 'k, 'w) node \<Rightarrow> ('r, 's, 'e, 'k, 'w) node" where
  "client_retire env now_ms cl i x N =
     (let N1 = set_conn x ((get_conn x N)\<lparr>retired := True\<rparr>) N;
          N2 = set_slots cl ((client_slots cl N1)[i := None]) N1;
          N3 = snd (conn_write env x (make_event RetireConnRequest) N2)
      in case TimeWheel_Add_active 15000 now_ms (nd_wheel N3) of (t, w) \<Rightarrow>
           N3\<lparr>nd_wheel := w, nd_retiring := (t, x) # nd_retiring N3\<rparr>)"

text \<open>One slot, and one round over the slots after the three seconds of sleep.\<close>

definition check_slot ::
  "(nat \<Rightarrow> ('c, 's, 'e, 'k, 'w) cipher_node \<Rightarrow> (dial_result \<times> ('c, 's, 'e, 'k, 'w) cipher_node) option) \<Rightarrow>
     ('c, 's, 'e, 'k, 'w) cipher_env \<Rightarrow> u32 \<Rightarrow> u64 \<Rightarrow> MuxClient \<Rightarrow> nat \<Rightarrow> ('c, 's, 'e, 'k, 'w) cipher_node \<Rightarrow>
     (dial_result \<times> ('c, 's, 'e, 'k, 'w) cipher_node) option" where
  "check_slot new env now now_ms cl i N =
     (case client_slots cl N ! i of
        None \<Rightarrow> new i N
      | Some x \<Rightarrow>
          let N1 = set_conn x (ResetCounter now (get_conn x N)) N in
          if expire_at_unix_secs (get_conn x N1) < now
          then Some (Connected, client_retire env now_ms cl i x N1) else Some (Connected, N1))"

definition CheckConnections_round ::
  "(nat \<Rightarrow> ('c, 's, 'e, 'k, 'w) cipher_node \<Rightarrow> (dial_result \<times> ('c, 's, 'e, 'k, 'w) cipher_node) option) \<Rightarrow>
     ('c, 's, 'e, 'k, 'w) cipher_env \<Rightarrow> u32 \<Rightarrow> u64 \<Rightarrow> MuxClient \<Rightarrow> nat \<Rightarrow> ('c, 's, 'e, 'k, 'w) cipher_node \<Rightarrow>
     (dial_result \<times> ('c, 's, 'e, 'k, 'w) cipher_node) option" where
  "CheckConnections_round new env now now_ms cl n N = connect_slots (\<lambda>i. check_slot new env now now_ms cl i) [0..<n] N"


subsection \<open>Slots\<close>

lemma slots_set [simp]:
  "client_slots cl (set_slots cl cs N) = cs" "get_conn x (set_slots cl cs N) = get_conn x N"
  "client_slots cl (set_conn x c N) = client_slots cl N"
  by (simp_all add: client_slots_def set_slots_def session_conns_def get_conn_def nd_mgr_set_conn)

lemma slots_tables [simp]:
  "client_slots cl (N\<lparr>nd_wheel := w\<rparr>) = client_slots cl N" "client_slots cl (N\<lparr>nd_retiring := q\<rparr>) = client_slots cl N"
  by (simp_all add: client_slots_def)

lemma conn_write_slots [simp]: "client_slots cl (snd (conn_write env x ev N)) = client_slots cl N"
  by (simp add: conn_write_def split: prod.split)

lemma conn_write_flags:
  "retired (get_conn y (snd (conn_write env x ev N))) = retired (get_conn y N)"
  "expire_at_unix_secs (get_conn y (snd (conn_write env x ev N))) = expire_at_unix_secs (get_conn y N)"
proof -
  obtain ok c where w: "MuxConnection_Write (ne_enc env) (ne_wr env) (ne_tm env) (get_conn x N) ev = (ok, c)" by fastforce
  then have N: "snd (conn_write env x ev N) = set_conn x c N" by (simp add: conn_write_def)
  show "retired (get_conn y (snd (conn_write env x ev N))) = retired (get_conn y N)"
    "expire_at_unix_secs (get_conn y (snd (conn_write env x ev N))) = expire_at_unix_secs (get_conn y N)"
    unfolding N using Write_keeps [OF w] by (cases "y = x"; simp)+
qed

lemma NewConnection_connected:
  assumes "NewConnection A L env g expire_secs opts d x cl idx N = Some (Connected, N')"
  shows "client_slots cl N' = (client_slots cl N)[idx := Some x] \<and> idx < length (client_slots cl N) \<and>
    (\<forall>y. y \<noteq> x \<longrightarrow> get_conn y N' = get_conn y N)"
  using assms
  by (auto simp: NewConnection_def Let_def split: if_splits option.splits outcome.splits)

lemma NewConnection_any:
  assumes "NewConnection A L env g expire_secs opts d x cl idx N = Some (Connected, N')"
    and "length (client_slots cl M) = length (client_slots cl N)"
  shows "\<exists>M'. NewConnection A L env g expire_secs opts d x cl idx M = Some (Connected, M')"
  using assms
  by (auto simp: NewConnection_def Let_def split: if_splits option.splits outcome.splits)

lemma client_retire_effect:
  "client_slots cl (client_retire env now_ms cl i x N) = (client_slots cl N)[i := None]"
  "retired (get_conn y (client_retire env now_ms cl i x N)) = (y = x \<or> retired (get_conn y N))"
  "expire_at_unix_secs (get_conn y (client_retire env now_ms cl i x N)) = expire_at_unix_secs (get_conn y N)"
  by (cases "y = x"; simp add: client_retire_def Let_def conn_write_flags split: prod.split)+

lemma ResetCounter_keeps:
  "retired (ResetCounter now c) = retired c" "expire_at_unix_secs (ResetCounter now c) = expire_at_unix_secs c"
  by (simp_all add: ResetCounter_def)

subsection \<open>Read loops and slots\<close>

text \<open>
  The steps of a client after \<^verbatim>\<open>Init\<close>: a connection is made for an empty slot and its read loop
  starts; a connection of a slot is retired by its client, or by its peer; a read loop ends; and
  anything else, which leaves the slots and the retired flags alone.
\<close>

inductive client_step ::
  "MuxClient \<Rightarrow> ('c, 's, 'e, 'k, 'w) cipher_node \<times> (nat \<times> nat) set \<Rightarrow> ('c, 's, 'e, 'k, 'w) cipher_node \<times> (nat \<times> nat) set \<Rightarrow> bool"
  for cl where
  connect: "client_slots cl N ! i = None \<Longrightarrow> x \<notin> fst ` loops \<Longrightarrow>
    NewConnection A L env g secs opts d x cl i N = Some (Connected, N') \<Longrightarrow>
    client_step cl (N, loops) (N', insert (x, i) loops)"
| retire: "i < length (client_slots cl N) \<Longrightarrow> client_slots cl N ! i = Some x \<Longrightarrow>
    client_step cl (N, loops) (client_retire env ms cl i x N, loops)"
| peer_retires: "client_step cl (N, loops) (set_conn x ((get_conn x N)\<lparr>retired := True\<rparr>) N, loops)"
| loop_ends: "(x, i) \<in> loops \<Longrightarrow> client_step cl (N, loops) (client_loop_end cl i x N, loops - {(x, i)})"
| work: "client_slots cl N' = client_slots cl N \<Longrightarrow> (\<And>x. retired (get_conn x N') = retired (get_conn x N)) \<Longrightarrow>
    client_step cl (N, loops) (N', loops)"

inductive client_reachable ::
  "MuxClient \<Rightarrow> nat \<Rightarrow> ('c, 's, 'e, 'k, 'w) cipher_node \<times> (nat \<times> nat) set \<Rightarrow> bool" for cl n where
  start: "client_slots cl N = replicate n None \<Longrightarrow> client_reachable cl n (N, {})"
| step: "client_reachable cl n s \<Longrightarrow> client_step cl s s' \<Longrightarrow> client_reachable cl n s'"

definition client_inv :: "MuxClient \<Rightarrow> nat \<Rightarrow> ('c, 's, 'e, 'k, 'w) cipher_node \<times> (nat \<times> nat) set \<Rightarrow> bool" where
  "client_inv cl n s \<longleftrightarrow> length (client_slots cl (fst s)) = n \<and>
     (\<forall>(x, i) \<in> snd s. i < n \<and> (\<not> retired (get_conn x (fst s)) \<longrightarrow> client_slots cl (fst s) ! i = Some x))"

lemma client_inv_step:
  assumes inv: "client_inv cl n s" and "client_step cl s s'"
  shows "client_inv cl n s'"
  using assms(2)
proof cases
  case (connect N i x loops A L env g secs opts d N')
  have old: "(y, j) \<in> loops \<Longrightarrow> j < n \<and> (\<not> retired (get_conn y N) \<longrightarrow> client_slots cl N ! j = Some y)" for y j
    using inv connect(1) by (auto simp: client_inv_def)
  have len: "length (client_slots cl N) = n" using inv connect(1) by (simp add: client_inv_def)
  note new = NewConnection_connected [OF connect(5)]
  have "y \<noteq> x" if "(y, j) \<in> loops" for y j using that connect(4) by force
  with new old connect(3) len show ?thesis unfolding connect(2) client_inv_def
    by (auto simp: nth_list_update)
next
  case (retire i N x loops env ms)
  then show ?thesis using inv by (auto simp: client_inv_def client_retire_effect nth_list_update)
next
  case (peer_retires N loops x)
  have "retired (get_conn y (set_conn x ((get_conn x N)\<lparr>retired := True\<rparr>) N)) = (y = x \<or> retired (get_conn y N))" for y
    by (cases "y = x") simp_all
  with peer_retires inv show ?thesis by (auto simp: client_inv_def)
next
  case (loop_ends x i loops N)
  have old: "(y, j) \<in> loops \<Longrightarrow> j < n \<and> (\<not> retired (get_conn y N) \<longrightarrow> client_slots cl N ! j = Some y)" for y j
    using inv loop_ends(1) by (auto simp: client_inv_def)
  have len: "length (client_slots cl N) = n" using inv loop_ends(1) by (simp add: client_inv_def)
  have "(client_slots cl N)[i := None] ! j = Some y"
    if "(y, j) \<in> loops" "(y, j) \<noteq> (x, i)" "\<not> retired (get_conn y N)" "\<not> retired (get_conn x N)" for y j
    using that old [OF that(1)] old [OF loop_ends(3)] len by (cases "j = i") auto
  with old len show ?thesis unfolding loop_ends(2) client_inv_def by (auto simp: client_loop_end_def)
next
  case (work N' N loops)
  then show ?thesis using inv by (auto simp: client_inv_def)
qed

lemma client_reachable_inv: "client_reachable cl n s \<Longrightarrow> client_inv cl n s"
proof (induction rule: client_reachable.induct)
  case (start N)
  then show ?case by (simp add: client_inv_def)
next
  case (step s s')
  then show ?case by (blast intro: client_inv_step)
qed

subsection \<open>Properties\<close>

text \<open>C17: a read loop only ever frees its own slot.  However connecting, retiring by either side and
  the ends of read loops interleave: when the loop of connection \<open>x\<close> for slot \<open>i\<close> ends, either \<open>x\<close> is
  retired and no slot changes, or slot \<open>i\<close> holds \<open>x\<close> and exactly this slot becomes empty; so a
  connection that replaced a retired one is never dropped by the old one's end.\<close>

theorem client_loop_frees_own_slot:
  assumes "client_reachable cl n (N, loops)" "(x, i) \<in> loops"
  shows "client_slots cl (client_loop_end cl i x N) =
      (if retired (get_conn x N) then client_slots cl N else (client_slots cl N)[i := None]) \<and>
    (\<not> retired (get_conn x N) \<longrightarrow> i < n \<and> client_slots cl N ! i = Some x)"
  using client_reachable_inv [OF assms(1)] assms(2) by (auto simp: client_inv_def client_loop_end_def)

text \<open>One round over the slots, when every attempt to connect succeeds.\<close>

definition expired_conn :: "u32 \<Rightarrow> nat \<Rightarrow> ('r, 's, 'e, 'k, 'w) node \<Rightarrow> bool" where
  "expired_conn now x N \<longleftrightarrow> expire_at_unix_secs (get_conn x N) < now"

definition checked :: "u32 \<Rightarrow> (nat \<Rightarrow> nat) \<Rightarrow> ('r, 's, 'e, 'k, 'w) node \<Rightarrow> nat \<Rightarrow> nat option \<Rightarrow> nat option" where
  "checked now refs N i v = (case v of None \<Rightarrow> Some (refs i) | Some x \<Rightarrow> if expired_conn now x N then None else Some x)"

lemma check_slot_effect:
  assumes new: "client_slots cl N ! i = None \<Longrightarrow> \<exists>M. new i N = Some (Connected, M) \<and>
      client_slots cl M = (client_slots cl N)[i := Some (refs i)] \<and> (\<forall>y. y \<noteq> refs i \<longrightarrow> get_conn y M = get_conn y N)"
    and i: "i < length (client_slots cl N)"
  shows "\<exists>M. check_slot new env now ms cl i N = Some (Connected, M) \<and>
    client_slots cl M = (client_slots cl N)[i := checked now refs N i (client_slots cl N ! i)] \<and>
    (\<forall>y. y \<noteq> refs i \<longrightarrow> expired_conn now y M = expired_conn now y N)"
proof (cases "client_slots cl N ! i")
  case None
  with new show ?thesis by (auto simp: check_slot_def checked_def expired_conn_def)
next
  case (Some x)
  let ?N = "set_conn x (ResetCounter now (get_conn x N)) N"
  have e: "expire_at_unix_secs (get_conn y ?N) = expire_at_unix_secs (get_conn y N)" for y
    by (cases "y = x") (simp_all add: ResetCounter_keeps)
  show ?thesis
  proof (cases "expired_conn now x N")
    case True
    then have "check_slot new env now ms cl i N = Some (Connected, client_retire env ms cl i x ?N)"
      using Some by (simp add: check_slot_def Let_def expired_conn_def ResetCounter_keeps)
    with Some True show ?thesis by (simp add: checked_def client_retire_effect expired_conn_def e)
  next
    case False
    then have "check_slot new env now ms cl i N = Some (Connected, ?N)"
      using Some by (simp add: check_slot_def Let_def expired_conn_def ResetCounter_keeps)
    moreover have "(client_slots cl N)[i := Some x] = client_slots cl N" using Some by (metis list_update_id)
    ultimately show ?thesis using Some False by (simp add: checked_def expired_conn_def e)
  qed
qed


lemma connect_slots_effect:
  assumes new: "\<And>i M. i < n \<Longrightarrow> length (client_slots cl M) = n \<Longrightarrow> client_slots cl M ! i = None \<Longrightarrow>
      \<exists>M'. new i M = Some (Connected, M') \<and> client_slots cl M' = (client_slots cl M)[i := Some (refs i)] \<and>
        (\<forall>y. y \<noteq> refs i \<longrightarrow> get_conn y M' = get_conn y M)"
    and fresh: "\<And>i j. i < n \<Longrightarrow> j < n \<Longrightarrow> client_slots cl N ! j \<noteq> Some (refs i)"
  shows "k \<le> n \<Longrightarrow> length (client_slots cl M) = n \<Longrightarrow> (\<And>j. k \<le> j \<Longrightarrow> j < n \<Longrightarrow> client_slots cl M ! j = client_slots cl N ! j) \<Longrightarrow>
    (\<And>j y. j < n \<Longrightarrow> client_slots cl N ! j = Some y \<Longrightarrow> expired_conn now y M = expired_conn now y N) \<Longrightarrow>
    (\<And>j. j < k \<Longrightarrow> client_slots cl M ! j = checked now refs N j (client_slots cl N ! j)) \<Longrightarrow>
    \<exists>M'. connect_slots (\<lambda>i. check_slot new env now ms cl i) [k..<n] M = Some (Connected, M') \<and>
      length (client_slots cl M') = n \<and> (\<forall>j<n. client_slots cl M' ! j = checked now refs N j (client_slots cl N ! j))"
proof (induction "n - k" arbitrary: k M)
  case 0
  then show ?case by simp
next
  case (Suc l)
  then have k: "k < n" by simp
  have kc: "client_slots cl M ! k = client_slots cl N ! k" using Suc.prems(3) [of k] k by simp
  obtain M1 where M1: "check_slot new env now ms cl k M = Some (Connected, M1)"
    "client_slots cl M1 = (client_slots cl M)[k := checked now refs M k (client_slots cl M ! k)]"
    "\<And>y. y \<noteq> refs k \<Longrightarrow> expired_conn now y M1 = expired_conn now y M"
    using check_slot_effect [of cl M k new refs env now ms] new [OF k Suc.prems(2)] k Suc.prems(2) by auto
  have ck: "checked now refs M k (client_slots cl M ! k) = checked now refs N k (client_slots cl N ! k)"
    using Suc.prems(4) [OF k] by (auto simp: kc checked_def split: option.split)
  have "\<exists>M'. connect_slots (\<lambda>i. check_slot new env now ms cl i) [Suc k..<n] M1 = Some (Connected, M') \<and>
      length (client_slots cl M') = n \<and> (\<forall>j<n. client_slots cl M' ! j = checked now refs N j (client_slots cl N ! j))"
  proof (rule Suc.hyps(1))
    show "l = n - Suc k" "Suc k \<le> n" using Suc.hyps(2) k by simp_all
    show "length (client_slots cl M1) = n" using M1(2) Suc.prems(2) by simp
    show "client_slots cl M1 ! j = client_slots cl N ! j" if "Suc k \<le> j" "j < n" for j
      using that M1(2) Suc.prems(3) [of j] by simp
    show "expired_conn now y M1 = expired_conn now y N" if "j < n" "client_slots cl N ! j = Some y" for j y
      using M1(3) [of y] fresh [OF k that(1)] that Suc.prems(4) [OF that] by auto
    show "client_slots cl M1 ! j = checked now refs N j (client_slots cl N ! j)" if "j < Suc k" for j
      using that M1(2) ck Suc.prems(2,5) k by (cases "j = k") auto
  qed
  then show ?case using M1(1) k by (simp add: upt_conv_Cons)
qed



text \<open>A server's answer that a fresh client accepts.\<close>

lemma wire_client_auth:
  "\<exists>segs c1. ClientAuth ref_aead ref_pb duplex_read duplex_write (\<lambda>_. 0) sample_client_flags [117] 77 (sample_conn (segs, [])) =
     Some (True, c1)"
proof -
  have buf: "length (replicate 8456 (0 :: u8)) = 8456" by simp
  let ?fresh = "sample_conn ([], []) :: (bytes, wire) cipher_conn"
  let ?q = "sample_ctx\<lparr>encrypt_iv := encrypt_iv sample_ctx + 1\<rparr>"
  obtain f2 n2 q2 where fr2: "cipher_framed ref_aead ref_pb ?q (with_len n2 (auth_answer 5)) f2 q2"
    using Encrypt_framed [OF ref_aead_ok ref_pb_ok synced_swap_enc [OF sample_ctx_synced] auth_response_wf buf] by blast
  let ?c = "(sample_conn ([f2], []))\<lparr>client_id := 77\<rparr>"
  have c: "writer_ok ?c" "synced (cipher_ctx ?c) sample_ctx"
    using sample_conn_simps(1) [of "([f2], [])"] sample_ctx_synced by (simp_all add: sample_conn_simps writer_ok_def)
  from Duplex_framed [OF ref_aead_ok ref_pb_ok c auth_request_wf [of _ sample_client_flags "[117]" 77], of "\<lambda>_. 0"]
  obtain f cl1 where w: "MuxConnection_Write (CipherContext_Encrypt ref_aead ref_pb) duplex_write (\<lambda>_. 0) ?c
        (auth_request sample_client_flags [117] 77) = (True, cl1)" "cipher_ctx cl1 = ?q" "io_conn cl1 = ([f2], f)"
      "read_buffer cl1 = read_buffer ?fresh" "readable_data cl1 = readable_data ?fresh"
    by (auto simp: sample_conn_simps sample_conn_def MuxConnection_new_def)
  have "cl1\<lparr>io_conn := ([f2], f)\<rparr> = cl1" by (simp add: w(3) [symmetric])
  moreover have "cipher_framed ref_aead ref_pb (cipher_ctx cl1) (with_len n2 (auth_answer 5)) f2 q2" using fr2 w(2) by simp
  moreover have "to_read ?fresh = []" by (simp add: sample_conn_simps)
  ultimately obtain cl2 where "ClientAuth_response ref_aead ref_pb duplex_read (\<lambda>_. 0) [117] cl1 = Some (True, cl2)"
    using client_accepts [OF _ _ w(4,5) _ sample_conn_simps(2), of "[f2]" f2 ref_aead ref_pb n2 5 q2 "\<lambda>_. 0" "[117]" f] by auto
  moreover have "is_local (sample_conn ([f2], []))" by (simp add: sample_conn_def MuxConnection_new_def)
  ultimately show ?thesis using w(1) by (auto simp: ClientAuth_def ClientAuth_request_def)
qed

definition sample_client :: MuxClient where
  "sample_client = \<lparr>cl_conn_type = MUX_ENTRY_CONN, cl_remote_session = 0, cl_remote_mux_address = any_host 7,
     cl_auth_user = [117], cl_cipher_method = ''chacha20_poly1305'', cl_cipher_key = [7, 8, 9], cl_client_id = 77\<rparr>"

definition wire_dial :: "bytes list \<Rightarrow> wire dial_env" where
  "wire_dial segs = \<lparr>de_via_proxy = False, de_resolve = 0, de_connect = 0, de_proxy = 0, de_tls = 0, de_ws = 0,
     de_conn = (segs, []), de_now = 1700000000, de_rand = 7\<rparr>"

definition client_node :: "(bytes, wire, u16, unit, MuxEvent list \<times> nat) cipher_node" where
  "client_node = set_slots sample_client [None, Some 3] (set_conn 3 (sample_conn ([], [])) wire_node)"

lemma wire_connects:
  assumes "ClientAuth ref_aead ref_pb duplex_read duplex_write (\<lambda>_. 0) sample_client_flags [117] 77 (sample_conn (segs, [])) = Some (True, c1)"
    and "i < length (client_slots sample_client N)"
  shows "\<exists>M. NewConnection ref_aead ref_pb wire_env sample_client_flags 1800 [] (wire_dial segs) x sample_client i N = Some (Connected, M)"
proof -
  have "CipherContext_New ref_aead ''chacha20_poly1305'' [7, 8, 9] = Some sample_ctx"
    by (simp add: sample_ctx_def CipherContext_New_def get_cipher_aead_def)
  with assms show ?thesis
    by (simp add: NewConnection_def client_dial_def wire_dial_def sample_client_def any_host_def str_def wire_env_def
        sample_conn_def Let_def)
qed


theorem client_loop_frees_own_slot_witness:
  "\<exists>M :: (bytes, wire, u16, unit, MuxEvent list \<times> nat) cipher_node. client_slots sample_client M = [Some 3] \<and>
     client_slots sample_client (client_loop_end sample_client 0 3 M) = (if retired (get_conn 3 M) then [Some 3] else [None])"
proof -
  let ?N0 = "set_slots sample_client [None] wire_node"
  obtain segs c1 where auth: "ClientAuth ref_aead ref_pb duplex_read duplex_write (\<lambda>_. 0) sample_client_flags [117] 77
      (sample_conn (segs, [])) = Some (True, c1)" using wire_client_auth by blast
  obtain M where M: "NewConnection ref_aead ref_pb wire_env sample_client_flags 1800 [] (wire_dial segs) 3 sample_client 0 ?N0 = Some (Connected, M)"
    using wire_connects [OF auth, of 0 ?N0] by auto
  have "client_reachable sample_client 1 (?N0, {})" by (rule client_reachable.start) simp
  from client_reachable.step [OF this client_step.connect [OF _ _ M]]
  have "client_reachable sample_client 1 (M, {(3, 0)})" by simp
  from client_loop_frees_own_slot [OF this, of 3 0] NewConnection_connected [OF M] show ?thesis
    by (intro exI [of _ M]) simp
qed

end
