(* ===== verification/Session_Setup.thy ===== *)
theory Session_Setup
  imports Mux_Client
begin

text \<open>
  A client and a server together: what \<^verbatim>\<open>MuxClient::NewConnection\<close> at one end and \<^verbatim>\<open>handle_conn\<close> of the
  mux server at the other do until the connection carries events, over the definitions of the
  components.
\<close>

text \<open>Connections just made with the same key are a fresh pair of ends.\<close>

lemma new_conns_fresh:
  assumes "synced ctx ctx"
  shows "fresh_ends (MuxConnection_new ty ([], []) ctx True now secs rnd) (MuxConnection_new ty' ([], []) ctx False now' secs' rnd')"
  using assms
  by (simp add: fresh_ends_def MuxConnection_new_def writer_ok_def reader_ok_def spans_ok_def unread_def slice_of_def)

lemma MuxConnection_new_io:
  "(MuxConnection_new ty s ctx loc now secs rnd)\<lparr>io_conn := s'\<rparr> = MuxConnection_new ty s' ctx loc now secs rnd"
  by (simp add: MuxConnection_new_def)

lemma conn_ready_idx [simp]: "conn_ready (c\<lparr>conn_idx := i\<rparr>) = conn_ready c"
  by (simp add: conn_ready_def writer_ok_def reader_ok_def unread_def spans_ok_def)

text \<open>Client and server are ready, with nothing left to read, and both directions use the nonce.\<close>

definition ends_joined :: "u64 \<Rightarrow> ('c, wire) cipher_conn \<Rightarrow> ('c, wire) cipher_conn \<Rightarrow> bool" where
  "ends_joined iv c s \<longleftrightarrow> conn_ready c \<and> conn_ready s \<and> encrypt_iv (cipher_ctx c) = iv \<and>
     synced (cipher_ctx c) (cipher_ctx s) \<and> synced (cipher_ctx s) (cipher_ctx c)"

lemma ends_joined_idx [simp]: "ends_joined iv (c\<lparr>conn_idx := i\<rparr>) (s\<lparr>conn_idx := j\<rparr>) = ends_joined iv c s"
  by (simp add: ends_joined_def)

lemma UpdateNonce_iv: "encrypt_iv (UpdateNonce iv r) = iv"
  by (simp add: UpdateNonce_def)

lemma client_dial_conn [simp]: "client_dial addr (d\<lparr>de_conn := w\<rparr>) = client_dial addr d"
  by (simp add: client_dial_def Let_def)

text \<open>What is written does not depend on what there is to read.\<close>

lemma Write_preloaded:
  assumes "MuxConnection_Write enc duplex_write tm c e = (True, c1)" "writer_ok c1"
  shows "\<exists>c2. MuxConnection_Write enc duplex_write tm (c\<lparr>io_conn := (segs, snd (io_conn c))\<rparr>) e = (True, c2) \<and>
    io_conn c2 = (segs, snd (io_conn c1)) \<and> cipher_ctx c2 = cipher_ctx c1 \<and> read_buffer c2 = read_buffer c1 \<and>
    readable_data c2 = readable_data c1 \<and> writer_ok c2"
proof -
  obtain o1 r1 e1 where e: "enc (cipher_ctx c) e (write_buffer c) = (o1, r1, e1)" by (metis prod_cases3)
  obtain f where "o1 = Inr f" using assms e
    by (cases o1) (auto simp: MuxConnection_Write_def write_lock_def write_unlock_def)
  with assms e show ?thesis
    by (auto simp: MuxConnection_Write_def write_lock_def write_unlock_def count_write_def duplex_write_def writer_ok_def Let_def)
qed

text \<open>The client's handshake in one piece, with the server's answer on its way.\<close>

lemma ClientAuth_answered:
  assumes lib: "aead_ok A" "pb_lib_ok L" and fe: "fresh_ends cl sv"
    and rq: "ClientAuth_request A L duplex_write tm g user cid cl = (True, cl1)" "snd (io_conn cl1) = f"
      "read_buffer cl1 = read_buffer cl" "readable_data cl1 = readable_data cl" "writer_ok cl1"
    and fr: "cipher_framed A L (cipher_ctx cl1) (with_len n (auth_answer iv)) f2 q2" and segs: "concat segs = f2"
  shows "\<exists>cl2. ClientAuth A L duplex_read duplex_write tm g user cid (cl\<lparr>io_conn := (segs, [])\<rparr>) = Some (True, cl2) \<and>
    snd (io_conn cl2) = f \<and> cipher_ctx cl2 = UpdateNonce iv q2 \<and> conn_ready cl2"
proof -
  have fe': "is_local cl" "io_conn cl = ([], [])" "to_read cl = []" "reader_ok (\<lambda>_. True) cl" using fe by (simp_all add: fresh_ends_def)
  have w: "MuxConnection_Write (CipherContext_Encrypt A L) duplex_write tm (cl\<lparr>client_id := cid\<rparr>) (auth_request g user cid) = (True, cl1)"
    using rq(1) fe' by (simp add: ClientAuth_request_def)
  from Write_preloaded [OF w rq(5), of segs] obtain c2 where
    c2: "MuxConnection_Write (CipherContext_Encrypt A L) duplex_write tm (cl\<lparr>client_id := cid, io_conn := (segs, [])\<rparr>)
        (auth_request g user cid) = (True, c2)"
      "io_conn c2 = (segs, f)" "cipher_ctx c2 = cipher_ctx cl1" "read_buffer c2 = read_buffer cl" "readable_data c2 = readable_data cl"
      "writer_ok c2" using fe' rq by auto
  have same: "c2\<lparr>io_conn := (segs, f)\<rparr> = c2" by (simp add: c2(2) [symmetric])
  from client_accepts [OF segs fr [folded c2(3)] c2(4,5) fe'(3,4), of tm user f] same c2(6)
  obtain cl2 where "ClientAuth_response A L duplex_read tm user c2 = Some (True, cl2)" "snd (io_conn cl2) = f"
    "cipher_ctx cl2 = UpdateNonce iv q2" "conn_ready cl2" by auto
  moreover have swap: "cl\<lparr>client_id := cid, io_conn := (segs, [])\<rparr> = cl\<lparr>io_conn := (segs, []), client_id := cid\<rparr>" by simp
  ultimately show ?thesis using c2(1) [unfolded swap] fe'(1) by (simp add: ClientAuth_def ClientAuth_request_def)
qed

text \<open>The handshake of two fresh ends, each side in one piece.\<close>

lemma handshake_ready:
  assumes lib: "aead_ok A" "pb_lib_ok L" and fe: "fresh_ends cl sv" and role: "\<not> invalid_role gs (auth_message gc user cid)"
  shows "\<exists>req. \<forall>segs. concat segs = req \<longrightarrow>
    (\<exists>sv1. ServerAuth A L duplex_read duplex_write tm gs iv (sv\<lparr>io_conn := (segs, [])\<rparr>) =
         Some ((snprintf_s 256 user, cid, True), sv1) \<and> conn_type sv1 = auth_conn_type gc \<and>
       (\<forall>segs'. concat segs' = snd (io_conn sv1) \<longrightarrow>
         (\<exists>cl2. ClientAuth A L duplex_read duplex_write tm gc user cid (cl\<lparr>io_conn := (segs', [])\<rparr>) = Some (True, cl2) \<and>
            snd (io_conn cl2) = req \<and> ends_joined iv cl2 sv1)))"
proof -
  obtain f n cl1 r1 where cl1: "ClientAuth_request A L duplex_write tm gc user cid cl = (True, cl1)" "snd (io_conn cl1) = f"
      "read_buffer cl1 = read_buffer cl" "readable_data cl1 = readable_data cl" "writer_ok cl1"
    and fr: "cipher_framed A L (cipher_ctx sv) (with_len n (auth_request gc user cid)) f r1"
    and sy: "synced (cipher_ctx cl1) r1" "synced r1 (cipher_ctx cl1)"
    using client_requests [OF lib fe, of tm gc user cid] by blast
  have "\<exists>sv1. ServerAuth A L duplex_read duplex_write tm gs iv (sv\<lparr>io_conn := (segs, [])\<rparr>) =
         Some ((snprintf_s 256 user, cid, True), sv1) \<and> conn_type sv1 = auth_conn_type gc \<and>
       (\<forall>segs'. concat segs' = snd (io_conn sv1) \<longrightarrow>
         (\<exists>cl2. ClientAuth A L duplex_read duplex_write tm gc user cid (cl\<lparr>io_conn := (segs', [])\<rparr>) = Some (True, cl2) \<and>
            snd (io_conn cl2) = f \<and> ends_joined iv cl2 sv1))"
    if segs: "concat segs = f" for segs
  proof -
    obtain sv1 f2 n2 q2 where sv1: "ServerAuth A L duplex_read duplex_write tm gs iv (sv\<lparr>io_conn := (segs, [])\<rparr>) =
        Some ((snprintf_s 256 user, cid, True), sv1)" "snd (io_conn sv1) = f2"
      "cipher_ctx sv1 = UpdateNonce iv (r1\<lparr>encrypt_iv := encrypt_iv r1 + 1\<rparr>)" "conn_type sv1 = auth_conn_type gc" "conn_ready sv1"
      and fr2: "cipher_framed A L (cipher_ctx cl1) (with_len n2 (auth_answer iv)) f2 q2"
      using server_answers [OF lib fe fr segs role sy(2), of tm iv] by blast
    have "\<exists>cl2. ClientAuth A L duplex_read duplex_write tm gc user cid (cl\<lparr>io_conn := (segs', [])\<rparr>) = Some (True, cl2) \<and>
            snd (io_conn cl2) = f \<and> ends_joined iv cl2 sv1"
      if "concat segs' = snd (io_conn sv1)" for segs'
      using ClientAuth_answered [OF lib fe cl1 fr2, of segs'] that sv1(2,3,5) handshake_synced [OF fr2 sy, of iv]
      by (auto simp: UpdateNonce_iv ends_joined_def)
    with sv1 show ?thesis by blast
  qed
  then show ?thesis by blast
qed

text \<open>A client whose handshake succeeds has its connection in the slot.\<close>

lemma NewConnection_authed:
  assumes "idx < length (client_slots cl N)" "client_dial (cl_remote_mux_address cl) d = 0"
    and "CipherContext_New A (cl_cipher_method cl) (cl_cipher_key cl) = Some ctx"
    and "ClientAuth A L (ne_rd env) (ne_wr env) (ne_tm env) g (cl_auth_user cl) (cl_client_id cl)
      (MuxConnection_new (cl_conn_type cl) (de_conn d) ctx True (de_now d) secs (de_rand d)) = Some (True, c)"
  shows "\<exists>N1. NewConnection A L env g secs [] d x cl idx N = Some (Connected, N1) \<and>
    get_conn x N1 = c\<lparr>conn_idx := word_of_nat idx\<rparr> \<and> client_slots cl N1 = (client_slots cl N)[idx := Some x]"
  using assms by (simp add: NewConnection_def Let_def)

text \<open>A server whose handshake succeeds has the connection registered.\<close>

lemma handle_conn_open_authed:
  assumes inv: "manager_inv (nd_mgr M)"
    and auth: "ServerAuth A L (ne_rd env) (ne_wr env) (ne_tm env) g iv c = Some ((user, cid, True), c1)"
  shows "\<exists>M1 idx. handle_conn_open A L env g MUX_OVER_TCP 0 iv c y M = Some (Serving user cid M1) \<and>
    get_conn y M1 = c1\<lparr>conn_idx := idx\<rparr> \<and> y \<in> active (nd_mgr M1) (user, cid, conn_type c1)"
proof -
  let ?M = "set_conn y c1 (M\<lparr>nd_server_conn_num := nd_server_conn_num M + 1\<rparr>)"
  obtain sr idx m where add: "MuxConnManager_Add user cid y (nd_mgr ?M) = (sr, idx, m)" by (metis prod_cases3)
  have inv': "manager_inv (nd_mgr ?M)" using inv by (simp add: nd_mgr_set_conn)
  have conn: "get_conn y (?M\<lparr>nd_mgr := m\<rparr>) = c1"
    using Add_spec(8) [OF inv' add refl refl] by (simp add: get_conn_def nd_mgr_set_conn)
  have "conn_type (the (conn_store (nd_mgr ?M) y)) = conn_type c1" by (simp add: nd_mgr_set_conn)
  with active_Add [OF inv' add] have "y \<in> active m (user, cid, conn_type c1)" by simp
  with auth add conn show ?thesis by (simp add: handle_conn_open_def Let_def nd_mgr_set_conn) (rule exI, rule refl)
qed

text \<open>Both, over the wire.\<close>

lemma client_in_service:
  assumes "ne_rd env = duplex_read" "ne_wr env = duplex_write" "cl_cipher_method cl = ''chacha20_poly1305''"
    "CipherContext_New A ''chacha20_poly1305'' (cl_cipher_key cl) = Some ctx"
    "idx < length (client_slots cl N)" "client_dial (cl_remote_mux_address cl) d = 0"
    and auth: "\<exists>c. ClientAuth A L duplex_read duplex_write (ne_tm env) gc (cl_auth_user cl) (cl_client_id cl)
        (MuxConnection_new (cl_conn_type cl) (segs', []) ctx True (de_now d) secs (de_rand d)) = Some (True, c) \<and>
      snd (io_conn c) = req \<and> ends_joined iv c sv1"
  shows "\<exists>N1. NewConnection A L env gc secs [] (d\<lparr>de_conn := (segs', [])\<rparr>) x cl idx N = Some (Connected, N1) \<and>
    client_slots cl N1 = (client_slots cl N)[idx := Some x] \<and> snd (io_conn (get_conn x N1)) = req \<and>
    ends_joined iv (get_conn x N1) (sv1\<lparr>conn_idx := i\<rparr>)"
proof -
  let ?d = "d\<lparr>de_conn := (segs', [])\<rparr>"
  from auth assms(1,2) obtain c where
    c: "ClientAuth A L (ne_rd env) (ne_wr env) (ne_tm env) gc (cl_auth_user cl) (cl_client_id cl)
        (MuxConnection_new (cl_conn_type cl) (de_conn ?d) ctx True (de_now ?d) secs (de_rand ?d)) = Some (True, c)"
      "snd (io_conn c) = req" "ends_joined iv c sv1" by auto
  have "client_dial (cl_remote_mux_address cl) ?d = 0" using assms(6) by simp
  from NewConnection_authed [OF assms(5) this _ c(1), unfolded assms(3), OF assms(4), of x]
  obtain N1 where "NewConnection A L env gc secs [] ?d x cl idx N = Some (Connected, N1)"
    "get_conn x N1 = c\<lparr>conn_idx := word_of_nat idx\<rparr>" "client_slots cl N1 = (client_slots cl N)[idx := Some x]" by metis
  with c(2,3) show ?thesis by (intro exI [of _ N1]) simp
qed

text \<open>C10: a client's connection comes into service at both ends.  Client and server have the same cipher
  and key and different roles, the server is reached and the server's manager is consistent.  Then there
  are bytes \<open>req\<close> such that the server, however the network cuts them, takes the connection into
  service for the client's user and id, registered under the type of the client's role; and with the
  bytes \<open>res\<close> the server has written, however they are cut, \<open>NewConnection\<close> succeeds, has
  written exactly \<open>req\<close> and has the connection in its slot.  Both ends are then ready: nothing is
  left unread and both directions are synchronised, from the nonce that the server chose.\<close>

theorem connection_established:
  assumes lib: "aead_ok A" "pb_lib_ok L"
    and key: "cl_cipher_method cl = ''chacha20_poly1305''"
      "CipherContext_New A ''chacha20_poly1305'' (cl_cipher_key cl) = Some ctx"
    and roles: "\<not> (g_is_entry_node gs \<and> g_is_entry_node gc)" "\<not> (g_is_exit_node gs \<and> g_is_exit_node gc)"
      "\<not> (g_is_middle_node gs \<and> g_is_middle_node gc)"
    and env: "ne_rd env = duplex_read" "ne_wr env = duplex_write" "ne_rd env' = duplex_read" "ne_wr env' = duplex_write"
      "ne_tm env' = ne_tm env"
    and dial: "idx < length (client_slots cl N)" "client_dial (cl_remote_mux_address cl) d = 0"
    and mgr: "manager_inv (nd_mgr M)"
  shows "\<exists>req. \<forall>segs. concat segs = req \<longrightarrow>
    (\<exists>M1 res. handle_conn_open A L env' gs MUX_OVER_TCP 0 iv
         (MuxConnection_new MUX_ENTRY_CONN (segs, []) ctx False now' secs' rnd') y M =
         Some (Serving (snprintf_s 256 (cl_auth_user cl)) (cl_client_id cl) M1) \<and>
       y \<in> active (nd_mgr M1) (snprintf_s 256 (cl_auth_user cl), cl_client_id cl, auth_conn_type gc) \<and>
       snd (io_conn (get_conn y M1)) = res \<and>
       (\<forall>segs'. concat segs' = res \<longrightarrow>
         (\<exists>N1. NewConnection A L env gc secs [] (d\<lparr>de_conn := (segs', [])\<rparr>) x cl idx N = Some (Connected, N1) \<and>
            client_slots cl N1 = (client_slots cl N)[idx := Some x] \<and> snd (io_conn (get_conn x N1)) = req \<and>
            ends_joined iv (get_conn x N1) (get_conn y M1))))"
proof -
  let ?user = "cl_auth_user cl" and ?cid = "cl_client_id cl"
  let ?sv = "\<lambda>w. MuxConnection_new MUX_ENTRY_CONN w ctx False now' secs' rnd'"
  have "synced ctx ctx" using New_synced [OF lib(1) key(2) key(2)] .
  note fe = new_conns_fresh [OF this, of "cl_conn_type cl" "de_now d" secs "de_rand d" MUX_ENTRY_CONN now' secs' rnd']
  have role: "\<not> invalid_role gs (auth_message gc ?user ?cid)"
    using roles by (auto simp: invalid_role_def auth_message_def)
  from handshake_ready [OF lib fe role, of "ne_tm env" iv, unfolded MuxConnection_new_io]
  obtain req where hs: "\<forall>segs. concat segs = req \<longrightarrow>
    (\<exists>sv1. ServerAuth A L duplex_read duplex_write (ne_tm env) gs iv (?sv (segs, [])) =
         Some ((snprintf_s 256 ?user, ?cid, True), sv1) \<and> conn_type sv1 = auth_conn_type gc \<and>
       (\<forall>segs'. concat segs' = snd (io_conn sv1) \<longrightarrow>
         (\<exists>c. ClientAuth A L duplex_read duplex_write (ne_tm env) gc ?user ?cid
              (MuxConnection_new (cl_conn_type cl) (segs', []) ctx True (de_now d) secs (de_rand d)) = Some (True, c) \<and>
            snd (io_conn c) = req \<and> ends_joined iv c sv1)))" by (rule exE)
  show ?thesis
  proof (intro exI [of _ req] allI impI)
    fix segs assume "concat segs = req"
    from hs [rule_format, OF this] obtain sv1 where
      sv1: "ServerAuth A L (ne_rd env') (ne_wr env') (ne_tm env') gs iv (?sv (segs, [])) = Some ((snprintf_s 256 ?user, ?cid, True), sv1)"
        "conn_type sv1 = auth_conn_type gc"
      and client: "\<forall>segs'. concat segs' = snd (io_conn sv1) \<longrightarrow>
         (\<exists>c. ClientAuth A L duplex_read duplex_write (ne_tm env) gc ?user ?cid
              (MuxConnection_new (cl_conn_type cl) (segs', []) ctx True (de_now d) secs (de_rand d)) = Some (True, c) \<and>
            snd (io_conn c) = req \<and> ends_joined iv c sv1)" unfolding env by (elim exE conjE)
    from handle_conn_open_authed [OF mgr sv1(1), of y, unfolded sv1(2)]
    obtain M1 i where M1: "handle_conn_open A L env' gs MUX_OVER_TCP 0 iv (?sv (segs, [])) y M =
        Some (Serving (snprintf_s 256 ?user) ?cid M1)"
      "y \<in> active (nd_mgr M1) (snprintf_s 256 ?user, ?cid, auth_conn_type gc)" "get_conn y M1 = sv1\<lparr>conn_idx := i\<rparr>" by metis
    have res: "snd (io_conn (get_conn y M1)) = snd (io_conn sv1)" by (simp add: M1(3))
    note joins = client_in_service [OF env(1,2) key dial client [rule_format], of _ x i, folded M1(3)]
    show "\<exists>M1 res. handle_conn_open A L env' gs MUX_OVER_TCP 0 iv (?sv (segs, [])) y M = Some (Serving (snprintf_s 256 ?user) ?cid M1) \<and>
       y \<in> active (nd_mgr M1) (snprintf_s 256 ?user, ?cid, auth_conn_type gc) \<and> snd (io_conn (get_conn y M1)) = res \<and>
       (\<forall>segs'. concat segs' = res \<longrightarrow>
         (\<exists>N1. NewConnection A L env gc secs [] (d\<lparr>de_conn := (segs', [])\<rparr>) x cl idx N = Some (Connected, N1) \<and>
            client_slots cl N1 = (client_slots cl N)[idx := Some x] \<and> snd (io_conn (get_conn x N1)) = req \<and>
            ends_joined iv (get_conn x N1) (get_conn y M1)))"
      by (intro exI [of _ M1] exI [of _ "snd (io_conn sv1)"] conjI allI impI) (fact M1 res | (rule joins, assumption))+
  qed
qed

text \<open>An entry node connects its first slot to an exit node; the bytes arrive in one piece.\<close>

theorem connection_established_witness:
  "\<exists>segs segs' M1 N1. handle_conn_open ref_aead ref_pb wire_env sample_server_flags MUX_OVER_TCP 0 5
       (MuxConnection_new MUX_ENTRY_CONN (segs, []) sample_ctx False 0 1800 0) 3 wire_node =
       Some (Serving (snprintf_s 256 [117]) 77 M1) \<and>
     NewConnection ref_aead ref_pb wire_env sample_client_flags 1800 [] (wire_dial segs') 10 sample_client 0 client_node =
       Some (Connected, N1) \<and>
     ends_joined 5 (get_conn 10 N1) (get_conn 3 M1)"
proof -
  have key: "cl_cipher_method sample_client = ''chacha20_poly1305''"
    "CipherContext_New ref_aead ''chacha20_poly1305'' (cl_cipher_key sample_client) = Some sample_ctx"
    by (simp_all add: sample_client_def sample_ctx_def CipherContext_New_def get_cipher_aead_def)
  have env: "ne_rd wire_env = duplex_read" "ne_wr wire_env = duplex_write" by (simp_all add: wire_env_def)
  have dial: "0 < length (client_slots sample_client client_node)"
    "client_dial (cl_remote_mux_address sample_client) (wire_dial []) = 0"
    by (simp_all add: client_node_def client_dial_def wire_dial_def sample_client_def any_host_def str_def)
  have d: "(wire_dial [])\<lparr>de_conn := (s, [])\<rparr> = wire_dial s" for s by (simp add: wire_dial_def)
  have user: "cl_auth_user sample_client = [117]" "cl_client_id sample_client = 77" by (simp_all add: sample_client_def)
  obtain req where req: "\<And>segs. concat segs = req \<Longrightarrow>
    \<exists>M1. handle_conn_open ref_aead ref_pb wire_env sample_server_flags MUX_OVER_TCP 0 5
       (MuxConnection_new MUX_ENTRY_CONN (segs, []) sample_ctx False 0 1800 0) 3 wire_node =
       Some (Serving (snprintf_s 256 [117]) 77 M1) \<and>
     (\<forall>segs'. concat segs' = snd (io_conn (get_conn 3 M1)) \<longrightarrow>
       (\<exists>N1. NewConnection ref_aead ref_pb wire_env sample_client_flags 1800 [] (wire_dial segs') 10 sample_client 0 client_node =
          Some (Connected, N1) \<and> ends_joined 5 (get_conn 10 N1) (get_conn 3 M1)))"
    using connection_established [OF ref_aead_ok ref_pb_ok key _ _ _ env env refl dial wire_node_fresh(1),
        of sample_server_flags sample_client_flags 5 0 1800 0 3 1800 10, unfolded d user] by (simp, metis)
  have one: "concat [b] = b" for b :: bytes by simp
  from req [OF one] one show ?thesis by meson
qed

end
