(* ===== verification/Http_Helper.thy ===== *)
theory Http_Helper
  imports Net_Address
begin

text \<open>
  \<^verbatim>\<open>snova/util/http_helper.cc\<close>: reading a header of an HTTP head, and the accept key of the
  web socket handshake.  \<^verbatim>\<open>absl::StripAsciiWhitespace\<close>, \<^verbatim>\<open>absl::Base64Escape\<close> and BoringSSL's SHA-1
  are parameters; \<open>StripAsciiWhitespace_ok\<close> is what the code relies on of the first.
\<close>

subsection \<open>Definitions\<close>

definition crlf :: bytes where
  "crlf = [13, 10]"

definition StripAsciiWhitespace_ok :: "(bytes \<Rightarrow> bytes) \<Rightarrow> bool" where
  "StripAsciiWhitespace_ok strip \<longleftrightarrow>
     (\<forall>s. strip s = rev (dropWhile is_space (rev (dropWhile is_space s))))"

text \<open>
  The return code and the value.  \<^verbatim>\<open>n\<close> is unsigned in the code; lemma \<open>header_no_underflow\<close> shows
  that the subtraction does not wrap.
\<close>

definition http_get_header :: "(bytes \<Rightarrow> bytes) \<Rightarrow> bytes \<Rightarrow> bytes \<Rightarrow> int \<times> bytes option" where
  "http_get_header strip recv_data header =
     (case find_sub header recv_data of
        None \<Rightarrow> (- 1, None)
      | Some pos \<Rightarrow>
          (case find_sub crlf (drop pos recv_data) of
             None \<Rightarrow> (- 1, None)
           | Some k \<Rightarrow>
               let end_pos = pos + k; n = end_pos - pos - length header
               in (0, Some (strip (slice_of (pos + length header) n recv_data)))))"

definition parse_http_hostport :: "(bytes \<Rightarrow> bytes) \<Rightarrow> bytes \<Rightarrow> int \<times> bytes option" where
  "parse_http_hostport strip recv_data = http_get_header strip recv_data (str ''Host:'')"

definition ws_get_accept_secret_key :: "(bytes \<Rightarrow> bytes) \<Rightarrow> (bytes \<Rightarrow> bytes) \<Rightarrow> bytes \<Rightarrow> bytes" where
  "ws_get_accept_secret_key sha1_sum base64 key =
     base64 (sha1_sum (key @ str ''258EAFA5-E914-47DA-95CA-C5AB0DC85B11''))"

subsection \<open>Searching across a separator\<close>

lemma find_sub_NoneD:
  assumes "find_sub pat s = None" "k \<le> length s"
  shows "take (length pat) (drop k s) \<noteq> pat"
  using find_sub_hit [of pat k s] assms by auto

lemma find_sub_here: "take (length pat) s = pat \<Longrightarrow> find_sub pat s = Some 0"
  by (cases s) auto

lemma take_eq_straddle:
  assumes "take (length pat) (a @ c # b) = pat" "c \<notin> set pat"
  shows "take (length pat) a = pat"
proof (cases "length pat \<le> length a")
  case True
  with assms show ?thesis by simp
next
  case False
  then obtain n where "length pat - length a = Suc n" by (metis Suc_diff_Suc linorder_not_le)
  with assms(1) have "pat = take (length pat) a @ c # take n b" by simp
  with assms(2) show ?thesis by (metis in_set_conv_decomp)
qed

text \<open>A pattern without the separator is found on one side of it.\<close>

lemma find_sub_sep:
  assumes "c \<notin> set pat" "pat \<noteq> []"
  shows "find_sub pat (a @ c # b) =
    (case find_sub pat a of Some i \<Rightarrow> Some i | None \<Rightarrow> map_option (\<lambda>i. length a + 1 + i) (find_sub pat b))"
proof (induction a)
  case Nil
  have "take (length pat) (c # b) \<noteq> pat" using assms by (cases pat) auto
  then show ?case using assms(2) by (cases "find_sub pat b") auto
next
  case (Cons x a)
  show ?case
  proof (cases "take (length pat) (x # a) = pat")
    case True
    then have "find_sub pat (x # a) = Some 0" by simp
    then show ?thesis using find_sub_append by fastforce
  next
    case False
    then have "take (length pat) ((x # a) @ c # b) \<noteq> pat" using take_eq_straddle [OF _ assms(1)] by blast
    then have "find_sub pat ((x # a) @ c # b) = map_option Suc (find_sub pat (a @ c # b))" by simp
    with False Cons show ?thesis by (cases "find_sub pat a"; cases "find_sub pat b") auto
  qed
qed

lemma find_crlf: "13 \<notin> set v \<Longrightarrow> find_sub crlf (v @ crlf @ rest) = Some (length v)"
  by (induction v) (auto simp: crlf_def)

lemma find_crlf_none: "13 \<notin> set v \<Longrightarrow> find_sub crlf v = None"
proof (induction v)
  case (Cons x v)
  then show ?case by (simp add: crlf_def)
qed (simp add: crlf_def)

lemma header_no_underflow:
  assumes "find_sub header s = Some pos" "find_sub crlf (drop pos s) = Some k" "13 \<notin> set header"
  shows "length header \<le> k"
proof (rule ccontr)
  assume k: "\<not> length header \<le> k"
  have h: "take (length header) (drop pos s) = header" using find_sub_SomeD [OF assms(1)] by simp
  have "take 2 (drop k (drop pos s)) = [13, 10]" using find_sub_SomeD [OF assms(2)] by (simp add: crlf_def numeral_2_eq_2)
  then obtain t where t: "drop k (drop pos s) = 13 # t"
    by (cases "drop k (drop pos s)") auto
  then have "drop pos s ! k = 13" by (rule nth_via_drop)
  with h k have "header ! k = 13" by (metis linorder_not_le nth_take)
  with k assms(3) show False by (metis linorder_not_le nth_mem)
qed

subsection \<open>Heads made of lines\<close>

definition header_lines :: "bytes list \<Rightarrow> bytes" where
  "header_lines ls = concat (map (\<lambda>l. l @ crlf) ls)"

definition plain_line :: "bytes \<Rightarrow> bytes \<Rightarrow> bool" where
  "plain_line header l \<longleftrightarrow> 13 \<notin> set l \<and> find_sub header l = None"

lemma header_lines_simps [simp]:
  "header_lines [] = []" "header_lines (l # ls) = l @ crlf @ header_lines ls"
  "header_lines (ls @ ls') = header_lines ls @ header_lines ls'"
  by (simp_all add: header_lines_def)

lemma find_skip_lines:
  assumes "\<forall>l\<in>set ls. plain_line header l" "13 \<notin> set header" "hd header \<noteq> 10" "header \<noteq> []"
  shows "find_sub header (header_lines ls @ rest) = map_option (\<lambda>i. length (header_lines ls) + i) (find_sub header rest)"
  using assms(1)
proof (induction ls)
  case Nil
  then show ?case by (simp add: map_option.id [unfolded id_def])
next
  case (Cons l ls)
  have nl: "take (length header) (10 # t) \<noteq> header" for t using assms(3,4) by (cases header) auto
  have "find_sub header (header_lines (l # ls) @ rest) = find_sub header (l @ 13 # 10 # header_lines ls @ rest)"
    by (simp add: crlf_def)
  also have "\<dots> = map_option (\<lambda>i. length l + 1 + i) (find_sub header (10 # header_lines ls @ rest))"
    using Cons.prems by (simp only: find_sub_sep [OF assms(2,4)]) (simp only: plain_line_def list.set ball_simps option.case)
  finally show ?case using Cons nl by (cases "find_sub header rest") (auto simp: crlf_def)
qed

lemma strip_value:
  assumes "StripAsciiWhitespace_ok strip" "v \<noteq> []" "\<not> is_space (hd v)" "\<not> is_space (last v)"
    "list_all is_space sp"
  shows "strip (sp @ v) = v"
proof -
  have "dropWhile is_space (sp @ v) = v" using assms(2,3,5) by (cases v) (auto simp: list_all_iff)
  moreover have "dropWhile is_space (rev v) = rev v" using assms(2,4) by (cases v rule: rev_cases) auto
  ultimately show ?thesis using assms(1) by (simp add: StripAsciiWhitespace_ok_def)
qed

text \<open>The header of the first line that carries it, if a line end follows.\<close>

lemma http_get_header_line:
  assumes strip: "StripAsciiWhitespace_ok strip" and ls: "\<forall>l\<in>set ls. plain_line header l"
    and h: "13 \<notin> set header" "hd header \<noteq> 10" "header \<noteq> []"
    and v: "v \<noteq> []" "\<not> is_space (hd v)" "\<not> is_space (last v)" "13 \<notin> set v"
  shows "http_get_header strip (header_lines ls @ header @ 32 # v @ crlf @ rest) header = (0, Some v)"
    "http_get_header strip (header_lines ls @ header @ 32 # v) header = (- 1, None)"
proof -
  let ?n = "length (header_lines ls)"
  have "find_sub header (header @ t) = Some 0" for t by (rule find_sub_here) simp
  then have pos: "find_sub header (header_lines ls @ header @ t) = Some ?n" for t
    by (simp add: find_skip_lines [OF ls h])
  have v1: "13 \<notin> set (header @ 32 # v)" using h(1) v(4) by simp
  have "find_sub crlf (header @ 32 # v @ crlf @ rest) = Some (length header + (1 + length v))"
    using find_crlf [OF v1, of rest] by simp
  moreover have "slice_of (?n + length header) (1 + length v) (header_lines ls @ header @ 32 # v @ crlf @ rest) = [32] @ v"
    by (simp add: slice_of_def)
  moreover have "strip ([32] @ v) = v" by (rule strip_value [OF strip v(1-3)]) (simp add: is_space_def)
  ultimately show "http_get_header strip (header_lines ls @ header @ 32 # v @ crlf @ rest) header = (0, Some v)"
    by (simp add: http_get_header_def pos Let_def)
  show "http_get_header strip (header_lines ls @ header @ 32 # v) header = (- 1, None)"
    using find_crlf_none [OF v1] by (simp add: http_get_header_def pos)
qed

text \<open>Nothing is found in a beginning of the head that ends before the line does.\<close>

lemma http_get_header_cut:
  assumes pos: "find_sub header s = Some pos" and k: "find_sub crlf (drop pos s) = Some k" and j: "j < pos + k + 2"
  shows "http_get_header strip (take j s) header = (- 1, None)"
proof (cases "find_sub header (take j s)")
  case None
  then show ?thesis by (simp add: http_get_header_def)
next
  case (Some pos')
  have s: "take j s @ drop j s = s" by simp
  have p: "pos' = pos" "pos \<le> length (take j s)"
    using find_sub_append [OF Some, of "drop j s"] pos find_sub_SomeD [OF Some] by auto
  have "find_sub crlf (drop pos (take j s)) = None"
  proof (rule ccontr)
    assume "find_sub crlf (drop pos (take j s)) \<noteq> None"
    then obtain k' where k': "find_sub crlf (drop pos (take j s)) = Some k'" by blast
    have "drop pos (take j s) @ drop j s = drop pos s" using p(2) s by (metis drop_append diff_is_0_eq drop_0)
    with find_sub_append [OF k', of "drop j s"] k have "k' = k" by simp
    with conjunct1 [OF find_sub_SomeD [OF k']] p j show False by (simp add: crlf_def)
  qed
  with Some p show ?thesis by (simp add: http_get_header_def)
qed

subsection \<open>A strip with the documented behaviour\<close>

definition strip_ref :: "bytes \<Rightarrow> bytes" where
  "strip_ref s = rev (dropWhile is_space (rev (dropWhile is_space s)))"

lemma strip_ref_ok: "StripAsciiWhitespace_ok strip_ref"
  by (simp add: StripAsciiWhitespace_ok_def strip_ref_def)

end
