(* ===== verification/Web_Socket.thy ===== *)
theory Web_Socket
  imports Http_Helper Io_Connection
begin

text \<open>
  \<^verbatim>\<open>snova/io/ws_socket.cc\<close>: web sockets over another connection, read through a \<open>BufferedIO\<close>: the
  handshake of both sides and the frames.  The reads and writes of the connection below, the clock,
  Base64 and SHA-1 are parameters.  The four mask bytes of a client's frame are never initialised
  by the code and so an arbitrary argument of the model.  A result \<open>None\<close> is a read that never
  returns.
\<close>

subsection \<open>State\<close>

type_synonym 's io_write = "'s \<Rightarrow> bytes \<Rightarrow> int \<times> 's"

record 's WebSocket =
  ws_io :: "'s BufferedIO"
  ws_is_server :: bool

record ws_libs =
  lib_strip :: "bytes \<Rightarrow> bytes"
  lib_base64 :: "bytes \<Rightarrow> bytes"
  lib_sha1 :: "bytes \<Rightarrow> bytes"

text \<open>\<^verbatim>\<open>std::errc\<close> on Linux.\<close>

definition no_buffer_space :: int where "no_buffer_space = 105"
definition bad_message :: int where "bad_message = 74"

definition WebSocket_new :: "'s \<Rightarrow> bytes \<Rightarrow> 's WebSocket" where
  "WebSocket_new conn recv_buf =
     \<lparr>ws_io = \<lparr>recv_buffer = recv_buf, io = conn, buf_offset = 0, buf_length = 0\<rparr>, ws_is_server = False\<rparr>"

text \<open>\<open>BufferedIO::AsyncWrite\<close> forwards to the connection.\<close>

definition ws_send :: "'s io_write \<Rightarrow> 's WebSocket \<Rightarrow> bytes \<Rightarrow> int \<times> 's WebSocket" where
  "ws_send wr ws bs = (case wr (io (ws_io ws)) bs of (ec, s') \<Rightarrow> (ec, ws\<lparr>ws_io := (ws_io ws)\<lparr>io := s'\<rparr>\<rparr>))"

subsection \<open>Handshake\<close>

definition ws_request :: "bytes \<Rightarrow> bytes \<Rightarrow> bytes" where
  "ws_request host ws_sec_key =
     str ''GET /echo HTTP/1.1'' @ crlf @
     str ''Host: '' @ host @ crlf @
     str ''User-Agent: Go-http-client/1.1'' @ crlf @
     str ''Connection: Upgrade'' @ crlf @
     str ''Sec-WebSocket-Key: '' @ ws_sec_key @ crlf @
     str ''Sec-WebSocket-Version: 13'' @ crlf @
     str ''Upgrade: websocket'' @ crlf @ crlf"

definition ws_response :: "bytes \<Rightarrow> bytes" where
  "ws_response resp_text_key =
     str ''HTTP/1.1 101 Switching Protocols'' @ crlf @
     str ''Upgrade: websocket'' @ crlf @
     str ''Connection: Upgrade'' @ crlf @
     str ''Sec-WebSocket-Accept: '' @ resp_text_key @ crlf @ crlf"

definition WebSocket_AsyncConnect ::
  "'s reader \<Rightarrow> 's io_write \<Rightarrow> ws_libs \<Rightarrow> nat \<Rightarrow> bytes \<Rightarrow> 's WebSocket \<Rightarrow> int \<times> 's WebSocket" where
  "WebSocket_AsyncConnect rd wr L now host ws =
     (let ws_sec_key = lib_base64 L (to_string now) in
      case ws_send wr ws (ws_request host ws_sec_key) of (wec, ws1) \<Rightarrow>
        if wec \<noteq> 0 then (wec, ws1)
        else case BufferedIO_AsyncRead rd (ws_io ws1) 8192 of (recv_response, ec, b) \<Rightarrow>
          let ws2 = ws1\<lparr>ws_io := b\<rparr> in
          if ec \<noteq> 0 then (ec, ws2)
          else if fst (http_get_header (lib_strip L) recv_response (str ''Sec-WebSocket-Accept:'')) \<noteq> 0
          then (bad_message, ws2)
          else (0, ws2\<lparr>ws_is_server := False\<rparr>))"

text \<open>
  \<open>page\<close> is the constant \<^verbatim>\<open>kErrorHtml\<close> that answers a request without a key.
\<close>

definition ws_error_page :: "bytes \<Rightarrow> bytes" where
  "ws_error_page page =
     str ''HTTP/1.0 200 OK'' @ crlf @ str ''Content-Type: text/html; charset=utf-8'' @ crlf @
     str ''Content-Length:'' @ to_string (length page) @ crlf @ crlf @ page"

definition WebSocket_AsyncAccept ::
  "'s reader \<Rightarrow> 's io_write \<Rightarrow> ws_libs \<Rightarrow> bytes \<Rightarrow> 's WebSocket \<Rightarrow> int \<times> 's WebSocket" where
  "WebSocket_AsyncAccept rd wr L page ws =
     (case BufferedIO_AsyncRead rd (ws_io ws) 8192 of (recv_request, ec, b) \<Rightarrow>
        let ws1 = ws\<lparr>ws_io := b\<rparr> in
        if ec \<noteq> 0 then (ec, ws1)
        else case http_get_header (lib_strip L) recv_request (str ''Sec-WebSocket-Key:'') of
            (rc, Some sec_ws_key) \<Rightarrow>
              (case ws_send wr ws1 (ws_response (ws_get_accept_secret_key (lib_sha1 L) (lib_base64 L) sec_ws_key)) of
                 (wec, ws2) \<Rightarrow> if wec \<noteq> 0 then (wec, ws2) else (0, ws2\<lparr>ws_is_server := True\<rparr>))
          | (rc, None) \<Rightarrow>
              (case ws_send wr ws1 (ws_error_page page) of (wec, ws2) \<Rightarrow> (bad_message, ws2)))"

subsection \<open>Frames\<close>

definition mask_bytes :: "bytes \<Rightarrow> bytes \<Rightarrow> bytes" where
  "mask_bytes mask_key data = map (\<lambda>i. data ! i XOR mask_key ! (i mod 4)) [0..<length data]"

definition ws_frame_head :: "bool \<Rightarrow> bytes \<Rightarrow> nat \<Rightarrow> bytes" where
  "ws_frame_head is_server mask_key data_len =
     (let (len7, frame_len) =
        (if data_len \<le> 125 then (word_of_nat data_len AND 0x7F, [])
         else if 65535 < data_len then (127, native_to_big 8 (word_of_nat data_len :: u64))
         else (126, native_to_big 2 (word_of_nat data_len :: u16)))
      in if is_server then [0x82, len7] @ frame_len
         else [0x82, 0x80 OR len7] @ frame_len @ mask_key)"

text \<open>The result: the byte count and error code, the caller's buffer (a client masks it in place), the socket.\<close>

definition WebSocket_AsyncWrite ::
  "'s io_write \<Rightarrow> bytes \<Rightarrow> bytes \<Rightarrow> 's WebSocket \<Rightarrow> (nat \<times> int) \<times> bytes \<times> 's WebSocket" where
  "WebSocket_AsyncWrite wr mask_key buf ws =
     (let send_data = (if ws_is_server ws then buf else mask_bytes mask_key buf) in
      case ws_send wr ws (ws_frame_head (ws_is_server ws) mask_key (length buf) @ send_data) of
        (ec, ws1) \<Rightarrow> ((length buf, ec), send_data, ws1))"

definition WebSocket_AsyncWrite_vector :: "bytes list \<Rightarrow> 's WebSocket \<Rightarrow> (nat \<times> int) \<times> 's WebSocket" where
  "WebSocket_AsyncWrite_vector bufs ws = ((0, 0), ws)"

text \<open>\<^verbatim>\<open>ec = co_await read_exact(...); if (ec) co_return IOResult{0, ec};\<close>\<close>

definition ws_read_exact ::
  "'s reader \<Rightarrow> nat \<Rightarrow> 's WebSocket \<Rightarrow> (bytes \<Rightarrow> 's WebSocket \<Rightarrow> (bytes \<times> int \<times> 's WebSocket) option) \<Rightarrow>
     (bytes \<times> int \<times> 's WebSocket) option" where
  "ws_read_exact rd n ws cont =
     (case read_exact (BufferedIO_AsyncRead rd) (ws_io ws) n [] of
        None \<Rightarrow> None
      | Some (bs, ec, b) \<Rightarrow>
          let ws1 = ws\<lparr>ws_io := b\<rparr> in if ec \<noteq> 0 then Some ([], ec, ws1) else cont bs ws1)"

definition ws_read_payload ::
  "'s reader \<Rightarrow> u8 \<Rightarrow> nat \<Rightarrow> u64 \<Rightarrow> 's WebSocket \<Rightarrow> (bytes \<times> int \<times> 's WebSocket) option" where
  "ws_read_payload rd frame_mask k data_msg_len ws =
     (if k < unat data_msg_len then Some ([], no_buffer_space, ws)
      else if frame_mask = 1
      then ws_read_exact rd 4 ws (\<lambda>mask_key ws1.
             ws_read_exact rd (unat data_msg_len) ws1 (\<lambda>bs ws2. Some (mask_bytes mask_key bs, 0, ws2)))
      else ws_read_exact rd (unat data_msg_len) ws (\<lambda>bs ws1. Some (bs, 0, ws1)))"

definition ws_read_frame ::
  "'s reader \<Rightarrow> nat \<Rightarrow> bytes \<Rightarrow> 's WebSocket \<Rightarrow> (bytes \<times> int \<times> 's WebSocket) option" where
  "ws_read_frame rd k header_bytes ws =
     (let byte1 = header_bytes ! 1;
          frame_mask = drop_bit 7 byte1;
          frame_payload_len = byte1 AND 0x7F
      in if frame_payload_len = 126
         then ws_read_exact rd 2 ws (\<lambda>bs ws1.
                ws_read_payload rd frame_mask k (ucast (big_to_native bs :: u16)) ws1)
         else if frame_payload_len = 127
         then ws_read_exact rd 8 ws (\<lambda>bs ws1. ws_read_payload rd frame_mask k (big_to_native bs) ws1)
         else ws_read_payload rd frame_mask k (ucast frame_payload_len) ws)"

definition WebSocket_AsyncRead :: "'s reader \<Rightarrow> nat \<Rightarrow> 's WebSocket \<Rightarrow> (bytes \<times> int \<times> 's WebSocket) option" where
  "WebSocket_AsyncRead rd k ws = ws_read_exact rd 2 ws (ws_read_frame rd k)"

subsection \<open>Masking\<close>

lemma length_mask_bytes [simp]: "length (mask_bytes m d) = length d"
  by (simp add: mask_bytes_def)

lemma mask_bytes_twice [simp]: "mask_bytes m (mask_bytes m d) = d"
  by (rule nth_equalityI) (simp_all add: mask_bytes_def xor.assoc)

subsection \<open>Reading frames\<close>

definition ws_pending :: "('s \<Rightarrow> bytes) \<Rightarrow> 's WebSocket \<Rightarrow> bytes" where
  "ws_pending pend ws = buffered_pending pend (ws_io ws)"

definition ws_ok :: "('s \<Rightarrow> bool) \<Rightarrow> 's WebSocket \<Rightarrow> bool" where
  "ws_ok ok ws \<longleftrightarrow> buffered_inv ok (ws_io ws)"

context live_connection
begin

lemma ws_read_exact_live:
  assumes "ws_ok ok ws" "ws_pending pending ws = bs @ rest"
  shows "\<exists>ws1. ws_read_exact AsyncRead (length bs) ws cont = cont bs ws1 \<and> ws_ok ok ws1 \<and>
    ws_pending pending ws1 = rest \<and> ws_is_server ws1 = ws_is_server ws"
proof -
  have "\<exists>b. read_exact (BufferedIO_AsyncRead AsyncRead) (ws_io ws) (length bs) [] =
      Some ([] @ take (length bs) (buffered_pending pending (ws_io ws)), 0, b) \<and> buffered_inv ok b \<and>
      buffered_pending pending b = drop (length bs) (buffered_pending pending (ws_io ws))"
    by (rule live_connection.read_exact_live [OF buffered_live]) (use assms in \<open>simp_all add: ws_ok_def ws_pending_def\<close>)
  then show ?thesis using assms by (auto simp: ws_read_exact_def Let_def ws_ok_def ws_pending_def)
qed

lemma ws_read_exact_then:
  assumes "ws_ok ok ws" "ws_pending pending ws = bs @ rest" "n = length bs"
    and "\<And>ws1. ws_ok ok ws1 \<Longrightarrow> ws_pending pending ws1 = rest \<Longrightarrow> ws_is_server ws1 = ws_is_server ws \<Longrightarrow>
      \<exists>ws'. cont bs ws1 = Some (out, ec, ws') \<and> ws_ok ok ws' \<and> ws_pending pending ws' = rest' \<and>
        ws_is_server ws' = ws_is_server ws"
  shows "\<exists>ws'. ws_read_exact AsyncRead n ws cont = Some (out, ec, ws') \<and> ws_ok ok ws' \<and>
    ws_pending pending ws' = rest' \<and> ws_is_server ws' = ws_is_server ws"
  using ws_read_exact_live [OF assms(1,2), of cont] assms(3,4) by auto

lemma ws_payload_masked:
  assumes "ws_ok ok ws" "ws_pending pending ws = mask_key @ mask_bytes mask_key data @ rest" "length mask_key = 4"
    "unat n = length data" "length data \<le> k"
  shows "\<exists>ws'. ws_read_payload AsyncRead 1 k n ws = Some (data, 0, ws') \<and> ws_ok ok ws' \<and>
    ws_pending pending ws' = rest \<and> ws_is_server ws' = ws_is_server ws"
proof -
  let ?last = "\<lambda>bs ws2. Some (mask_bytes mask_key bs, 0, ws2)"
  have "\<exists>ws'. ws_read_exact AsyncRead 4 ws (\<lambda>m ws1. ws_read_exact AsyncRead (unat n) ws1
      (\<lambda>bs ws2. Some (mask_bytes m bs, 0, ws2))) = Some (data, 0, ws') \<and> ws_ok ok ws' \<and>
      ws_pending pending ws' = rest \<and> ws_is_server ws' = ws_is_server ws"
  proof (rule ws_read_exact_then [OF assms(1,2) assms(3) [symmetric]])
    fix ws1
    assume 1: "ws_ok ok ws1" "ws_pending pending ws1 = mask_bytes mask_key data @ rest" "ws_is_server ws1 = ws_is_server ws"
    show "\<exists>ws'. ws_read_exact AsyncRead (unat n) ws1 ?last = Some (data, 0, ws') \<and> ws_ok ok ws' \<and>
      ws_pending pending ws' = rest \<and> ws_is_server ws' = ws_is_server ws"
      unfolding 1(3) [symmetric] by (rule ws_read_exact_then [OF 1(1,2)]) (simp_all add: assms(4))
  qed
  with assms(4,5) show ?thesis by (simp add: ws_read_payload_def)
qed

lemma ws_payload_plain:
  assumes "ws_ok ok ws" "ws_pending pending ws = data @ rest" "unat n = length data" "length data \<le> k"
  shows "\<exists>ws'. ws_read_payload AsyncRead 0 k n ws = Some (data, 0, ws') \<and> ws_ok ok ws' \<and>
    ws_pending pending ws' = rest \<and> ws_is_server ws' = ws_is_server ws"
  using ws_read_exact_then [OF assms(1,2,3), of "\<lambda>bs ws1. Some (bs, 0, ws1)" data 0 rest] assms(3,4)
  by (simp add: ws_read_payload_def)

end

subsection \<open>The length field\<close>

definition len7_of :: "nat \<Rightarrow> u8" where
  "len7_of n = (if n \<le> 125 then word_of_nat n else if 65535 < n then 127 else 126)"

definition ext_len :: "nat \<Rightarrow> bytes" where
  "ext_len n = (if n \<le> 125 then [] else if 65535 < n then native_to_big 8 (word_of_nat n :: u64)
     else native_to_big 2 (word_of_nat n :: u16))"

lemma len7_of_less: "len7_of n < 128"
proof -
  have "(word_of_nat n :: u8) < 128" if "n \<le> 125"
    using that by (simp add: word_less_nat_alt unat_of_nat)
  then show ?thesis by (simp add: len7_of_def)
qed

lemma low7:
  fixes w :: u8
  assumes "w < 128"
  shows "w AND 0x7F = w" "drop_bit 7 w = 0" "(0x80 OR w) AND 0x7F = w" "drop_bit 7 (0x80 OR w) = 1"
proof -
  have "unat (take_bit 7 w) = unat w"
    using assms by (simp add: unsigned_take_bit_eq take_bit_nat_eq_self word_less_nat_alt)
  then have tb: "take_bit 7 w = w" by (simp only: word_unat_eq_iff)
  have m: "(0x7F :: u8) = mask 7" by (simp add: mask_eq_exp_minus_1)
  show a: "w AND 0x7F = w" by (simp only: m take_bit_eq_mask [symmetric] tb)
  have "drop_bit 7 (take_bit 7 w) = 0" by (simp add: drop_bit_take_bit)
  then show d: "drop_bit 7 w = 0" by (simp only: tb)
  have z: "(0x80 :: u8) AND 0x7F = 0" by simp
  show "(0x80 OR w) AND 0x7F = w" unfolding bit.conj_disj_distrib2 a z by simp
  have e: "drop_bit 7 (0x80 :: u8) = 1" by simp
  show "drop_bit 7 (0x80 OR w) = 1" unfolding drop_bit_or d e by simp
qed

lemma frame_head_split:
  "ws_frame_head is_server mask_key n =
     [0x82, if is_server then len7_of n else 0x80 OR len7_of n] @ ext_len n @ (if is_server then [] else mask_key)"
proof -
  have "(word_of_nat n :: u8) AND 0x7F = word_of_nat n" if "n \<le> 125"
    using low7(1) [OF len7_of_less [of n]] that by (simp add: len7_of_def)
  then show ?thesis by (simp add: ws_frame_head_def len7_of_def ext_len_def)
qed

context live_connection
begin

lemma ws_head_read:
  assumes ok: "ws_ok ok ws" and p: "ws_pending pending ws = [b0, b1] @ ext_len n @ tail"
    and b1: "b1 AND 0x7F = len7_of n" and n: "n < 2 ^ 64"
  shows "\<exists>ws2 N. WebSocket_AsyncRead AsyncRead k ws = ws_read_payload AsyncRead (drop_bit 7 b1) k N ws2 \<and>
    unat N = n \<and> ws_ok ok ws2 \<and> ws_pending pending ws2 = tail \<and> ws_is_server ws2 = ws_is_server ws"
proof -
  from ws_read_exact_live [OF ok p, of "ws_read_frame AsyncRead k"] obtain ws1 where
    1: "WebSocket_AsyncRead AsyncRead k ws = ws_read_frame AsyncRead k [b0, b1] ws1" "ws_ok ok ws1"
      "ws_pending pending ws1 = ext_len n @ tail" "ws_is_server ws1 = ws_is_server ws"
    by (auto simp: WebSocket_AsyncRead_def numeral_2_eq_2)
  consider "n \<le> 125" | "125 < n" "n \<le> 65535" | "65535 < n" by linarith
  then show ?thesis
  proof cases
    case n: 1
    have "len7_of n \<noteq> 126" "len7_of n \<noteq> 127"
      using n by (auto simp: len7_of_def word_unat_eq_iff unat_of_nat)
    moreover have "unat (ucast (len7_of n) :: u64) = n" using n by (simp add: len7_of_def unat_ucast_up unat_of_nat)
    moreover have "ext_len n = []" using n by (simp add: ext_len_def)
    ultimately show ?thesis using 1 b1
      by (intro exI [of _ ws1] exI [of _ "ucast (len7_of n)"]) (simp add: ws_read_frame_def)
  next
    case 2
    then have len: "len7_of n = 126" "ext_len n = native_to_big 2 (word_of_nat n :: u16)"
      by (simp_all add: len7_of_def ext_len_def)
    have "unat (ucast (word_of_nat n :: u16) :: u64) = n" using 2 by (simp add: unat_ucast_up unat_of_nat)
    then show ?thesis
      using ws_read_exact_live [OF 1(2), of "ext_len n" tail "\<lambda>bs ws2.
          ws_read_payload AsyncRead (drop_bit 7 b1) k (ucast (big_to_native bs :: u16)) ws2"] 1 b1 len
      by (simp add: ws_read_frame_def Let_def) metis
  next
    case 3
    then have len: "len7_of n = 127" "ext_len n = native_to_big 8 (word_of_nat n :: u64)"
      by (simp_all add: len7_of_def ext_len_def)
    have "unat (word_of_nat n :: u64) = n" using n by (simp add: unat_of_nat)
    then show ?thesis
      using ws_read_exact_live [OF 1(2), of "ext_len n" tail "\<lambda>bs ws2.
          ws_read_payload AsyncRead (drop_bit 7 b1) k (big_to_native bs) ws2"] 1 b1 len
      by (simp add: ws_read_frame_def Let_def) metis
  qed
qed

lemma ws_frame_read:
  assumes ok: "ws_ok ok ws" and m: "length mask_key = 4" and n: "length data < 2 ^ 64"
    and p: "ws_pending pending ws = ws_frame_head srv mask_key (length data) @
      (if srv then data else mask_bytes mask_key data) @ rest"
  shows "\<exists>ws'. ws_ok ok ws' \<and> ws_is_server ws' = ws_is_server ws \<and>
    (if length data \<le> k
     then WebSocket_AsyncRead AsyncRead k ws = Some (data, 0, ws') \<and> ws_pending pending ws' = rest
     else WebSocket_AsyncRead AsyncRead k ws = Some ([], no_buffer_space, ws') \<and>
       ws_pending pending ws' = (if srv then data else mask_key @ mask_bytes mask_key data) @ rest)"
proof -
  let ?l = "len7_of (length data)"
  let ?tail = "(if srv then data else mask_key @ mask_bytes mask_key data) @ rest"
  let ?b1 = "if srv then ?l else 0x80 OR ?l"
  note low = low7 [OF len7_of_less [of "length data"]]
  have b1: "?b1 AND 0x7F = ?l" using low by simp
  have fm: "drop_bit 7 ?b1 = (if srv then 0 else 1)" using low by simp
  have "ws_pending pending ws = [0x82, ?b1] @ ext_len (length data) @ ?tail"
    using p by (simp add: frame_head_split)
  from ws_head_read [OF ok this b1 n, of k, unfolded fm] obtain ws2 N where
    r: "WebSocket_AsyncRead AsyncRead k ws = ws_read_payload AsyncRead (if srv then 0 else 1) k N ws2"
      "unat N = length data" "ws_ok ok ws2" "ws_pending pending ws2 = ?tail" "ws_is_server ws2 = ws_is_server ws"
    by blast
  show ?thesis
  proof (cases "length data \<le> k")
    case True
    show ?thesis
    proof (cases srv)
      case s: True
      then show ?thesis using ws_payload_plain [OF r(3) _ r(2) True, of rest] r True by auto
    next
      case s: False
      then show ?thesis using ws_payload_masked [OF r(3) _ m r(2) True, of rest] r True by auto
    qed
  next
    case False
    then show ?thesis using r by (auto simp: ws_read_payload_def)
  qed
qed

end

subsection \<open>The handshake\<close>

definition Base64_ok :: "(bytes \<Rightarrow> bytes) \<Rightarrow> bool" where
  "Base64_ok base64 \<longleftrightarrow> (\<forall>s. s \<noteq> [] \<longrightarrow> base64 s \<noteq> [] \<and> (\<forall>b\<in>set (base64 s). \<not> is_space b))"

definition header_value :: "bytes \<Rightarrow> bool" where
  "header_value v \<longleftrightarrow> v \<noteq> [] \<and> \<not> is_space (hd v) \<and> \<not> is_space (last v) \<and> 13 \<notin> set v"

lemma Base64_value: "Base64_ok base64 \<Longrightarrow> s \<noteq> [] \<Longrightarrow> header_value (base64 s)"
proof -
  assume "Base64_ok base64" "s \<noteq> []"
  then have "base64 s \<noteq> []" "\<forall>b\<in>set (base64 s). \<not> is_space b" by (auto simp: Base64_ok_def)
  moreover have "is_space 13" by (simp add: is_space_def)
  ultimately show ?thesis by (auto simp: header_value_def)
qed

lemma to_string_nonempty: "to_string n \<noteq> []"
  by (subst to_string.simps) simp

definition request_lines :: "bytes \<Rightarrow> bytes list" where
  "request_lines host = [str ''GET /echo HTTP/1.1'', str ''Host:'' @ 32 # host,
     str ''User-Agent: Go-http-client/1.1'', str ''Connection: Upgrade'']"

definition ws_request_tail :: bytes where
  "ws_request_tail = str ''Sec-WebSocket-Version: 13'' @ crlf @ str ''Upgrade: websocket'' @ crlf @ crlf"

lemma ws_request_lines:
  "ws_request host key = header_lines (request_lines host) @ str ''Sec-WebSocket-Key:'' @ 32 # key @ crlf @ ws_request_tail"
  by (simp add: ws_request_def request_lines_def ws_request_tail_def str_def)

lemma request_lines_plain:
  assumes "13 \<notin> set host" "find_sub (str ''Sec-WebSocket-Key:'') host = None"
  shows "\<forall>l\<in>set (request_lines host). plain_line (str ''Sec-WebSocket-Key:'') l"
proof -
  let ?h = "str ''Sec-WebSocket-Key:''"
  have "32 \<notin> set ?h" "?h \<noteq> []" by (simp_all add: str_def)
  moreover have "find_sub ?h (str ''Host:'') = None" by (simp add: str_def)
  ultimately have "find_sub ?h (str ''Host:'' @ 32 # host) = None"
    using assms(2) by (subst find_sub_sep) simp_all
  moreover have "13 \<notin> set (str ''Host:'' @ 32 # host)" using assms(1) by (simp add: str_def)
  ultimately have "plain_line ?h (str ''Host:'' @ 32 # host)" by (simp only: plain_line_def simp_thms)
  moreover have "plain_line ?h (str ''GET /echo HTTP/1.1'')" "plain_line ?h (str ''User-Agent: Go-http-client/1.1'')"
    "plain_line ?h (str ''Connection: Upgrade'')"
    by (simp_all add: plain_line_def str_def)
  ultimately show ?thesis by (simp add: request_lines_def)
qed

lemma ws_request_key:
  assumes "StripAsciiWhitespace_ok strip" "13 \<notin> set host" "find_sub (str ''Sec-WebSocket-Key:'') host = None" "header_value key"
  shows "http_get_header strip (ws_request host key) (str ''Sec-WebSocket-Key:'') = (0, Some key)"
proof -
  have "13 \<notin> set (str ''Sec-WebSocket-Key:'')" "hd (str ''Sec-WebSocket-Key:'') \<noteq> 10" "str ''Sec-WebSocket-Key:'' \<noteq> []"
    by (simp_all add: str_def)
  from http_get_header_line(1) [OF assms(1) request_lines_plain [OF assms(2,3)] this] assms(4) show ?thesis
    unfolding ws_request_lines header_value_def by blast
qed

lemma ws_response_key:
  assumes "StripAsciiWhitespace_ok strip" "header_value v"
  shows "http_get_header strip (ws_response v) (str ''Sec-WebSocket-Accept:'') = (0, Some v)"
proof -
  let ?h = "str ''Sec-WebSocket-Accept:''"
  let ?ls = "[str ''HTTP/1.1 101 Switching Protocols'', str ''Upgrade: websocket'', str ''Connection: Upgrade'']"
  have h: "13 \<notin> set ?h" "hd ?h \<noteq> 10" "?h \<noteq> []" by (simp_all add: str_def)
  have ls: "\<forall>l\<in>set ?ls. plain_line ?h l" by (simp add: plain_line_def str_def)
  have "ws_response v = header_lines ?ls @ ?h @ 32 # v @ crlf @ crlf" by (simp add: ws_response_def str_def)
  with http_get_header_line(1) [OF assms(1) ls h, of v crlf] assms(2) show ?thesis
    by (simp only: header_value_def) blast
qed

lemma fresh_read:
  assumes "rd s 8192 = (bs, 0, s')" "length bs \<le> 8192" "8192 \<le> length buf"
  shows "\<exists>b. BufferedIO_AsyncRead rd (ws_io (WebSocket_new s buf)) 8192 = (bs, 0, b) \<and> io b = s'"
  using assms
  by (auto simp: BufferedIO_AsyncRead_def BufferedIO_refill_def WebSocket_new_def Let_def slice_of_def blit_def)

subsection \<open>Properties\<close>

definition wire_send :: "bytes io_write" where
  "wire_send s bs = (0, s @ bs)"

text \<open>C22: messages survive the web socket framing.  Whatever \<open>AsyncWrite\<close> of either side puts on the
  wire for a message of fewer than \<open>2 ^ 64\<close> bytes, with any mask, is read back by the peer's
  \<open>AsyncRead\<close> as this message, however the network cuts the bytes, and what follows stays unread.
  If the reader's buffer is smaller than the message, the read reports \<open>no_buffer_space\<close> and the
  payload stays in the stream, where the next read takes it for a frame head.\<close>

theorem web_socket_roundtrip:
  assumes "live_connection rd pend ok" "length mask_key = 4" "length data < 2 ^ 64"
    and "WebSocket_AsyncWrite wire_send mask_key data w = (res, buf', w')"
  shows "res = (length data, 0) \<and> (\<exists>frame. io (ws_io w') = io (ws_io w) @ frame \<and>
    (\<forall>ws rest k. ws_ok ok ws \<longrightarrow> ws_pending pend ws = frame @ rest \<longrightarrow>
      (\<exists>ws'. ws_ok ok ws' \<and>
        (if length data \<le> k
         then WebSocket_AsyncRead rd k ws = Some (data, 0, ws') \<and> ws_pending pend ws' = rest
         else WebSocket_AsyncRead rd k ws = Some ([], no_buffer_space, ws') \<and>
           ws_pending pend ws' = (if ws_is_server w then data else mask_key @ mask_bytes mask_key data) @ rest))))"
proof -
  let ?frame = "ws_frame_head (ws_is_server w) mask_key (length data) @
    (if ws_is_server w then data else mask_bytes mask_key data)"
  have "res = (length data, 0)" "io (ws_io w') = io (ws_io w) @ ?frame"
    using assms(4) by (auto simp: WebSocket_AsyncWrite_def ws_send_def wire_send_def Let_def)
  moreover have "\<exists>ws'. ws_ok ok ws' \<and>
        (if length data \<le> k
         then WebSocket_AsyncRead rd k ws = Some (data, 0, ws') \<and> ws_pending pend ws' = rest
         else WebSocket_AsyncRead rd k ws = Some ([], no_buffer_space, ws') \<and>
           ws_pending pend ws' = (if ws_is_server w then data else mask_key @ mask_bytes mask_key data) @ rest)"
    if "ws_ok ok ws" "ws_pending pend ws = ?frame @ rest" for ws rest k
    using live_connection.ws_frame_read [OF assms(1) that(1) assms(2,3), of "ws_is_server w" rest k] that(2)
    by (auto split: if_splits)
  ultimately show ?thesis by blast
qed

definition sample_reader :: "bytes list \<Rightarrow> bytes list WebSocket" where
  "sample_reader segs = WebSocket_new segs (replicate 8448 0)"

theorem web_socket_roundtrip_witness:
  "\<exists>frame ws' ws''. io (ws_io (snd (snd (WebSocket_AsyncWrite wire_send [1, 2, 3, 4] [7, 8, 9, 10, 11] (WebSocket_new [] []))))) = frame \<and>
    WebSocket_AsyncRead script_read 8192 (sample_reader (map (\<lambda>b. [b]) frame)) = Some ([7, 8, 9, 10, 11], 0, ws') \<and>
    WebSocket_AsyncRead script_read 3 (sample_reader (map (\<lambda>b. [b]) frame)) = Some ([], no_buffer_space, ws'')"
proof -
  obtain res buf' w' where w: "WebSocket_AsyncWrite wire_send [1, 2, 3, 4] [7, 8, 9, 10, 11] (WebSocket_new [] []) = (res, buf', w')"
    by (metis prod_cases3)
  from web_socket_roundtrip [OF scripted.live_connection_axioms _ _ w] obtain frame where
    f: "io (ws_io w') = frame" and r: "\<And>ws k. ws_ok (\<lambda>_. True) ws \<Longrightarrow> ws_pending concat ws = frame \<Longrightarrow>
      \<exists>ws'. if length ([7, 8, 9, 10, 11] :: bytes) \<le> k then WebSocket_AsyncRead script_read k ws = Some ([7, 8, 9, 10, 11], 0, ws')
        else WebSocket_AsyncRead script_read k ws = Some ([], no_buffer_space, ws')"
    by (auto simp: WebSocket_new_def) (metis append_Nil2)
  have s: "ws_ok (\<lambda>_. True) (sample_reader (map (\<lambda>b. [b]) frame))" "ws_pending concat (sample_reader (map (\<lambda>b. [b]) frame)) = frame"
    by (simp_all add: sample_reader_def WebSocket_new_def ws_ok_def ws_pending_def buffered_inv_def buffered_pending_def slice_of_def)
  from r [OF s, of 8192] r [OF s, of 3] f w show ?thesis by auto
qed

text \<open>C38: the handshake.  A server that receives a client's request in one piece answers with the
  accept key of RFC 6455 for the client's key and becomes the server side; a request cut before the
  end of the key's line is refused as a bad message, because only one read is made.  A client that
  receives a response of this form completes with whatever text the response has as its accept key:
  the key it computes is not compared.\<close>

theorem web_socket_handshake:
  assumes libs: "StripAsciiWhitespace_ok (lib_strip L)" "Base64_ok (lib_base64 L)"
    and host: "13 \<notin> set host" "find_sub (str ''Sec-WebSocket-Key:'') host = None"
    and key_def: "key = lib_base64 L (to_string now)" and buf: "8192 \<le> length buf" and len: "length (ws_request host key) \<le> 8192"
    and v: "header_value v" "length (ws_response v) \<le> 8192"
    and j: "j < length (header_lines (request_lines host)) + length key + 21"
  shows
    "(\<forall>rd wr s s1 s2. rd s 8192 = (ws_request host key, 0, s1) \<longrightarrow>
        wr s1 (ws_response (lib_base64 L (lib_sha1 L (key @ str ''258EAFA5-E914-47DA-95CA-C5AB0DC85B11'')))) = (0, s2) \<longrightarrow>
        (\<exists>ws'. WebSocket_AsyncAccept rd wr L page (WebSocket_new s buf) = (0, ws') \<and> ws_is_server ws' \<and> io (ws_io ws') = s2)) \<and>
     (\<forall>rd wr s s1. rd s 8192 = (take j (ws_request host key), 0, s1) \<longrightarrow>
        (\<exists>ws'. WebSocket_AsyncAccept rd wr L page (WebSocket_new s buf) = (bad_message, ws') \<and> \<not> ws_is_server ws')) \<and>
     (\<forall>rd wr s s1 s2. wr s (ws_request host key) = (0, s1) \<longrightarrow>
        rd s1 8192 = (ws_response v, 0, s2) \<longrightarrow>
        (\<exists>ws'. WebSocket_AsyncConnect rd wr L now host (WebSocket_new s buf) = (0, ws') \<and> \<not> ws_is_server ws' \<and> io (ws_io ws') = s2))"
proof (intro conjI allI impI)
  have key: "header_value key" unfolding key_def by (rule Base64_value [OF libs(2) to_string_nonempty])
  fix rd :: "'a reader" and wr :: "'a io_write" and s s1 s2
  assume rd: "rd s 8192 = (ws_request host key, 0, s1)"
    and wr: "wr s1 (ws_response (lib_base64 L (lib_sha1 L (key @ str ''258EAFA5-E914-47DA-95CA-C5AB0DC85B11'')))) = (0, s2)"
  from fresh_read [of rd s "ws_request host key" s1 buf, OF rd len buf] wr ws_request_key [OF libs(1) host key]
  show "\<exists>ws'. WebSocket_AsyncAccept rd wr L page (WebSocket_new s buf) = (0, ws') \<and> ws_is_server ws' \<and> io (ws_io ws') = s2"
    by (auto simp: WebSocket_AsyncAccept_def ws_send_def ws_get_accept_secret_key_def Let_def)
next
  have key: "header_value key" unfolding key_def by (rule Base64_value [OF libs(2) to_string_nonempty])
  fix rd :: "'b reader" and wr :: "'b io_write" and s s1
  assume rd: "rd s 8192 = (take j (ws_request host key), 0, s1)"
  let ?h = "str ''Sec-WebSocket-Key:''"
  have h: "13 \<notin> set ?h" "hd ?h \<noteq> 10" "?h \<noteq> []" by (simp_all add: str_def)
  have pos: "find_sub ?h (ws_request host key) = Some (length (header_lines (request_lines host)))"
    unfolding ws_request_lines find_skip_lines [OF request_lines_plain [OF host] h] by (simp add: find_sub_here)
  have "find_sub crlf ((?h @ 32 # key) @ crlf @ ws_request_tail) = Some (length (?h @ 32 # key))"
    by (rule find_crlf) (use key h in \<open>simp add: header_value_def\<close>)
  then have k: "find_sub crlf (drop (length (header_lines (request_lines host))) (ws_request host key)) = Some (19 + length key)"
    unfolding ws_request_lines by (simp add: str_def)
  have "http_get_header (lib_strip L) (take j (ws_request host key)) ?h = (- 1, None)"
    by (rule http_get_header_cut [OF pos k]) (use j in simp)
  moreover have "length (take j (ws_request host key)) \<le> 8192" using len by simp
  moreover note fresh_read [of rd s "take j (ws_request host key)" s1 buf, OF rd _ buf]
  ultimately show "\<exists>ws'. WebSocket_AsyncAccept rd wr L page (WebSocket_new s buf) = (bad_message, ws') \<and> \<not> ws_is_server ws'"
    by (auto simp: WebSocket_AsyncAccept_def ws_send_def WebSocket_new_def Let_def split: prod.splits)
next
  fix rd :: "'c reader" and wr :: "'c io_write" and s s1 s2
  assume wr: "wr s (ws_request host key) = (0, s1)" and rd: "rd s1 8192 = (ws_response v, 0, s2)"
  have w: "ws_send wr (WebSocket_new s buf) (ws_request host key) = (0, WebSocket_new s1 buf)"
    using wr by (simp add: ws_send_def WebSocket_new_def)
  from fresh_read [of rd s1 "ws_response v" s2 buf, OF rd v(2) buf] w ws_response_key [OF libs(1) v(1)]
  show "\<exists>ws'. WebSocket_AsyncConnect rd wr L now host (WebSocket_new s buf) = (0, ws') \<and> \<not> ws_is_server ws' \<and> io (ws_io ws') = s2"
    by (auto simp: WebSocket_AsyncConnect_def Let_def key_def)
qed

definition ref_libs :: ws_libs where
  "ref_libs = \<lparr>lib_strip = strip_ref, lib_base64 = map (\<lambda>b. if is_space b then 65 else b), lib_sha1 = (\<lambda>s. replicate 20 1)\<rparr>"

lemma ref_libs_ok: "StripAsciiWhitespace_ok (lib_strip ref_libs)" "Base64_ok (lib_base64 ref_libs)"
proof -
  have "\<not> is_space 65" by (simp add: is_space_def)
  then show "Base64_ok (lib_base64 ref_libs)" by (auto simp: Base64_ok_def ref_libs_def)
  show "StripAsciiWhitespace_ok (lib_strip ref_libs)" by (simp add: ref_libs_def strip_ref_ok)
qed

theorem web_socket_handshake_witness:
  "(\<exists>ws'. WebSocket_AsyncAccept (\<lambda>s k. (s, 0, [])) (\<lambda>s bs. (0, bs)) ref_libs []
      (WebSocket_new (ws_request (str ''h'') [53]) (replicate 8448 0)) = (0, ws') \<and> ws_is_server ws') \<and>
   (\<exists>ws'. WebSocket_AsyncAccept (\<lambda>s k. (s, 0, [])) (\<lambda>s bs. (0, bs)) ref_libs []
      (WebSocket_new (take 40 (ws_request (str ''h'') [53])) (replicate 8448 0)) = (bad_message, ws')) \<and>
   (\<exists>ws'. WebSocket_AsyncConnect (\<lambda>s k. (s, 0, [])) (\<lambda>s bs. (0, ws_response [120])) ref_libs 5 (str ''h'')
      (WebSocket_new [] (replicate 8448 0)) = (0, ws') \<and> \<not> ws_is_server ws')"
proof -
  have key: "[53] = lib_base64 ref_libs (to_string 5)"
    by (simp add: ref_libs_def to_string.simps is_space_def)
  have host: "13 \<notin> set (str ''h'')" "find_sub (str ''Sec-WebSocket-Key:'') (str ''h'') = None" by (simp_all add: str_def)
  have len: "length (ws_request (str ''h'') [53]) \<le> 8192" "length (ws_response [120]) \<le> 8192" "(8192 :: nat) \<le> length (replicate 8448 (0 :: u8))"
    by (simp_all add: ws_request_def ws_response_def str_def crlf_def)
  have v: "header_value [120]" by (simp add: header_value_def is_space_def)
  have j: "40 < length (header_lines (request_lines (str ''h''))) + length [53 :: u8] + 21"
    by (simp add: request_lines_def str_def crlf_def)
  show ?thesis
    using web_socket_handshake [where ?'a = bytes and ?'b = bytes and ?'c = bytes and page = "[]",
        OF ref_libs_ok host key len(3,1) v len(2) j] by fastforce
qed

end
