(* ===== verification/Sni.thy ===== *)
theory Sni
  imports Snova_Prelude "HOL-Library.Monad_Syntax"
begin

text \<open>
  \<^verbatim>\<open>snova/util/sni.cc\<close>: the server name in a TLS client hello.  The code reads through raw pointers;
  a read of the model is \<open>None\<close> outside the \<open>data_len\<close> bytes the caller passed, so that a result
  \<open>None\<close> is a read out of bounds.  A pointer into the data is its offset.  Otherwise the result is
  the return code and what was assigned to the host name, if anything.  Positions are below \<open>2 ^ 18\<close> and
  cannot overflow.
\<close>

subsection \<open>The parser\<close>

definition rd8 :: "bytes \<Rightarrow> nat \<Rightarrow> u8 option" where
  "rd8 data i = (if i < length data then Some (data ! i) else None)"

definition rd16 :: "bytes \<Rightarrow> nat \<Rightarrow> nat option" where
  "rd16 data i = do { h \<leftarrow> rd8 data i; l \<leftarrow> rd8 data (i + 1); Some (unat h * 256 + unat l) }"

type_synonym sni_result = "(int \<times> bytes option) option"

function parse_server_name_extension :: "bytes \<Rightarrow> nat \<Rightarrow> nat \<Rightarrow> nat \<Rightarrow> sni_result" where
  "parse_server_name_extension data off data_len pos =
     (if pos + 3 < data_len
      then do {
        len \<leftarrow> rd16 data (off + pos + 1);
        if data_len < pos + 3 + len then Some (- 5, None)
        else do {
          ty \<leftarrow> rd8 data (off + pos);
          if ty = 0 then Some (0, Some (slice_of (off + pos + 3) len data))
          else parse_server_name_extension data off data_len (pos + 3 + len)
        }
      }
      else if pos \<noteq> data_len then Some (- 5, None) else Some (- 2, None))"
  by pat_completeness auto
termination
  by (relation "measure (\<lambda>(data, off, data_len, pos). data_len - pos)") auto

declare parse_server_name_extension.simps [simp del]

function parse_extensions :: "bytes \<Rightarrow> nat \<Rightarrow> nat \<Rightarrow> nat \<Rightarrow> sni_result" where
  "parse_extensions data off data_len pos =
     (if pos + 4 \<le> data_len
      then do {
        len \<leftarrow> rd16 data (off + pos + 2);
        ty \<leftarrow> rd16 data (off + pos);
        if ty = 0
        then if data_len < pos + 4 + len then Some (- 5, None)
             else parse_server_name_extension data (off + pos + 4) len 2
        else parse_extensions data off data_len (pos + 4 + len)
      }
      else if pos \<noteq> data_len then Some (- 5, None) else Some (- 2, None))"
  by pat_completeness auto
termination
  by (relation "measure (\<lambda>(data, off, data_len, pos). data_len - pos)") auto

declare parse_extensions.simps [simp del]

text \<open>
  The hello behind its fixed fields, a stretch per variable-length field; \<open>data_len\<close> is the end of the
  record and \<open>v3\<close> whether the version is 3.0.
\<close>

definition parse_hello_extensions :: "bytes \<Rightarrow> nat \<Rightarrow> bool \<Rightarrow> nat \<Rightarrow> sni_result" where
  "parse_hello_extensions data data_len v3 pos =
     (if pos = data_len \<and> v3 then Some (- 2, None)
      else if data_len < pos + 2 then Some (- 5, None)
      else do {
        len \<leftarrow> rd16 data pos;
        if data_len < pos + 2 + len then Some (- 5, None) else parse_extensions data (pos + 2) len 0
      })"

definition parse_hello_compression :: "bytes \<Rightarrow> nat \<Rightarrow> bool \<Rightarrow> nat \<Rightarrow> sni_result" where
  "parse_hello_compression data data_len v3 pos =
     (if data_len < pos + 1 then Some (- 5, None)
      else do { len \<leftarrow> rd8 data pos; parse_hello_extensions data data_len v3 (pos + 1 + unat len) })"

definition parse_hello_ciphers :: "bytes \<Rightarrow> nat \<Rightarrow> bool \<Rightarrow> nat \<Rightarrow> sni_result" where
  "parse_hello_ciphers data data_len v3 pos =
     (if data_len < pos + 2 then Some (- 5, None)
      else do { len \<leftarrow> rd16 data pos; parse_hello_compression data data_len v3 (pos + 2 + len) })"

definition parse_hello_session :: "bytes \<Rightarrow> nat \<Rightarrow> bool \<Rightarrow> nat \<Rightarrow> sni_result" where
  "parse_hello_session data data_len v3 pos =
     (if data_len < pos + 1 then Some (- 5, None)
      else do { len \<leftarrow> rd8 data pos; parse_hello_ciphers data data_len v3 (pos + 1 + unat len) })"

definition parse_tls_header :: "bytes \<Rightarrow> sni_result" where
  "parse_tls_header data =
     (let data_len = length data in
      if data_len < 5 then Some (- 1, None)
      else do {
        b0 \<leftarrow> rd8 data 0;
        b1 \<leftarrow> rd8 data 1;
        b2 \<leftarrow> rd8 data 2;
        if b0 AND 0x80 \<noteq> 0 \<and> b2 = 1 then Some (- 2, None)
        else if b0 \<noteq> 0x16 then Some (- 5, None)
        else if b1 < 3 then Some (- 2, None)
        else do {
          record_len \<leftarrow> rd16 data 3;
          let len = record_len + 5;
          let data_len = min data_len len;
          if data_len < len then Some (- 1, None)
          else if data_len < 5 + 1 then Some (- 5, None)
          else do {
            ty \<leftarrow> rd8 data 5;
            if ty \<noteq> 1 then Some (- 5, None)
            else parse_hello_session data data_len (b1 = 3 \<and> b2 = 0) (5 + 38)
          }
        }
      })"

definition parse_sni :: "bytes \<Rightarrow> sni_result" where
  "parse_sni data = parse_tls_header data"

subsection \<open>No read out of bounds\<close>

lemma rd8_in [simp]: "i < length data \<Longrightarrow> rd8 data i = Some (data ! i)"
  by (simp add: rd8_def)

lemma rd16_in: "i + 1 < length data \<Longrightarrow> \<exists>n. rd16 data i = Some n"
  by (simp add: rd16_def)

text \<open>A result that is one of the documented codes, with a host name exactly for code 0 and taken from the data.\<close>

definition sni_ok :: "bytes \<Rightarrow> sni_result \<Rightarrow> bool" where
  "sni_ok data r \<longleftrightarrow> (\<exists>rc h. r = Some (rc, h) \<and> rc \<in> {0, - 1, - 2, - 5} \<and> (rc = 0 \<longleftrightarrow> h \<noteq> None) \<and>
     (\<forall>s. h = Some s \<longrightarrow> (\<exists>i. i + length s \<le> length data \<and> s = slice_of i (length s) data)))"

lemma sni_ok_code [simp]: "rc \<in> {- 1, - 2, - 5} \<Longrightarrow> sni_ok data (Some (rc, None))"
  by (auto simp: sni_ok_def)

lemma server_name_in_bounds:
  "off + data_len \<le> length data \<Longrightarrow> sni_ok data (parse_server_name_extension data off data_len pos)"
proof (induction data off data_len pos rule: parse_server_name_extension.induct)
  case (1 data off data_len pos)
  show ?case
  proof (cases "pos + 3 < data_len")
    case True
    obtain len where len: "rd16 data (off + pos + 1) = Some len"
      using rd16_in [of "off + pos + 1" data] True "1.prems" by auto
    have ty: "rd8 data (off + pos) = Some (data ! (off + pos))" using True "1.prems" by simp
    show ?thesis
    proof (cases "data_len < pos + 3 + len")
      case True
      with len \<open>pos + 3 < data_len\<close> show ?thesis by (subst parse_server_name_extension.simps) simp
    next
      case False
      then have fit: "off + pos + 3 + len \<le> length data" using "1.prems" by simp
      show ?thesis
      proof (cases "data ! (off + pos) = 0")
        case t: True
        have "sni_ok data (Some (0, Some (slice_of (off + pos + 3) len data)))"
          using fit by (auto simp: sni_ok_def)
        with t False True len ty show ?thesis by (subst parse_server_name_extension.simps) simp
      next
        case t: False
        have "sni_ok data (parse_server_name_extension data off data_len (pos + 3 + len))"
          by (rule "1.IH" [OF True len False ty t "1.prems"])
        with t False True len ty show ?thesis by (subst parse_server_name_extension.simps) simp
      qed
    qed
  next
    case False
    then show ?thesis by (subst parse_server_name_extension.simps) simp
  qed
qed

lemma extensions_in_bounds:
  "off + data_len \<le> length data \<Longrightarrow> sni_ok data (parse_extensions data off data_len pos)"
proof (induction data off data_len pos rule: parse_extensions.induct)
  case (1 data off data_len pos)
  show ?case
  proof (cases "pos + 4 \<le> data_len")
    case True
    obtain len where len: "rd16 data (off + pos + 2) = Some len"
      using rd16_in [of "off + pos + 2" data] True "1.prems" by auto
    obtain ty where ty: "rd16 data (off + pos) = Some ty"
      using rd16_in [of "off + pos" data] True "1.prems" by auto
    have "sni_ok data (parse_server_name_extension data (off + pos + 4) len 2)" if "\<not> data_len < pos + 4 + len"
      by (rule server_name_in_bounds) (use that "1.prems" in simp)
    with True len ty "1.IH" [OF True len ty _ "1.prems"] show ?thesis
      by (subst parse_extensions.simps) simp
  next
    case False
    then show ?thesis by (subst parse_extensions.simps) simp
  qed
qed


lemma hello_in_bounds:
  assumes "data_len \<le> length data"
  shows "sni_ok data (parse_hello_extensions data data_len v3 pos)" "sni_ok data (parse_hello_compression data data_len v3 pos)"
    "sni_ok data (parse_hello_ciphers data data_len v3 pos)" "sni_ok data (parse_hello_session data data_len v3 pos)"
proof -
  show e: "sni_ok data (parse_hello_extensions data data_len v3 pos)" for pos
  proof (cases "data_len < pos + 2")
    case False
    then obtain len where "rd16 data pos = Some len" using rd16_in [of pos data] assms by auto
    moreover have "sni_ok data (parse_extensions data (pos + 2) len 0)" if "\<not> data_len < pos + 2 + len"
      by (rule extensions_in_bounds) (use that assms in simp)
    ultimately show ?thesis using False by (simp add: parse_hello_extensions_def)
  qed (simp add: parse_hello_extensions_def)
  show c: "sni_ok data (parse_hello_compression data data_len v3 pos)" for pos
    using e assms by (simp add: parse_hello_compression_def)
  show s: "sni_ok data (parse_hello_ciphers data data_len v3 pos)" for pos
  proof (cases "data_len < pos + 2")
    case False
    then obtain len where "rd16 data pos = Some len" using rd16_in [of pos data] assms by auto
    with False c show ?thesis by (simp add: parse_hello_ciphers_def)
  qed (simp add: parse_hello_ciphers_def)
  show "sni_ok data (parse_hello_session data data_len v3 pos)"
    using s assms by (simp add: parse_hello_session_def)
qed

subsection \<open>A client hello\<close>

text \<open>The wire format the parser is for (RFC 5246, RFC 6066).\<close>

definition be16 :: "nat \<Rightarrow> bytes" where
  "be16 n = [word_of_nat (n div 256), word_of_nat (n mod 256)]"

definition extension :: "nat \<times> bytes \<Rightarrow> bytes" where
  "extension e = be16 (fst e) @ be16 (length (snd e)) @ snd e"

definition server_name :: "bytes \<Rightarrow> bytes" where
  "server_name host = be16 (length host + 3) @ [0] @ be16 (length host) @ host"

definition hello_extensions :: "(nat \<times> bytes) list \<Rightarrow> bytes \<Rightarrow> (nat \<times> bytes) list \<Rightarrow> bytes" where
  "hello_extensions before host after =
     concat (map extension before) @ extension (0, server_name host) @ concat (map extension after)"

definition client_hello ::
  "u8 \<Rightarrow> bytes \<Rightarrow> bytes \<Rightarrow> bytes \<Rightarrow> bytes \<Rightarrow> bytes \<Rightarrow> bytes" where
  "client_hello minor fixed session ciphers compression exts =
     (let body = [1] @ fixed @ [word_of_nat (length session)] @ session @ be16 (length ciphers) @ ciphers @
                 [word_of_nat (length compression)] @ compression @ be16 (length exts) @ exts
      in [0x16, 3, minor] @ be16 (length body) @ body)"

lemma rd16_at:
  assumes "drop i data = be16 n @ rest" "n < 65536"
  shows "rd16 data i = Some n"
proof -
  have l: "i + 1 < length data" using arg_cong [OF assms(1), of length] by (simp add: be16_def)
  have "data ! i = word_of_nat (n div 256)" "data ! (i + 1) = word_of_nat (n mod 256)"
    using assms(1) l nth_drop [of i data 0] nth_drop [of i data 1] by (simp_all add: be16_def)
  moreover have "n div 256 * 256 + n mod 256 = n" by (rule div_mult_mod_eq)
  ultimately show ?thesis using l assms(2) by (simp add: rd16_def unat_of_nat)
qed

lemma rd8_at: "drop i data = b # rest \<Longrightarrow> rd8 data i = Some b"
  by (metis drop_all linorder_not_less list.distinct(1) nth_via_drop rd8_in)

lemma drop_past: "drop i data = xs @ ys \<Longrightarrow> drop (i + length xs) data = ys"
  by (metis add.commute append_eq_conv_conj drop_drop)

lemma length_be16 [simp]: "length (be16 n) = 2"
  by (simp add: be16_def)

lemma server_name_found:
  assumes d: "drop off data = server_name host @ rest" and h: "length host < 65536" "host \<noteq> []"
  shows "parse_server_name_extension data off (length (server_name host)) 2 = Some (0, Some host)"
proof -
  have d2: "drop (off + 2) data = [0] @ be16 (length host) @ host @ rest"
    using drop_past [of off data "be16 (length host + 3)"] d by (simp add: server_name_def)
  have d3: "drop (off + 3) data = be16 (length host) @ host @ rest" using drop_past [OF d2] by (simp add: numeral_3_eq_3)
  have d5: "drop (off + 5) data = host @ rest" using drop_past [OF d3] by (simp add: eval_nat_numeral)
  have "rd16 data (off + 3) = Some (length host)" by (rule rd16_at [OF d3 h(1)])
  moreover have "rd8 data (off + 2) = Some 0" by (rule rd8_at) (use d2 in simp)
  moreover have "slice_of (off + 5) (length host) data = host" using d5 by (simp add: slice_of_def)
  ultimately show ?thesis using h(2)
    by (subst parse_server_name_extension.simps) (simp add: server_name_def numeral_3_eq_3 eval_nat_numeral)
qed


lemma extensions_found:
  assumes "\<forall>e\<in>set before. 0 < fst e \<and> fst e < 65536 \<and> length (snd e) < 65536" "length host < 65000" "host \<noteq> []"
  shows "drop (off + pos) data = hello_extensions before host after @ rest \<Longrightarrow>
    pos + length (hello_extensions before host after) = data_len \<Longrightarrow>
    parse_extensions data off data_len pos = Some (0, Some host)"
  using assms(1)
proof (induction before arbitrary: pos)
  case Nil
  let ?n = "server_name host"
  have l: "length ?n < 65536" using assms(2) by (simp add: server_name_def)
  have d: "drop (off + pos) data = be16 0 @ be16 (length ?n) @ ?n @ concat (map extension after) @ rest"
    using Nil.prems(1) by (simp add: hello_extensions_def extension_def)
  have d2: "drop (off + pos + 2) data = be16 (length ?n) @ ?n @ concat (map extension after) @ rest" using drop_past [OF d] by simp
  have d4: "drop (off + pos + 4) data = ?n @ concat (map extension after) @ rest" using drop_past [OF d2] by (simp add: eval_nat_numeral)
  have "parse_server_name_extension data (off + pos + 4) (length ?n) 2 = Some (0, Some host)"
    by (rule server_name_found [OF d4]) (use assms in auto)
  moreover have "pos + 4 + length ?n \<le> data_len" using Nil.prems(2) by (simp add: hello_extensions_def extension_def)
  ultimately show ?case using rd16_at [OF d] rd16_at [OF d2 l] by (subst parse_extensions.simps) simp
next
  case (Cons e before)
  have e: "0 < fst e" "fst e < 65536" "length (snd e) < 65536" using Cons.prems(3) by auto
  let ?rest = "hello_extensions before host after @ rest"
  have d: "drop (off + pos) data = be16 (fst e) @ be16 (length (snd e)) @ snd e @ ?rest"
    using Cons.prems(1) by (simp add: hello_extensions_def extension_def)
  have d2: "drop (off + pos + 2) data = be16 (length (snd e)) @ snd e @ ?rest" using drop_past [OF d] by simp
  have d4: "drop (off + pos + 4) data = snd e @ ?rest" using drop_past [OF d2] by (simp add: eval_nat_numeral)
  have nxt: "drop (off + (pos + 4 + length (snd e))) data = ?rest" using drop_past [OF d4] by (simp add: add.assoc)
  have len: "length (hello_extensions (e # before) host after) = 4 + length (snd e) + length (hello_extensions before host after)"
    by (simp add: hello_extensions_def extension_def)
  have "parse_extensions data off data_len (pos + 4 + length (snd e)) = Some (0, Some host)"
    using Cons.IH [OF nxt] Cons.prems(2,3) len by simp
  moreover have "pos + 4 \<le> data_len" using Cons.prems(2) len by simp
  ultimately show ?case using rd16_at [OF d e(2)] rd16_at [OF d2 e(3)] e(1) by (subst parse_extensions.simps) simp
qed


lemma session_found:
  assumes d: "drop pos data = [word_of_nat (length session)] @ session @ be16 (length ciphers) @ ciphers @
      [word_of_nat (length compression)] @ compression @ be16 (length exts) @ exts @ rest"
    and l: "length session < 256" "length ciphers < 65536" "length compression < 256" "length exts < 65536"
    and e: "exts = hello_extensions before host after"
    and b: "\<forall>e\<in>set before. 0 < fst e \<and> fst e < 65536 \<and> length (snd e) < 65536" and h: "length host < 65000" "host \<noteq> []"
    and len: "data_len = pos + 6 + length session + length ciphers + length compression + length exts"
  shows "parse_hello_session data data_len v3 pos = Some (0, Some host)"
proof -
  define p1 where "p1 = pos + 1 + length session"
  define p2 where "p2 = p1 + 2 + length ciphers"
  define p3 where "p3 = p2 + 1 + length compression"
  have d1: "drop p1 data = be16 (length ciphers) @ ciphers @ [word_of_nat (length compression)] @ compression @ be16 (length exts) @ exts @ rest"
    using drop_past [of pos data "word_of_nat (length session) # session"] d by (simp add: p1_def)
  have d2: "drop p2 data = [word_of_nat (length compression)] @ compression @ be16 (length exts) @ exts @ rest"
    using drop_past [of p1 data "be16 (length ciphers) @ ciphers"] d1 by (simp add: p2_def add.assoc)
  have d3: "drop p3 data = be16 (length exts) @ exts @ rest"
    using drop_past [of p2 data "word_of_nat (length compression) # compression"] d2 by (simp add: p3_def)
  have d5: "drop (p3 + 2 + 0) data = hello_extensions before host after @ rest"
    using drop_past [OF d3] e by simp
  have dl: "data_len = p3 + 2 + length exts" by (simp add: len p1_def p2_def p3_def)
  have "parse_hello_extensions data data_len v3 p3 = Some (0, Some host)"
    using extensions_found [OF b h d5] rd16_at [OF d3 l(4)] e dl by (simp add: parse_hello_extensions_def)
  then have "parse_hello_compression data data_len v3 p2 = Some (0, Some host)"
    using rd8_at [of p2 data "word_of_nat (length compression)"] d2 l(3) dl
    by (simp add: parse_hello_compression_def p3_def unat_of_nat)
  then have "parse_hello_ciphers data data_len v3 p1 = Some (0, Some host)"
    using rd16_at [OF d1 l(2)] dl by (simp add: parse_hello_ciphers_def p2_def p3_def)
  then show ?thesis
    using rd8_at [of pos data "word_of_nat (length session)"] d l(1) len by (simp add: parse_hello_session_def p1_def unat_of_nat)
qed

text \<open>The server name of a client hello is found.  For every client hello with fields of any size
  the format allows, with any other extensions around a server name extension for a nonempty host
  name, the parser returns 0 and this host name, whatever follows the record; and on every strict
  prefix it answers that the request is incomplete.\<close>

lemma client_hello_found:
  assumes "length fixed = 37" "length session < 256" "length ciphers < 65536" "length compression < 256"
    and e: "exts = hello_extensions before host after" "length exts < 65536"
    and b: "\<forall>e\<in>set before. 0 < fst e \<and> fst e < 65536 \<and> length (snd e) < 65536" and h: "length host < 65000" "host \<noteq> []"
    and total: "44 + length session + length ciphers + length compression + length exts < 65536"
    and k: "k < length (client_hello minor fixed session ciphers compression exts)"
  shows "parse_sni (client_hello minor fixed session ciphers compression exts @ rest) = Some (0, Some host) \<and>
    parse_sni (take k (client_hello minor fixed session ciphers compression exts)) = Some (- 1, None)"
proof -
  let ?tail = "[word_of_nat (length session)] @ session @ be16 (length ciphers) @ ciphers @
      [word_of_nat (length compression)] @ compression @ be16 (length exts) @ exts"
  let ?n = "38 + length ?tail"
  have hello: "client_hello minor fixed session ciphers compression exts = [0x16, 3, minor] @ be16 ?n @ [1] @ fixed @ ?tail"
    by (simp add: client_hello_def assms(1) Let_def)
  have n: "?n < 65536" using total by simp
  let ?d = "client_hello minor fixed session ciphers compression exts @ rest"
  have d3: "drop 3 ?d = be16 ?n @ [1] @ fixed @ ?tail @ rest" by (simp add: hello)
  have d43: "drop 43 ?d = ?tail @ rest"
    using drop_past [of 3 ?d "be16 ?n @ [1] @ fixed"] d3 assms(1) by simp
  have bytes: "rd8 ?d 0 = Some 0x16" "rd8 ?d 1 = Some 3" "rd8 ?d 2 = Some minor" "rd8 ?d 5 = Some 1"
    by (simp_all add: rd8_def hello be16_def)
  have l: "length ?d = 5 + ?n + length rest" by (simp add: hello assms(1))
  have "parse_hello_session ?d (5 + ?n) v3 43 = Some (0, Some host)" for v3
    by (rule session_found [of 43 ?d session ciphers compression exts rest before host after]) (use assms d43 in simp_all)
  moreover have "rd16 ?d 3 = Some ?n" by (rule rd16_at [OF d3 n])
  ultimately have found: "parse_sni ?d = Some (0, Some host)"
    using bytes l by (simp add: parse_sni_def parse_tls_header_def Let_def)
  let ?t = "take k (client_hello minor fixed session ciphers compression exts)"
  have "parse_sni ?t = Some (- 1, None)"
  proof (cases "k < 5")
    case True
    then show ?thesis using k by (simp add: parse_sni_def parse_tls_header_def)
  next
    case False
    have lt: "length ?t = k" "k < 5 + ?n" using k by (simp_all add: hello assms(1))
    define X where "X = [1] @ fixed @ ?tail"
    have "drop 3 ?t = take (k - 3) (be16 ?n @ X)" unfolding hello X_def by (simp add: drop_take)
    also have "\<dots> = be16 ?n @ take (k - 5) X" using False by (simp add: diff_diff_left)
    finally have "drop 3 ?t = be16 ?n @ take (k - 5) X" .
    then have "rd16 ?t 3 = Some ?n" by (rule rd16_at [OF _ n])
    moreover have "rd8 ?t 0 = Some 0x16" "rd8 ?t 1 = Some 3" "rd8 ?t 2 = Some minor"
      using False lt(1) by (simp_all add: rd8_def hello)
    ultimately show ?thesis using False lt by (simp add: parse_sni_def parse_tls_header_def Let_def)
  qed
  with found show ?thesis by blast
qed

subsection \<open>Properties\<close>

text \<open>C37: the parser stays within the packet.  On every input, however malformed, no byte outside the
  data is read and the parser returns: one of the codes 0, -1, -2 and -5, with a host name exactly for
  code 0, and then the host name is a stretch of the data.\<close>

theorem sni_memory_safe:
  "\<exists>rc h. parse_sni data = Some (rc, h) \<and>
     (case h of
        None \<Rightarrow> rc \<in> {- 1, - 2, - 5}
      | Some host \<Rightarrow> rc = 0 \<and> (\<exists>i. i + length host \<le> length data \<and> host = take (length host) (drop i data)))"
proof -
  have "sni_ok data (parse_sni data)"
  proof (cases "length data < 5")
    case False
    then obtain n where n: "rd16 data 3 = Some n" using rd16_in [of 3 data] by auto
    have "sni_ok data (parse_hello_session data (n + 5) v3 43)" if "n + 5 \<le> length data" for v3
      by (rule hello_in_bounds) (use that in simp)
    moreover have "rd8 data 0 = Some (data ! 0)" "rd8 data 1 = Some (data ! 1)" "rd8 data 2 = Some (data ! 2)"
      using False by (auto simp: rd8_def)
    moreover have "rd8 data 5 = Some (data ! 5)" if "n + 5 \<le> length data" "0 < n" using that by simp
    ultimately show ?thesis using False n
      by (cases "n + 5 \<le> length data") (auto simp: parse_sni_def parse_tls_header_def Let_def min_def)
  qed (simp add: parse_sni_def parse_tls_header_def)
  then show ?thesis by (auto simp: sni_ok_def slice_of_def split: option.splits)
qed

end
