(* ===== verification/Entry_Server.thy ===== *)
theory Entry_Server
  imports Relay Sni Http_Helper
begin

text \<open>
  \<^verbatim>\<open>snova/server/entry_server.cc\<close>, \<^verbatim>\<open>socks5.cc\<close>, \<^verbatim>\<open>tls.cc\<close> and \<^verbatim>\<open>http.cc\<close>: what an entry node does with
  an accepted connection before it relays.  A handler reads from the socket (asio, the parameter
  \<open>rd\<close>), writes replies whose errors it ignores, and ends by dropping the connection or by relaying.
  A handler that another one moved the socket away from can only relay a closed socket and a freed
  buffer: \<open>RelayMoved\<close>.  Printing of addresses, case-insensitive comparison, splitting and stripping
  of strings are parameters.
\<close>

subsection \<open>Outcomes\<close>

datatype entry_end = Dropped | RelayVia RelayContext bytes | RelayDirect RelayContext bytes | RelayMoved RelayContext

type_synonym 's entry_result = "entry_end \<times> bytes list \<times> 's"

record entry_libs =
  el_strip :: "bytes \<Rightarrow> bytes"
  el_split :: str_split
  el_equals_ic :: "bytes \<Rightarrow> bytes \<Rightarrow> bool"
  el_v4_string :: "bytes \<Rightarrow> bytes"
  el_v6_string :: "bytes \<Rightarrow> bytes"

definition kMethodNoAuth :: u8 where "kMethodNoAuth = 0"
definition kCmdConnect :: u8 where "kCmdConnect = 1"
definition kAddrIPV4 :: u8 where "kAddrIPV4 = 1"
definition kAddrIPV6 :: u8 where "kAddrIPV6 = 4"
definition kAddrDomain :: u8 where "kAddrDomain = 3"

subsection \<open>TLS\<close>

text \<open>\<open>None\<close> stands for the result \<^verbatim>\<open>false\<close>; \<open>orig_port\<close> is the port of the original destination, if known.\<close>

definition handle_tls_connection :: "bytes \<Rightarrow> bytes \<Rightarrow> u16 option \<Rightarrow> entry_end option" where
  "handle_tls_connection flags_user request orig_port =
     (let remote_port = (case orig_port of None \<Rightarrow> 443 | Some p \<Rightarrow> p) in
      case parse_sni request of
        Some (rc, Some remote_host) \<Rightarrow>
          if rc \<noteq> 0 then None
          else if remote_host = str ''courier.push.apple.com'' then None
          else Some (RelayVia (RelayContext_init\<lparr>rc_user := flags_user, rc_remote_host := remote_host,
                 rc_remote_port := remote_port, rc_is_tcp := True, rc_is_tls := True\<rparr>) request)
      | _ \<Rightarrow> None)"

subsection \<open>SOCKS5\<close>

text \<open>The request in the first \<open>n\<close> bytes of the buffer: the host and port, and whether it is an address.\<close>

definition socks5_target :: "entry_libs \<Rightarrow> bytes \<Rightarrow> nat \<Rightarrow> (bytes \<times> u16 \<times> bool) option" where
  "socks5_target E buf n =
     (if buf ! 0 \<noteq> 5 then None
      else if buf ! 1 \<noteq> kCmdConnect then None
      else let target_addr_type = buf ! 3;
               remote_port = (push_bit 8 (ucast (buf ! (n - 2))) + ucast (buf ! (n - 1)) :: u16)
           in if target_addr_type = kAddrIPV4
              then (if n \<noteq> 10 then None else Some (el_v4_string E (slice_of 4 4 buf), remote_port, True))
              else if target_addr_type = kAddrIPV6
              then (if n \<noteq> 22 then None else Some (el_v6_string E (slice_of 4 16 buf), remote_port, True))
              else if target_addr_type = kAddrDomain
              then (let domain_len = unat (buf ! 4) in
                    if n \<noteq> 7 + domain_len then None else Some (slice_of 5 domain_len buf, remote_port, False))
              else None)"

definition socks5_resp :: bytes where
  "socks5_resp = [5, 0, 0, 1, 0, 0, 0, 0, 0, 0]"

text \<open>Behind the second reply: the first bytes of the client decide how it is relayed.\<close>

definition socks5_relay :: "bytes \<Rightarrow> bytes \<Rightarrow> u16 \<Rightarrow> bool \<Rightarrow> bytes \<Rightarrow> entry_end" where
  "socks5_relay flags_user remote_host remote_port is_addr data =
     (let ctx = RelayContext_init\<lparr>rc_user := flags_user, rc_remote_host := remote_host,
                  rc_remote_port := remote_port, rc_is_tcp := True\<rparr> in
      if 3 < length data \<and> data ! 0 = 0x16
      then if data ! 1 < 3 then Dropped
           else (case handle_tls_connection flags_user data (if is_addr then Some remote_port else None) of
                   Some e \<Rightarrow> e
                 | None \<Rightarrow> RelayMoved ctx)
      else RelayVia ctx data)"

definition handle_socks5_connection ::
  "'s reader \<Rightarrow> entry_libs \<Rightarrow> bytes \<Rightarrow> bytes \<Rightarrow> 's \<Rightarrow> 's entry_result" where
  "handle_socks5_connection rd E flags_user buf s =
     (let num_methods = unat (buf ! 1); methods_view = slice_of 2 num_methods buf in
      if kMethodNoAuth \<notin> set methods_view then (Dropped, [], s)
      else let method_res = [5, kMethodNoAuth] in
        case rd s (length buf) of (bs, ec, s1) \<Rightarrow>
          if ec \<noteq> 0 \<or> length bs < 4 then (Dropped, [method_res], s1)
          else case socks5_target E (blit 0 bs buf) (length bs) of
              None \<Rightarrow> (Dropped, [method_res], s1)
            | Some (remote_host, remote_port, is_addr) \<Rightarrow>
                (case rd s1 (length buf) of (data, rec, s2) \<Rightarrow>
                   if rec \<noteq> 0 then (Dropped, [method_res, socks5_resp], s2)
                   else (socks5_relay flags_user remote_host remote_port is_addr data, [method_res, socks5_resp], s2)))"

subsection \<open>HTTP\<close>

definition conn_ok :: bytes where
  "conn_ok = str ''HTTP/1.0 200 Connection established'' @ crlf @ crlf"

text \<open>
  \<^verbatim>\<open>read_until\<close> is called on the socket the handler has moved from, which is closed: its reads fail.
\<close>

definition moved_read :: "'s reader" where
  "moved_read s k = ([], 9, s)"

definition http_target :: "entry_libs \<Rightarrow> bytes \<Rightarrow> (bytes \<times> u16) option" where
  "http_target E host_port_view =
     (let host_ports = el_split E host_port_view (str '':'') in
      if length host_ports = 2
      then map_option (\<lambda>p. (host_ports ! 0, word_of_int p)) (stoi (host_ports ! 1))
      else Some (host_port_view, 0))"

text \<open>From the head without its end, and all bytes read: the reply, if any, and the relay.\<close>

definition http_relay :: "entry_libs \<Rightarrow> bytes \<Rightarrow> bytes \<Rightarrow> entry_end \<times> bytes list" where
  "http_relay E head request =
     (let http_headers_view = el_strip E head in
      case parse_http_hostport (el_strip E) http_headers_view of
        (rc, Some host_port_view) \<Rightarrow>
          (case http_target E host_port_view of
             None \<Rightarrow> (Dropped, [])
           | Some (host_view, remote_port) \<Rightarrow>
               (case find_sub (str '' '') http_headers_view of
                  None \<Rightarrow> (Dropped, [])
                | Some pos \<Rightarrow>
                    let method_view = take pos http_headers_view;
                        ctx = RelayContext_init\<lparr>rc_remote_host := host_view, rc_is_tcp := True\<rparr>
                    in if el_equals_ic E method_view (str ''CONNECT'')
                       then (if remote_port = 0
                             then (RelayVia (ctx\<lparr>rc_is_tls := True, rc_remote_port := 443\<rparr>) [], [conn_ok])
                             else (RelayVia (ctx\<lparr>rc_remote_port := remote_port\<rparr>) [], [conn_ok]))
                       else (RelayVia (ctx\<lparr>rc_remote_port := (if remote_port = 0 then 80 else remote_port)\<rparr>) request, [])))
      | (rc, None) \<Rightarrow> (Dropped, []))"

definition handle_http_connection :: "entry_libs \<Rightarrow> bytes \<Rightarrow> nat \<Rightarrow> 's \<Rightarrow> 's entry_result option" where
  "handle_http_connection E buf readed_len s =
     (case read_until moved_read s buf readed_len (crlf @ crlf) of
        None \<Rightarrow> None
      | Some (end_pos, buf1, readed_len1, s1) \<Rightarrow>
          if end_pos < 0 then Some (Dropped, [], s1)
          else (case http_relay E (take (nat end_pos) buf1) (take readed_len1 buf1) of (e, out) \<Rightarrow> Some (e, out, s1)))"

subsection \<open>The entry\<close>

definition http_methods :: "bytes list" where
  "http_methods = [str ''GET'', str ''CON'', str ''PUT'', str ''POS'', str ''DEL'', str ''OPT'',
     str ''TRA'', str ''PAT'', str ''HEA'', str ''UPG'']"

text \<open>
  \<open>redirect\<close>: the original destination of a redirected connection, host and port, unless the node does
  not redirect, it is unknown or a private address.
\<close>

definition entry_redirect :: "bool \<Rightarrow> (bytes \<times> u16 \<times> bool) option \<Rightarrow> (bytes \<times> u16) option" where
  "entry_redirect is_redirect_node orig_dst =
     (if is_redirect_node
      then case orig_dst of
          None \<Rightarrow> None
        | Some (host, port, is_private) \<Rightarrow> if is_private then None else Some (host, port)
      else None)"

definition entry_other :: "(bytes \<times> u16) option \<Rightarrow> bool \<Rightarrow> bytes \<Rightarrow> entry_end" where
  "entry_other redirect moved readable =
     (case redirect of
        None \<Rightarrow> Dropped
      | Some (host, port) \<Rightarrow>
          let ctx = RelayContext_init\<lparr>rc_remote_host := host, rc_remote_port := port, rc_is_tcp := True\<rparr>
          in if moved then RelayMoved ctx else RelayDirect ctx readable)"

definition entry_handle_conn ::
  "'s reader \<Rightarrow> entry_libs \<Rightarrow> bytes \<Rightarrow> (bytes \<times> u16) option \<Rightarrow> bytes \<Rightarrow> 's \<Rightarrow> 's entry_result option" where
  "entry_handle_conn rd E flags_user redirect buffer s =
     (case rd s 8192 of (bs, ec, s1) \<Rightarrow>
        if ec \<noteq> 0 \<or> length bs < 3 then Some (Dropped, [], s1)
        else let buf = blit 0 bs buffer; readable = take (length bs) buf; cmd3 = take 3 readable in
          if redirect = None \<and> buf ! 0 = 5
          then Some (handle_socks5_connection rd E flags_user buf s1)
          else if redirect = None \<and> buf ! 0 = 4 then Some (Dropped, [], s1)
          else if buf ! 0 = 0x16
          then if buf ! 1 < 3 then Some (Dropped, [], s1)
               else (case handle_tls_connection flags_user readable (map_option snd redirect) of
                       Some e \<Rightarrow> Some (e, [], s1)
                     | None \<Rightarrow> Some (entry_other redirect True readable, [], s1))
          else if list_ex (el_equals_ic E cmd3) http_methods
          then handle_http_connection E buf (length bs) s1
          else Some (entry_other redirect False readable, [], s1))"

text \<open>The buffer options of an accepted socket: a configured size below the current one is set.\<close>

definition entry_buffer_size :: "u32 \<Rightarrow> int \<Rightarrow> int option" where
  "entry_buffer_size configured current =
     (if 0 < configured then if uint configured < current then Some (uint configured) else None else None)"

text \<open>The accept loop: the connections handled until the first error, and the end.\<close>

fun entry_server_loop :: "(error_code + 'c) list \<Rightarrow> 'c list" where
  "entry_server_loop [] = []"
| "entry_server_loop (Inl ec # accepts) = []"
| "entry_server_loop (Inr client # accepts) = client # entry_server_loop accepts"

text \<open>\<open>None\<close> when \<^verbatim>\<open>open\<close> or \<^verbatim>\<open>set_option\<close> throws; else the error code, 0 with the loop started.\<close>

definition start_entry_server :: "'e listen_env \<Rightarrow> error_code option" where
  "start_entry_server env =
     (case env_resolve env of
        Inl resolve_ec \<Rightarrow> Some resolve_ec
      | Inr endpoint \<Rightarrow>
          if env_open_throws env then None
          else if env_bind env \<noteq> 0 then Some (env_bind env)
          else if env_listen env \<noteq> 0 then Some (env_listen env)
          else Some 0)"

subsection \<open>A SOCKS5 client\<close>

text \<open>The messages of RFC 1928 a client sends to connect.\<close>

datatype socks5_addr = V4 bytes | V6 bytes | Domain bytes

fun addr_field :: "socks5_addr \<Rightarrow> bytes" where
  "addr_field (V4 b) = 1 # b"
| "addr_field (V6 b) = 4 # b"
| "addr_field (Domain d) = 3 # word_of_nat (length d) # d"

fun addr_wf :: "socks5_addr \<Rightarrow> bool" where
  "addr_wf (V4 b) = (length b = 4)"
| "addr_wf (V6 b) = (length b = 16)"
| "addr_wf (Domain d) = (length d < 256)"

fun addr_text :: "entry_libs \<Rightarrow> socks5_addr \<Rightarrow> bytes" where
  "addr_text E (V4 b) = el_v4_string E b"
| "addr_text E (V6 b) = el_v6_string E b"
| "addr_text E (Domain d) = d"

fun is_address :: "socks5_addr \<Rightarrow> bool" where
  "is_address (Domain d) = False"
| "is_address a = True"

definition socks5_greeting :: "bytes \<Rightarrow> bytes" where
  "socks5_greeting methods = [5, word_of_nat (length methods)] @ methods"

definition socks5_request :: "socks5_addr \<Rightarrow> u16 \<Rightarrow> bytes" where
  "socks5_request a port = [5, 1, 0] @ addr_field a @ native_to_big 2 port"

lemma port_bytes:
  "native_to_big 2 (port :: u16) = [ucast (drop_bit 8 port), ucast port]"
  "push_bit 8 (ucast (ucast (drop_bit 8 port) :: u8)) + ucast (ucast port :: u8) = (port :: u16)"
proof -
  show "native_to_big 2 (port :: u16) = [ucast (drop_bit 8 port), ucast port]" by (simp add: numeral_2_eq_2)
  have "push_bit 8 (ucast (ucast (drop_bit 8 port) :: u8)) AND ucast (ucast port :: u8) = (0 :: u16)"
    by (rule bit_word_eqI) (auto simp: bit_and_iff bit_push_bit_iff bit_ucast_iff)
  then have "push_bit 8 (ucast (ucast (drop_bit 8 port) :: u8)) + ucast (ucast port :: u8) =
      (push_bit 8 (ucast (ucast (drop_bit 8 port) :: u8)) OR ucast (ucast port :: u8) :: u16)"
    by (rule disjunctive_add_eq_or)
  also have "\<dots> = port"
    by (rule bit_word_eqI) (auto simp: bit_or_iff bit_push_bit_iff bit_ucast_iff bit_drop_bit_eq)
  finally show "push_bit 8 (ucast (ucast (drop_bit 8 port) :: u8)) + ucast (ucast port :: u8) = (port :: u16)" .
qed

lemma request_length:
  "addr_wf a \<Longrightarrow> length (socks5_request a port) = 6 + length (tl (addr_field a)) \<and> length (socks5_request a port) \<le> 262"
  by (cases a) (simp_all add: socks5_request_def)

lemma socks5_target_request:
  assumes "addr_wf a" "buf = socks5_request a port @ rest"
  shows "socks5_target E buf (length (socks5_request a port)) = Some (addr_text E a, port, is_address a)"
proof -
  let ?n = "length (socks5_request a port)"
  define pre where "pre = [5, 1, 0] @ addr_field a"
  have buf: "buf = pre @ [ucast (drop_bit 8 port), ucast port] @ rest"
    using assms(2) by (simp add: socks5_request_def port_bytes pre_def)
  have n: "?n = length pre + 2" by (simp add: socks5_request_def pre_def)
  have "buf ! (?n - 2) = ucast (drop_bit 8 port)" "buf ! (?n - 1) = ucast port"
    unfolding buf n by (simp_all add: nth_append)
  then have p: "push_bit 8 (ucast (buf ! (?n - 2))) + ucast (buf ! (?n - 1)) = port" by (simp only: port_bytes(2))
  have h: "buf ! 0 = 5" "buf ! 1 = 1" "buf ! 3 = hd (addr_field a)"
    unfolding buf pre_def by (cases a; simp)+
  show ?thesis
  proof (cases a)
    case (V4 b)
    then have "slice_of 4 4 buf = b" "?n = 10" using assms(1) by (simp_all add: buf pre_def slice_of_def socks5_request_def)
    with V4 h p show ?thesis by (simp add: socks5_target_def kCmdConnect_def kAddrIPV4_def Let_def)
  next
    case (V6 b)
    then have "slice_of 4 16 buf = b" "?n = 22" using assms(1) by (simp_all add: buf pre_def slice_of_def socks5_request_def)
    with V6 h p show ?thesis by (simp add: socks5_target_def kCmdConnect_def kAddrIPV4_def kAddrIPV6_def Let_def)
  next
    case (Domain d)
    then have "buf ! 4 = word_of_nat (length d)" "slice_of 5 (length d) buf = d" "?n = 7 + length d"
      by (simp_all add: buf pre_def slice_of_def socks5_request_def)
    moreover have "unat (word_of_nat (length d) :: u8) = length d" using Domain assms(1) by (simp add: unat_of_nat)
    ultimately show ?thesis using Domain h p
      by (simp add: socks5_target_def kCmdConnect_def kAddrIPV4_def kAddrIPV6_def kAddrDomain_def Let_def)
  qed
qed

text \<open>The handshake, whatever the client sends behind it.\<close>

lemma socks5_handshake:
  assumes "length methods < 256" "0 \<in> set methods" "buf = socks5_greeting methods @ rest" "262 \<le> length buf" "addr_wf a"
    and "rd s (length buf) = (socks5_request a port, 0, s1)" "rd s1 (length buf) = (data, 0, s2)"
  shows "handle_socks5_connection rd E flags_user buf s =
    (socks5_relay flags_user (addr_text E a) port (is_address a) data, [[5, 0], socks5_resp], s2)"
proof -
  have m: "unat (buf ! 1) = length methods" "slice_of 2 (length methods) buf = methods"
    using assms(1,3) by (simp_all add: socks5_greeting_def slice_of_def unat_of_nat)
  have l: "4 \<le> length (socks5_request a port)" using request_length [OF assms(5), of port] by simp
  have "blit 0 (socks5_request a port) buf = socks5_request a port @ drop (length (socks5_request a port)) buf"
    by (simp add: blit_0)
  from socks5_target_request [OF assms(5) this, of E] m l assms(2,6,7) show ?thesis
    by (simp add: handle_socks5_connection_def Let_def kMethodNoAuth_def)
qed

subsection \<open>An HTTP client\<close>

definition EqualsIgnoreCase_ok :: "(bytes \<Rightarrow> bytes \<Rightarrow> bool) \<Rightarrow> bool" where
  "EqualsIgnoreCase_ok eq \<longleftrightarrow>
     (let lower = map (\<lambda>b :: u8. if 65 \<le> b \<and> b \<le> 90 then b + 32 else b) in \<forall>a b. eq a b \<longleftrightarrow> lower a = lower b)"

definition entry_libs_ok :: "entry_libs \<Rightarrow> bool" where
  "entry_libs_ok E \<longleftrightarrow> StripAsciiWhitespace_ok (el_strip E) \<and> StrSplit_ok (el_split E) \<and> EqualsIgnoreCase_ok (el_equals_ic E)"

definition line_ok :: "bytes \<Rightarrow> bool" where
  "line_ok l \<longleftrightarrow> l \<noteq> [] \<and> 13 \<notin> set l"

lemma find_head_end:
  assumes "\<forall>l\<in>set ls. line_ok l" "line_ok m"
  shows "find_sub (crlf @ crlf) (header_lines ls @ m @ crlf @ crlf @ body) = Some (length (header_lines ls @ m))"
  using assms(1)
proof (induction ls)
  case Nil
  then show ?case using find_sub_first [of "crlf @ crlf" m body] assms(2) by (simp add: line_ok_def crlf_def)
next
  case (Cons l ls)
  let ?rest = "header_lines ls @ m @ crlf @ crlf @ body"
  obtain c t where c: "?rest = c # t" "c \<noteq> 13"
  proof (cases ls)
    case Nil
    with that assms(2) show ?thesis by (cases m) (auto simp: line_ok_def)
  next
    case (Cons l' ls')
    with that Cons.prems show ?thesis by (cases l') (auto simp: line_ok_def)
  qed
  have "find_sub (crlf @ crlf) (l @ crlf @ ?rest) = map_option ((+) (length l)) (find_sub (crlf @ crlf) (crlf @ ?rest))"
    by (rule find_sub_skip) (use Cons.prems in \<open>simp_all add: crlf_def line_ok_def\<close>)
  also have "find_sub (crlf @ crlf) (crlf @ ?rest) = map_option ((+) 2) (find_sub (crlf @ crlf) ?rest)"
    unfolding c(1) using c(2) by (cases "find_sub (crlf @ crlf) t") (auto simp: crlf_def)
  finally show ?case using Cons by (simp add: crlf_def)
qed

lemma http_read_head:
  assumes "find_sub (crlf @ crlf) (take n buf) = Some k"
  shows "handle_http_connection E buf n s =
    (case http_relay E (take k buf) (take n buf) of (e, out) \<Rightarrow> Some (e, out, s))"
  using assms by (simp add: handle_http_connection_def read_until.simps)

lemma http_cut_head:
  assumes "find_sub (crlf @ crlf) (take n buf) = None"
  shows "handle_http_connection E buf n s = Some (Dropped, [], s)"
  using assms by (simp add: handle_http_connection_def read_until.simps moved_read_def Let_def)

text \<open>The Host header: a host, or a host and a port.\<close>

definition host_field :: "bytes \<Rightarrow> u16 option \<Rightarrow> bytes" where
  "host_field h p = (case p of None \<Rightarrow> h | Some port \<Rightarrow> host_port h port)"

lemma http_target_host:
  assumes "StrSplit_ok (el_split E)" "58 \<notin> set h"
  shows "http_target E (host_field h p) = Some (h, case p of None \<Rightarrow> 0 | Some port \<Rightarrow> port)"
proof (cases p)
  case None
  have "el_split E h (str '':'') = [h]" by (rule split_one [OF assms(1)]) (use assms(2) in \<open>simp_all add: str_def\<close>)
  with None show ?thesis by (simp add: http_target_def host_field_def)
next
  case (Some port)
  have one: "el_split E (to_string (unat port)) (str '':'') = [to_string (unat port)]"
    by (rule split_one [OF assms(1)]) (use to_string_no_delim in \<open>simp_all add: str_def\<close>)
  have "el_split E (h @ str '':'' @ to_string (unat port)) (str '':'') = h # el_split E (to_string (unat port)) (str '':'')"
    by (rule split_at [OF assms(1)]) (use assms(2) in \<open>simp_all add: str_def\<close>)
  moreover have "host_field h p = h @ str '':'' @ to_string (unat port)" using Some by (simp add: host_field_def host_port_def str_def)
  moreover have "unat port < 2 ^ 31" using unsigned_less [of port, where ?'a = nat] by simp
  then have "stoi (to_string (unat port)) = Some (int (unat port))" by (rule stoi_to_string)
  ultimately show ?thesis using one Some by (simp add: http_target_def)
qed

text \<open>The head of a request: the lines, then the Host line, then more lines or none.\<close>

definition http_head :: "bytes \<Rightarrow> bytes \<Rightarrow> bytes list \<Rightarrow> bytes \<Rightarrow> bytes list \<Rightarrow> bytes" where
  "http_head verb target before hp after =
     (let pre = header_lines ((verb @ 32 # target) # before) @ str ''Host:'' @ 32 # hp
      in if after = [] then pre else pre @ crlf @ header_lines (butlast after) @ last after)"

definition http_ctx :: "bytes \<Rightarrow> u16 \<Rightarrow> bool \<Rightarrow> RelayContext" where
  "http_ctx h port tls = \<lparr>rc_user = [], rc_remote_host = h, rc_remote_port = port, rc_is_tls = tls, rc_is_tcp = True, rc_direct = False\<rparr>"

lemma head_not_space:
  assumes "verb \<noteq> []" "\<not> is_space (hd verb)" "hp \<noteq> []" "\<not> is_space (last hp)" "\<forall>l\<in>set after. \<not> is_space (last l) \<and> l \<noteq> []"
    "StripAsciiWhitespace_ok strip"
  shows "strip (http_head verb target before hp after) = http_head verb target before hp after"
proof -
  let ?x = "http_head verb target before hp after"
  have ne: "?x \<noteq> []" "hd ?x = hd verb" using assms(1) by (auto simp: http_head_def Let_def hd_append)
  have "last ?x = last hp \<or> (after \<noteq> [] \<and> last ?x = last (last after))"
    using assms(3,5) by (auto simp: http_head_def Let_def last_append)
  then have "\<not> is_space (last ?x)" using assms(4,5) by (metis last_in_set)
  with strip_value [OF assms(6) ne(1), of "[]"] ne assms(2) show ?thesis by simp
qed

lemma http_head_host:
  assumes strip: "StripAsciiWhitespace_ok strip" and b: "\<forall>l\<in>set ((verb @ 32 # target) # before). plain_line (str ''Host:'') l"
    and hp: "hp \<noteq> []" "\<not> is_space (hd hp)" "\<not> is_space (last hp)" "13 \<notin> set hp"
  shows "parse_http_hostport strip (http_head verb target before hp after) = (if after = [] then (- 1, None) else (0, Some hp))"
proof -
  have h: "13 \<notin> set (str ''Host:'')" "hd (str ''Host:'') \<noteq> 10" "str ''Host:'' \<noteq> []" by (simp_all add: str_def)
  show ?thesis
    using http_get_header_line [OF strip b h hp] by (simp add: parse_http_hostport_def http_head_def Let_def)
qed

lemma http_relay_head:
  assumes E: "entry_libs_ok E" and verb: "verb \<noteq> []" "32 \<notin> set verb" "\<not> is_space (hd verb)"
    and b: "\<forall>l\<in>set ((verb @ 32 # target) # before). plain_line (str ''Host:'') l"
    and h: "h \<noteq> []" "58 \<notin> set h" "13 \<notin> set h" "\<not> is_space (hd h)" "\<not> is_space (last h)"
    and after: "\<forall>l\<in>set after. \<not> is_space (last l) \<and> l \<noteq> []"
  shows "http_relay E (http_head verb target before (host_field h p) after) data =
    (if after = [] then (Dropped, [])
     else if el_equals_ic E verb (str ''CONNECT'')
     then (RelayVia (http_ctx h (case p of Some q \<Rightarrow> if q = 0 then 443 else q | None \<Rightarrow> 443)
             (case p of Some q \<Rightarrow> q = 0 | None \<Rightarrow> True)) [], [conn_ok])
     else (RelayVia (http_ctx h (case p of Some q \<Rightarrow> if q = 0 then 80 else q | None \<Rightarrow> 80) False) data, []))"
proof -
  let ?hp = "host_field h p" and ?x = "http_head verb target before (host_field h p) after"
  have digits: "\<not> is_space (last (to_string n))" "13 \<notin> set (to_string n)" "to_string n \<noteq> []" for n
  proof -
    have d: "\<forall>b\<in>set (to_string n). is_digit b" and ne: "to_string n \<noteq> []" using to_string_spec [of n] by auto
    then show "\<not> is_space (last (to_string n))" "to_string n \<noteq> []" using digit_not last_in_set by blast+
    show "13 \<notin> set (to_string n)" using d by (auto simp: is_digit_def)
  qed
  have hp: "?hp \<noteq> []" "\<not> is_space (hd ?hp)" "\<not> is_space (last ?hp)" "13 \<notin> set ?hp"
    using h digits by (auto simp: host_field_def host_port_def split: option.splits)
  have st: "el_strip E ?x = ?x" and ps: "parse_http_hostport (el_strip E) ?x = (if after = [] then (- 1, None) else (0, Some ?hp))"
    using E head_not_space [OF verb(1,3) hp(1,3) after] http_head_host [OF _ b hp] by (simp_all add: entry_libs_ok_def)
  have "\<exists>t. ?x = verb @ str '' '' @ t" by (auto simp: http_head_def Let_def str_def)
  then obtain t where t: "?x = verb @ str '' '' @ t" by blast
  have sp: "find_sub (str '' '') ?x = Some (length verb)" unfolding t by (rule find_sub_first) (use verb in \<open>simp_all add: str_def\<close>)
  have m: "take (length verb) ?x = verb" unfolding t by simp
  have tg: "http_target E ?hp = Some (h, case p of None \<Rightarrow> 0 | Some port \<Rightarrow> port)"
    by (rule http_target_host) (use E h in \<open>simp_all add: entry_libs_ok_def\<close>)
  show ?thesis
  proof (cases "after = []")
    case True
    with st ps show ?thesis by (simp add: http_relay_def)
  next
    case False
    with st ps tg sp m show ?thesis
      by (cases p) (simp_all add: http_relay_def http_ctx_def RelayContext_init_def Let_def)
  qed
qed

subsection \<open>Properties\<close>


definition plain_libs :: entry_libs where
  "plain_libs = \<lparr>el_strip = strip_ref, el_split = str_split_ref,
     el_equals_ic = (\<lambda>a b. let lower = map (\<lambda>b :: u8. if 65 \<le> b \<and> b \<le> 90 then b + 32 else b) in lower a = lower b),
     el_v4_string = (\<lambda>b. b), el_v6_string = (\<lambda>b. b)\<rparr>"


text \<open>C35: SOCKS5 with TLS.  When the client's first bytes are a TLS record with a server name, the
  connection is relayed to that name; for a domain request the port the client asked for is
  lost and 443 is used instead.  When no server name can be read, the handler goes on with a
  socket and a buffer it has given away.\<close>

theorem socks5_tls_port:
  assumes "length methods < 256" "0 \<in> set methods" "buf = socks5_greeting methods @ rest" "262 \<le> length buf" "addr_wf a"
    and "rd s (length buf) = (socks5_request a port, 0, s1)" "rd s1 (length buf) = (data, 0, s2)"
    and "3 < length data" "data ! 0 = 0x16" "\<not> data ! 1 < 3"
  shows "(parse_sni data = Some (0, Some h) \<longrightarrow> h \<noteq> str ''courier.push.apple.com'' \<longrightarrow>
      fst (handle_socks5_connection rd E flags_user buf s) =
        RelayVia \<lparr>rc_user = flags_user, rc_remote_host = h, rc_remote_port = (if is_address a then port else 443),
          rc_is_tls = True, rc_is_tcp = True, rc_direct = False\<rparr> data) \<and>
    (parse_sni data = Some (rc, None) \<longrightarrow>
      (\<exists>ctx. fst (handle_socks5_connection rd E flags_user buf s) = RelayMoved ctx))"
  unfolding socks5_handshake [where rd = rd and s = s and ?s1.0 = s1 and buf = buf, OF assms(1-7)] using assms(8-10)
  by (simp add: socks5_relay_def Let_def RelayContext_init_def handle_tls_connection_def)

theorem socks5_tls_port_witness:
  "\<exists>ctx. fst (handle_socks5_connection script_read plain_libs [117] (socks5_greeting [0] @ replicate 300 0)
     [socks5_request (Domain [97, 46, 98]) 8443, [22, 3, 1, 0]]) = RelayMoved ctx"
proof -
  let ?buf = "socks5_greeting [0] @ replicate 300 0"
  have r1: "script_read [socks5_request (Domain [97, 46, 98]) 8443, [22, 3, 1, 0]] (length ?buf) =
      (socks5_request (Domain [97, 46, 98]) 8443, 0, [[22, 3, 1, 0]])"
    and r2: "script_read [[22, 3, 1, 0]] (length ?buf) = ([22, 3, 1, 0], 0, [])"
    by (simp_all add: socks5_request_def socks5_greeting_def)
  have "parse_sni [22, 3, 1, 0] = Some (- 1, None)" by (simp add: parse_sni_def parse_tls_header_def)
  with socks5_tls_port [where rd = script_read and buf = ?buf and methods = "[0]" and rest = "replicate 300 0" and rc = "- 1" and E = plain_libs and flags_user = "[117]", OF _ _ refl _ _ r1 r2] show ?thesis by (simp add: socks5_greeting_def)
qed

text \<open>A TLS connection is relayed to its server name.  For every client hello with a server name the
  entry handler relays the bytes unchanged, for the configured user, to this name, on port 443 or on the
  port of the original destination of a redirected connection.\<close>

theorem entry_tls_relayed:
  assumes "length fixed = 37" "length session < 256" "length ciphers < 65536" "length compression < 256"
    and e: "exts = hello_extensions before host after" "length exts < 65536"
    and b: "\<forall>e\<in>set before. 0 < fst e \<and> fst e < 65536 \<and> length (snd e) < 65536" and h: "length host < 65000" "host \<noteq> []"
    and total: "44 + length session + length ciphers + length compression + length exts < 65536"
    and hello: "hello = client_hello minor fixed session ciphers compression exts @ tail"
    and rd: "rd s 8192 = (hello, 0, s1)" and host: "host \<noteq> str ''courier.push.apple.com''"
  shows "entry_handle_conn rd E flags_user redirect buffer s =
    Some (RelayVia \<lparr>rc_user = flags_user, rc_remote_host = host,
       rc_remote_port = (case redirect of None \<Rightarrow> 443 | Some (_, p) \<Rightarrow> p),
       rc_is_tls = True, rc_is_tcp = True, rc_direct = False\<rparr> hello, [], s1)"
proof -
  have l: "0 < length (client_hello minor fixed session ciphers compression exts)" by (simp add: client_hello_def Let_def)
  have sni: "parse_sni hello = Some (0, Some host)"
    unfolding hello using client_hello_found [OF assms(1-10) l] by blast
  have h0: "hello ! 0 = 0x16" "hello ! 1 = 3" "3 \<le> length hello" unfolding hello by (simp_all add: client_hello_def Let_def)
  then have "(hello @ drop (length hello) buffer) ! 0 = 0x16" "(hello @ drop (length hello) buffer) ! 1 = 3"
    by (auto simp: nth_append)
  with rd sni h0 host show ?thesis
    by (cases redirect) (auto simp: entry_handle_conn_def Let_def blit_0 handle_tls_connection_def RelayContext_init_def)
qed

theorem entry_tls_relayed_witness:
  "\<exists>hello. entry_handle_conn script_read plain_libs [117] None (replicate 8448 0) [hello] =
   Some (RelayVia \<lparr>rc_user = [117], rc_remote_host = [104, 46, 105, 111], rc_remote_port = 443,
     rc_is_tls = True, rc_is_tcp = True, rc_direct = False\<rparr> hello, [], [])"
proof -
  let ?exts = "hello_extensions [(10, [1, 2])] [104, 46, 105, 111] []"
  define hello where "hello = client_hello 1 (replicate 37 0) [] [0, 47] [0] ?exts @ []"
  have r: "script_read [hello] 8192 = (hello, 0, [])"
    by (simp add: hello_def client_hello_def hello_extensions_def extension_def server_name_def be16_def Let_def)
  have "entry_handle_conn script_read plain_libs [117] None (replicate 8448 0) [hello] =
   Some (RelayVia \<lparr>rc_user = [117], rc_remote_host = [104, 46, 105, 111],
     rc_remote_port = (case (None :: (bytes \<times> u16) option) of None \<Rightarrow> 443 | Some (_, p) \<Rightarrow> p),
     rc_is_tls = True, rc_is_tcp = True, rc_direct = False\<rparr> hello, [], [])"
    by (rule entry_tls_relayed [where exts = ?exts and before = "[(10, [1, 2])]" and after = "[]" and fixed = "replicate 37 0" and
          session = "[]" and ciphers = "[0, 47]" and compression = "[0]" and minor = 1 and tail = "[]" and rd = script_read])
      (use r in \<open>simp_all add: hello_def hello_extensions_def extension_def server_name_def str_def\<close>)
  then show ?thesis by auto
qed

text \<open>C36: an HTTP proxy request goes where its Host header says, if another header follows.  When the
  whole head arrives with the first read, a \<open>CONNECT\<close> is answered and tunnelled and any other
  request is relayed with all its bytes, to the host and port of the Host line (443 or 80 by default);
  the relay's user is empty.  When the Host line is the last of the head, or the head does not
  end within the first read, the connection is dropped.\<close>

theorem http_proxy_request:
  assumes E: "entry_libs_ok E" and verb: "verb \<noteq> []" "32 \<notin> set verb" "\<not> is_space (hd verb)"
    and b: "\<forall>l\<in>set ((verb @ 32 # target) # before). plain_line (str ''Host:'') l \<and> l \<noteq> []"
    and h: "h \<noteq> []" "58 \<notin> set h" "13 \<notin> set h" "\<not> is_space (hd h)" "\<not> is_space (last h)"
    and after: "\<forall>l\<in>set after. \<not> is_space (last l) \<and> line_ok l"
    and req: "req = http_head verb target before (host_field h p) after @ crlf @ crlf @ body"
  shows "handle_http_connection E (req @ junk) (length req) s =
    Some (if after = [] then (Dropped, [], s)
      else if el_equals_ic E verb (str ''CONNECT'')
      then (RelayVia (http_ctx h (case p of Some q \<Rightarrow> if q = 0 then 443 else q | None \<Rightarrow> 443)
             (case p of Some q \<Rightarrow> q = 0 | None \<Rightarrow> True)) [], [conn_ok], s)
      else (RelayVia (http_ctx h (case p of Some q \<Rightarrow> if q = 0 then 80 else q | None \<Rightarrow> 80) False) req, [], s)) \<and>
   (\<forall>n. find_sub (crlf @ crlf) (take n req) = None \<longrightarrow> n \<le> length req \<longrightarrow>
      handle_http_connection E (req @ junk) n s = Some (Dropped, [], s))"
proof -
  let ?x = "http_head verb target before (host_field h p) after"
  have digits: "13 \<notin> set (to_string n)" for n using to_string_spec [of n] by (auto simp: is_digit_def)
  have hl: "line_ok (str ''Host:'' @ 32 # host_field h p)"
    using h digits by (auto simp: line_ok_def host_field_def host_port_def str_def split: option.splits)
  have bl: "\<forall>l\<in>set ((verb @ 32 # target) # before). line_ok l" using b by (auto simp: line_ok_def plain_line_def)
  have "find_sub (crlf @ crlf) req = Some (length ?x)"
  proof (cases "after = []")
    case True
    with find_head_end [OF bl hl, of body] show ?thesis by (simp add: req http_head_def Let_def)
  next
    case False
    have 1: "\<forall>l\<in>set ((verb @ 32 # target) # before @ (str ''Host:'' @ 32 # host_field h p) # butlast after). line_ok l"
      using bl hl after by (auto dest: in_set_butlastD)
    have 2: "line_ok (last after)" using False after by simp
    from find_head_end [OF 1 2, of body] False show ?thesis by (simp add: req http_head_def Let_def)
  qed
  then have k: "find_sub (crlf @ crlf) (take (length req) (req @ junk)) = Some (length ?x)" by simp
  have t: "take (length ?x) (req @ junk) = ?x" by (simp add: req)
  have a2: "\<forall>l\<in>set after. \<not> is_space (last l) \<and> l \<noteq> []" using after by (simp add: line_ok_def)
  have b2: "\<forall>l\<in>set ((verb @ 32 # target) # before). plain_line (str ''Host:'') l" using b by blast
  note relay = http_relay_head [OF E verb b2 h a2, of p]
  have "handle_http_connection E (req @ junk) n s = Some (Dropped, [], s)"
    if "find_sub (crlf @ crlf) (take n req) = None" "n \<le> length req" for n
    by (rule http_cut_head) (use that in simp)
  then show ?thesis unfolding http_read_head [OF k] t relay by (auto split: if_splits)
qed

lemma plain_libs_ok: "entry_libs_ok plain_libs"
  by (simp add: entry_libs_ok_def plain_libs_def strip_ref_ok str_split_ref_ok EqualsIgnoreCase_ok_def Let_def)

theorem http_proxy_request_witness:
  "handle_http_connection plain_libs
      (http_head (str ''GET'') (str ''/ HTTP/1.1'') [] (host_field [97] (Some 8080)) [str ''Accept: x''] @ crlf @ crlf @ [] @ [])
      (length (http_head (str ''GET'') (str ''/ HTTP/1.1'') [] (host_field [97] (Some 8080)) [str ''Accept: x''] @ crlf @ crlf @ [])) () =
   Some (RelayVia (http_ctx [97] 8080 False)
     (http_head (str ''GET'') (str ''/ HTTP/1.1'') [] (host_field [97] (Some 8080)) [str ''Accept: x''] @ crlf @ crlf @ []), [], ()) \<and>
   handle_http_connection plain_libs
      (http_head (str ''GET'') (str ''/ HTTP/1.1'') [] (host_field [97] (Some 8080)) [] @ crlf @ crlf @ [] @ [])
      (length (http_head (str ''GET'') (str ''/ HTTP/1.1'') [] (host_field [97] (Some 8080)) [] @ crlf @ crlf @ [])) () =
   Some (Dropped, [], ())"
proof -
  have m: "\<not> el_equals_ic plain_libs (str ''GET'') (str ''CONNECT'')" by (simp add: plain_libs_def str_def)
  note r = http_proxy_request [where verb = "str ''GET''" and target = "str ''/ HTTP/1.1''" and before = "[]" and h = "[97]" and
      p = "Some 8080" and body = "[]" and junk = "[]" and s = "()", OF plain_libs_ok]
  have "handle_http_connection plain_libs
      ((http_head (str ''GET'') (str ''/ HTTP/1.1'') [] (host_field [97] (Some 8080)) [str ''Accept: x''] @ crlf @ crlf @ []) @ [])
      (length (http_head (str ''GET'') (str ''/ HTTP/1.1'') [] (host_field [97] (Some 8080)) [str ''Accept: x''] @ crlf @ crlf @ [])) () =
   Some (RelayVia (http_ctx [97] 8080 False)
     (http_head (str ''GET'') (str ''/ HTTP/1.1'') [] (host_field [97] (Some 8080)) [str ''Accept: x''] @ crlf @ crlf @ []), [], ())"
    using r [where after = "[str ''Accept: x'']", OF _ _ _ _ _ _ _ _ _ _ refl] m
    by (simp add: str_def is_space_def plain_line_def line_ok_def)
  moreover have "handle_http_connection plain_libs
      ((http_head (str ''GET'') (str ''/ HTTP/1.1'') [] (host_field [97] (Some 8080)) [] @ crlf @ crlf @ []) @ [])
      (length (http_head (str ''GET'') (str ''/ HTTP/1.1'') [] (host_field [97] (Some 8080)) [] @ crlf @ crlf @ [])) () =
   Some (Dropped, [], ())"
    using r [where after = "[]", OF _ _ _ _ _ _ _ _ _ _ refl]
    by (simp add: str_def is_space_def plain_line_def line_ok_def)
  ultimately show ?thesis by simp
qed

end
