(* ===== verification/Net_Helper.thy ===== *)
theory Net_Helper
  imports Http_Helper Io_Connection
begin

text \<open>
  \<^verbatim>\<open>snova/util/net_helper.cc\<close>: private addresses, connecting directly or through an HTTP proxy, and the
  parsing of DNS names and answers.  Resolver and sockets are asio's and arguments.  The parsers read
  through raw pointers into a buffer: \<open>mem\<close> is the whole buffer, of which \<open>payload_len\<close> bytes were
  received, and an access outside it is \<open>Fault\<close>.  The option around it is \<open>None\<close> for a call that
  never returns.  Values of \<^verbatim>\<open>int\<close> stay far below \<open>2 ^ 31\<close>.
\<close>

subsection \<open>Private addresses\<close>

text \<open>
  The loop runs to \<^verbatim>\<open>sizeof(g_private_networks)\<close>, a number of bytes; \<open>nets\<close> are the tests of the
  networks, a test beyond them is undefined: \<open>None\<close>.
\<close>

function private_scan :: "(u32 \<Rightarrow> bool) list \<Rightarrow> nat \<Rightarrow> u32 \<Rightarrow> nat \<Rightarrow> bool option" where
  "private_scan nets sz addr i =
     (if i < sz
      then if length nets \<le> i then None
           else if (nets ! i) addr then Some True else private_scan nets sz addr (i + 1)
      else Some False)"
  by pat_completeness auto
termination
  by (relation "measure (\<lambda>(nets, sz, addr, i). sz - i)") auto

declare private_scan.simps [simp del]

text \<open>An address is \<open>None\<close> if it is not IPv4; \<open>range_size\<close> is the size of an \<^verbatim>\<open>address_v4_range\<close>.\<close>

definition is_private_address ::
  "(u32 \<Rightarrow> bool) \<Rightarrow> (u32 \<Rightarrow> bool) list \<Rightarrow> nat \<Rightarrow> u32 option \<Rightarrow> bool option" where
  "is_private_address is_loopback nets range_size addr =
     (case addr of
        None \<Rightarrow> Some False
      | Some v4_addr \<Rightarrow>
          if is_loopback v4_addr then Some True
          else private_scan nets (length nets * range_size) v4_addr 0)"

subsection \<open>The original destination\<close>

text \<open>
  \<open>v4\<close> and \<open>v6\<close> are what \<^verbatim>\<open>getsockopt\<close> answers for the two protocols: nothing on an error, else the bytes of
  address and port as they are in memory, in network order.  The result is an address and a port, or
  nothing for \<open>- 1\<close>.
\<close>

datatype ip_address = AddressV4 u32 | AddressV6 bytes

definition get_orig_dst :: "(bytes \<times> bytes) option \<Rightarrow> (bytes \<times> bytes) option \<Rightarrow> (ip_address \<times> u16) option" where
  "get_orig_dst v4 v6 =
     (case v4 of
        Some (sin_addr, sin_port) \<Rightarrow> Some (AddressV4 (big_to_native sin_addr), big_to_native sin_port)
      | None \<Rightarrow>
          (case v6 of
             Some (sin6_addr, sin6_port) \<Rightarrow> Some (AddressV6 sin6_addr, big_to_native sin6_port)
           | None \<Rightarrow> None))"

subsection \<open>Connecting\<close>

definition bad_address :: int where "bad_address = 14"
definition connection_refused :: int where "connection_refused = 111"

text \<open>\<^verbatim>\<open>do_resolve_endpoint\<close>: the first result of the resolver.\<close>

definition resolve_endpoint :: "int \<times> 'e list \<Rightarrow> int + 'e" where
  "resolve_endpoint resolved =
     (case resolved of (ec, results) \<Rightarrow>
        if ec \<noteq> 0 \<or> length results = 0 then (if ec \<noteq> 0 then Inl ec else Inl bad_address)
        else Inr (hd results))"

definition get_connected_socket :: "int \<times> 'e list \<Rightarrow> ('e \<Rightarrow> int + 's) \<Rightarrow> 's option" where
  "get_connected_socket resolved connect =
     (case resolve_endpoint resolved of
        Inl ec \<Rightarrow> None
      | Inr e \<Rightarrow> (case connect e of Inl connect_ec \<Rightarrow> None | Inr s \<Rightarrow> Some s))"

definition proxy_request :: "bytes \<Rightarrow> u16 \<Rightarrow> bytes" where
  "proxy_request host port =
     str ''CONNECT '' @ host_port host port @ str '' HTTP/1.1'' @ crlf @
     str ''Host: '' @ host_port host port @ crlf @
     str ''Connection: keep-alive'' @ crlf @ str ''Proxy-Connection: keep-alive'' @ crlf @ crlf"

text \<open>\<open>starts_with\<close> is \<^verbatim>\<open>absl::StartsWith\<close>; \<open>None\<close> when the response never ends.\<close>

definition connect_remote_via_http_proxy ::
  "(bytes \<Rightarrow> bytes \<Rightarrow> bool) \<Rightarrow> 's reader \<Rightarrow> ('s \<Rightarrow> bytes \<Rightarrow> int \<times> 's) \<Rightarrow> int \<times> 'e list \<Rightarrow> ('e \<Rightarrow> int + 's) \<Rightarrow> bytes \<Rightarrow>
     bytes \<Rightarrow> u16 \<Rightarrow> (int \<times> 's option) option" where
  "connect_remote_via_http_proxy starts_with rd wr resolved connect buf remote_host remote_port =
     (case resolve_endpoint resolved of
        Inl ec \<Rightarrow> Some (ec, None)
      | Inr proxy_endpoint \<Rightarrow>
          (case connect proxy_endpoint of
             Inl connect_ec \<Rightarrow> Some (connect_ec, None)
           | Inr s \<Rightarrow>
               (case wr s (proxy_request remote_host remote_port) of (wec, s1) \<Rightarrow>
                  if wec \<noteq> 0 then Some (wec, Some s1)
                  else case read_until rd s1 buf 0 (crlf @ crlf) of
                      None \<Rightarrow> None
                    | Some (end_pos, buf1, readed_len, s2) \<Rightarrow>
                        if end_pos < 0 then Some (connection_refused, Some s2)
                        else let response_view = take (nat end_pos) buf1 in
                          if starts_with response_view (str ''HTTP/1.1 2'') \<or> starts_with response_view (str ''HTTP/1.0 2'')
                          then Some (0, Some s2) else Some (connection_refused, Some s2))))"

subsection \<open>DNS names\<close>

datatype 'a access = Fault | Got 'a

definition mem8 :: "bytes \<Rightarrow> nat \<Rightarrow> u8 access" where
  "mem8 mem i = (if i < length mem then Got (mem ! i) else Fault)"

definition mem16 :: "bytes \<Rightarrow> nat \<Rightarrow> u16 access" where
  "mem16 mem i = (if i + 1 < length mem then Got (big_to_native (slice_of i 2 mem)) else Fault)"

text \<open>
  The loop of \<^verbatim>\<open>dns_parse_name\<close> at position \<open>p\<close>, with the contents of \<open>tmp\<close>; a pointer starts the
  function again at the offset in its second byte alone.  The result is the return code and the name.
\<close>

partial_function (option) dns_name_loop ::
  "bytes \<Rightarrow> nat \<Rightarrow> nat \<Rightarrow> nat \<Rightarrow> bytes \<Rightarrow> (int \<times> bytes) access option" where
  "dns_name_loop mem payload_len pstart p tmp =
     (if p < payload_len
      then case mem8 mem p of
          Fault \<Rightarrow> Some Fault
        | Got dot_len \<Rightarrow>
            if dot_len AND 0xc0 = 0xc0
            then (case mem8 mem (p + 1) of
                    Fault \<Rightarrow> Some Fault
                  | Got sub_offset \<Rightarrow>
                      let name = (if pstart < p then take (p - pstart - 1) tmp else []) in
                      if sub_offset = 0 \<or> payload_len \<le> unat sub_offset
                      then Some (Got (0, name @ str ''.''))
                      else Option.bind (dns_name_loop mem payload_len (unat sub_offset) (unat sub_offset) [])
                        (\<lambda>r. case r of
                           Fault \<Rightarrow> Some Fault
                         | Got (sub_rc, sub_name) \<Rightarrow> Some (Got (0, name @ str ''.'' @ sub_name))))
            else if payload_len \<le> p + unat dot_len then Some (Got (- 1, []))
            else if dot_len = 0 then Some (Got (0, if pstart < p then take (p - pstart - 1) tmp else []))
            else if 256 \<le> length tmp + unat dot_len + 1 then Some (Got (- 1, []))
            else if length mem < p + 1 + unat dot_len then Some Fault
            else dns_name_loop mem payload_len pstart (p + 1 + unat dot_len)
              ((if tmp \<noteq> [] then tmp @ str ''.'' else tmp) @ slice_of (p + 1) (unat dot_len) mem)
      else Some (Got (- 1, [])))"

definition dns_parse_name :: "bytes \<Rightarrow> nat \<Rightarrow> nat \<Rightarrow> (int \<times> bytes) access option" where
  "dns_parse_name mem payload_offset payload_len =
     (if payload_offset = 0 \<or> payload_len \<le> payload_offset then Some (Got (- 1, []))
      else dns_name_loop mem payload_len payload_offset payload_offset [])"

text \<open>The number of bytes of the name at \<open>off + p\<close> and on, \<open>None\<close> for \<open>- 1\<close>; \<open>rem\<close> is what remains there.\<close>

function skip_name :: "bytes \<Rightarrow> nat \<Rightarrow> nat \<Rightarrow> nat \<Rightarrow> nat option access" where
  "skip_name mem off p rem =
     (if 0 < rem
      then case mem8 mem (off + p) of
          Fault \<Rightarrow> Fault
        | Got dot_len \<Rightarrow>
            if rem \<le> unat dot_len then Got None
            else if dot_len = 0 then Got (Some (p + 1))
            else skip_name mem off (p + (unat dot_len + 1)) (rem - (unat dot_len + 1))
      else Got None)"
  by pat_completeness auto
termination
  by (relation "measure (\<lambda>(mem, off, p, rem). rem)") auto

declare skip_name.simps [simp del]

subsection \<open>DNS answers\<close>

record DNSAnswer =
  an_nm :: u16
  an_type :: u16
  an_cls :: u16
  an_datalen :: u16
  an_v4_ip :: bytes
  an_v6_ip :: bytes

definition DNSAnswer_IsV4 :: "DNSAnswer \<Rightarrow> bool" where "DNSAnswer_IsV4 a \<longleftrightarrow> an_type a = 1"
definition DNSAnswer_IsV6 :: "DNSAnswer \<Rightarrow> bool" where "DNSAnswer_IsV6 a \<longleftrightarrow> an_type a = 28"

text \<open>The first loop: behind the questions, the offset of the answers; \<open>Got None\<close> for \<open>- 1\<close>.\<close>

fun skip_questions :: "bytes \<Rightarrow> nat \<Rightarrow> nat \<Rightarrow> nat \<Rightarrow> nat option access" where
  "skip_questions mem 0 parse_offset parse_remaining = Got (Some parse_offset)"
| "skip_questions mem (Suc question_num) parse_offset parse_remaining =
     (case skip_name mem parse_offset 0 parse_remaining of
        Fault \<Rightarrow> Fault
      | Got None \<Rightarrow> Got None
      | Got (Some name_len) \<Rightarrow>
          if parse_remaining < name_len + 4 then Got None
          else skip_questions mem question_num (parse_offset + (name_len + 4)) (parse_remaining - (name_len + 4)))"

text \<open>The name of an answer: the return code of its parsing and where its fields are counted from.\<close>

definition answer_name :: "bytes \<Rightarrow> nat \<Rightarrow> nat \<Rightarrow> u16 \<Rightarrow> (int \<times> nat) access option" where
  "answer_name mem payload_len parse_offset nm =
     (if nm AND 0xc000 = 0xc000
      then map_option (\<lambda>r. case r of Fault \<Rightarrow> Fault | Got (rc, name) \<Rightarrow> Got (rc, 0))
             (dns_parse_name mem (unat (nm AND 0x3fff)) payload_len)
      else map_option (\<lambda>r. case r of Fault \<Rightarrow> Fault | Got (rc, name) \<Rightarrow> Got (rc, length name))
             (dns_parse_name mem parse_offset payload_len))"

definition mem_bytes :: "bytes \<Rightarrow> nat \<Rightarrow> nat \<Rightarrow> bytes access" where
  "mem_bytes mem i n = (if i + n \<le> length mem then Got (slice_of i n mem) else Fault)"

text \<open>The rest of an answer whose fields are counted from \<open>f\<close>: \<open>Got None\<close> for \<open>- 1\<close>.\<close>

definition answer_fields :: "bytes \<Rightarrow> nat \<Rightarrow> nat \<Rightarrow> u16 \<Rightarrow> DNSAnswer option access" where
  "answer_fields mem payload_len f nm =
     (case mem16 mem (f + 2) of Fault \<Rightarrow> Fault | Got ty \<Rightarrow>
      case mem16 mem (f + 4) of Fault \<Rightarrow> Fault | Got cls \<Rightarrow>
      case mem16 mem (f + 10) of Fault \<Rightarrow> Fault | Got datalen \<Rightarrow>
        let a = \<lparr>an_nm = nm, an_type = ty, an_cls = cls, an_datalen = datalen, an_v4_ip = [], an_v6_ip = []\<rparr> in
        if payload_len < f + 12 + unat datalen then Got None
        else if ty = 5 then Got (Some a)
        else if ty = 1 then (case mem_bytes mem (f + 12) 4 of Fault \<Rightarrow> Fault | Got ip \<Rightarrow> Got (Some (a\<lparr>an_v4_ip := ip\<rparr>)))
        else if ty = 28 then (case mem_bytes mem (f + 12) 16 of Fault \<Rightarrow> Fault | Got ip \<Rightarrow> Got (Some (a\<lparr>an_v6_ip := ip\<rparr>)))
        else Got None)"

text \<open>The second loop, with the answers found so far.\<close>

fun parse_answer_list ::
  "bytes \<Rightarrow> nat \<Rightarrow> nat \<Rightarrow> nat \<Rightarrow> DNSAnswer list \<Rightarrow> (int \<times> DNSAnswer list) access option" where
  "parse_answer_list mem payload_len 0 parse_offset answers = Some (Got (0, answers))"
| "parse_answer_list mem payload_len (Suc answers_num) parse_offset answers =
     (case mem16 mem parse_offset of
        Fault \<Rightarrow> Some Fault
      | Got nm \<Rightarrow>
          (case answer_name mem payload_len parse_offset nm of
             None \<Rightarrow> None
           | Some Fault \<Rightarrow> Some Fault
           | Some (Got (namr_rc, fields_offset)) \<Rightarrow>
               if namr_rc < 0 then Some (Got (- 1, answers))
               else (case answer_fields mem payload_len (parse_offset + fields_offset) nm of
                       Fault \<Rightarrow> Some Fault
                     | Got None \<Rightarrow> Some (Got (- 1, answers))
                     | Got (Some ans) \<Rightarrow>
                         parse_answer_list mem payload_len answers_num
                           (parse_offset + (12 + fields_offset + unat (an_datalen ans))) (answers @ [ans]))))"

definition dns_parse_answers :: "bytes \<Rightarrow> nat \<Rightarrow> (int \<times> DNSAnswer list) access option" where
  "dns_parse_answers mem payload_len =
     (case mem16 mem 0 of Fault \<Rightarrow> Some Fault | Got txid \<Rightarrow>
      case mem16 mem 4 of Fault \<Rightarrow> Some Fault | Got question_num \<Rightarrow>
      case mem16 mem 6 of Fault \<Rightarrow> Some Fault | Got answers_num \<Rightarrow>
        if payload_len < 12 \<and> 0 < unat question_num then Some (Got (- 1, []))
        else case skip_questions mem (unat question_num) 12 (payload_len - 12) of
            Fault \<Rightarrow> Some Fault
          | Got None \<Rightarrow> Some (Got (- 1, []))
          | Got (Some parse_offset) \<Rightarrow> parse_answer_list mem payload_len (unat answers_num) parse_offset [])"

subsection \<open>Encoded names\<close>

text \<open>A name is a list of labels (RFC 1035).\<close>

definition label_ok :: "bytes \<Rightarrow> bool" where
  "label_ok l \<longleftrightarrow> 0 < length l \<and> length l < 64"

definition enc_labels :: "bytes list \<Rightarrow> bytes" where
  "enc_labels ls = concat (map (\<lambda>l. word_of_nat (length l) # l) ls)"

definition enc_name :: "bytes list \<Rightarrow> bytes" where
  "enc_name ls = enc_labels ls @ [0]"

fun dotted :: "bytes list \<Rightarrow> bytes" where
  "dotted [] = []"
| "dotted [l] = l"
| "dotted (l # l' # ls) = l @ str ''.'' @ dotted (l' # ls)"

lemma enc_labels_simps [simp]:
  "enc_labels [] = []" "enc_labels (l # ls) = word_of_nat (length l) # l @ enc_labels ls"
  "enc_labels (ls @ ls') = enc_labels ls @ enc_labels ls'"
  by (simp_all add: enc_labels_def)

lemma dotted_snoc: "dotted (ls @ [l]) = (if ls \<noteq> [] then dotted ls @ str ''.'' else []) @ l"
  by (induction ls rule: dotted.induct) auto

lemma length_dotted: "ls \<noteq> [] \<Longrightarrow> length (dotted ls) + 1 = length (enc_labels ls)"
  by (induction ls rule: dotted.induct) (auto simp: str_def)

lemma dotted_Nil: "\<forall>l\<in>set ls. label_ok l \<Longrightarrow> dotted ls = [] \<longleftrightarrow> ls = []"
  by (induction ls rule: dotted.induct) (auto simp: label_ok_def str_def)

lemma label_byte:
  assumes "label_ok l"
  shows "unat (word_of_nat (length l) :: u8) = length l" "(word_of_nat (length l) :: u8) \<noteq> 0"
    "(word_of_nat (length l) :: u8) AND 0xc0 \<noteq> 0xc0"
proof -
  let ?w = "word_of_nat (length l) :: u8"
  show u: "unat ?w = length l" using assms by (simp add: label_ok_def unat_of_nat)
  show "?w \<noteq> 0" using u assms by (auto simp: label_ok_def)
  have "\<not> bit (unat ?w) 6" using u assms by (simp add: bit_iff_odd label_ok_def)
  then have "\<not> bit ?w 6" by (simp add: bit_unsigned_iff)
  then have "\<not> bit (?w AND 0xc0) 6" by (simp add: bit_and_iff)
  moreover have "bit (0xc0 :: u8) 6" by simp
  ultimately show "?w AND 0xc0 \<noteq> 0xc0" by metis
qed

lemma mem8_at: "drop p mem = b # rest \<Longrightarrow> mem8 mem p = Got b"
  by (metis mem8_def drop_all linorder_not_less list.distinct(1) nth_via_drop)

lemma name_loop_labels:
  assumes pre: "\<forall>l\<in>set pre. label_ok l" and len: "payload_len \<le> length mem"
    and tot: "length (enc_labels (pre @ ls)) \<le> 255"
  shows "\<forall>l\<in>set ls. label_ok l \<Longrightarrow> drop p mem = enc_name ls @ rest \<Longrightarrow> p = pstart + length (enc_labels pre) \<Longrightarrow>
    p + length (enc_name ls) \<le> payload_len \<Longrightarrow>
    dns_name_loop mem payload_len pstart p (dotted pre) = Some (Got (0, dotted (pre @ ls)))"
  using pre tot
proof (induction ls arbitrary: pre p)
  case Nil
  have b: "mem8 mem p = Got 0" using Nil.prems(2) by (intro mem8_at) (simp add: enc_name_def)
  have "p < payload_len" using Nil.prems(4) by (simp add: enc_name_def)
  moreover have "(if pstart < p then take (p - pstart - 1) (dotted pre) else []) = dotted pre"
    using Nil.prems(3) length_dotted [of pre] by (cases "pre = []") auto
  ultimately show ?case using b by (subst dns_name_loop.simps) simp
next
  case (Cons l ls)
  have l: "label_ok l" using Cons.prems(1) by simp
  note w = label_byte [OF l]
  have d: "drop p mem = word_of_nat (length l) # l @ enc_name ls @ rest" using Cons.prems(2) by (simp add: enc_name_def)
  have b: "mem8 mem p = Got (word_of_nat (length l))" by (rule mem8_at [OF d])
  have d1: "drop (p + 1) mem = l @ enc_name ls @ rest" using d by (metis add.commute drop_Suc drop_drop drop_tl list.sel(3) plus_1_eq_Suc)
  have d2: "drop (p + 1 + length l) mem = enc_name ls @ rest" using d1 by (metis add.commute append_eq_conv_conj drop_drop)
  have pl: "p + 1 + length l + length (enc_name ls) \<le> payload_len" using Cons.prems(4) by (simp add: enc_name_def)
  have en: "0 < length (enc_name ls)" by (simp add: enc_name_def)
  have t: "length (dotted pre) + length l + 1 < 256"
    using length_dotted [of pre] Cons.prems(6) l by (cases "pre = []") (auto simp: label_ok_def)
  have sl: "slice_of (p + 1) (length l) mem = l" using d1 by (simp add: slice_of_def)
  have tmp: "(if dotted pre \<noteq> [] then dotted pre @ str ''.'' else dotted pre) @ l = dotted (pre @ [l])"
    using dotted_Nil [OF Cons.prems(5)] by (auto simp: dotted_snoc)
  have "dns_name_loop mem payload_len pstart p (dotted pre) =
      dns_name_loop mem payload_len pstart (p + 1 + length l) (dotted (pre @ [l]))"
    using b w t pl en len sl tmp by (subst dns_name_loop.simps) (simp add: not_le)
  also have "\<dots> = Some (Got (0, dotted ((pre @ [l]) @ ls)))"
    by (rule Cons.IH [OF _ d2]) (use Cons.prems pl l in auto)
  finally show ?case by simp
qed

text \<open>A pointer that leads to itself is followed for ever.\<close>

lemma name_loop_cycle:
  assumes "mem8 mem o1 = Got b" "b AND 0xc0 = 0xc0" "mem8 mem (o1 + 1) = Got (word_of_nat o1)" "0 < o1" "o1 < 256" "o1 < payload_len"
  shows "dns_name_loop mem payload_len o1 o1 [] = None"
proof -
  have off: "unat (word_of_nat o1 :: u8) = o1" "(word_of_nat o1 :: u8) \<noteq> 0"
    using assms(4,5) by (auto simp: unat_of_nat word_unat_eq_iff)
  have "dns_name_loop m n q p t = Some r \<Longrightarrow> \<not> (m = mem \<and> n = payload_len \<and> q = o1 \<and> p = o1 \<and> t = [])" for m n q p t r
  proof (induction rule: dns_name_loop.raw_induct [rotated 1, consumes 1])
    case (1 f m n q p t r)
    show ?case
    proof
      assume eq: "m = mem \<and> n = payload_len \<and> q = o1 \<and> p = o1 \<and> t = []"
      with 1(2) assms off obtain r' where "f mem payload_len o1 o1 [] = Some r'"
        by (auto simp: Let_def bind_eq_Some_conv split: if_splits)
      with 1(1) show False by blast
    qed
  qed
  then show ?thesis by (metis not_Some_eq)
qed

subsection \<open>Messages\<close>

lemma mem16_at: "drop i mem = native_to_big 2 (w :: u16) @ rest \<Longrightarrow> mem16 mem i = Got w"
proof -
  assume d: "drop i mem = native_to_big 2 w @ rest"
  have "length (drop i mem) = 2 + length rest" using d by simp
  then have "i + 1 < length mem" by (simp add: algebra_simps)
  moreover have "slice_of i 2 mem = native_to_big 2 w" using d by (simp add: slice_of_def)
  ultimately show ?thesis by (simp add: mem16_def)
qed

lemma skip_name_labels:
  "\<forall>l\<in>set ls. label_ok l \<Longrightarrow> drop (off + p) mem = enc_name ls @ rest \<Longrightarrow> length (enc_name ls) \<le> rem \<Longrightarrow>
   skip_name mem off p rem = Got (Some (p + length (enc_name ls)))"
proof (induction ls arbitrary: p rem)
  case Nil
  then have "mem8 mem (off + p) = Got 0" by (intro mem8_at) (simp add: enc_name_def)
  with Nil.prems(3) show ?case by (subst skip_name.simps) (simp add: enc_name_def)
next
  case (Cons l ls)
  note w = label_byte [of l]
  have l: "label_ok l" using Cons.prems(1) by simp
  have d: "drop (off + p) mem = (word_of_nat (length l) # l) @ enc_name ls @ rest" using Cons.prems(2) by (simp add: enc_name_def)
  then have b: "mem8 mem (off + p) = Got (word_of_nat (length l))" by (intro mem8_at) simp
  have "drop (off + p + length (word_of_nat (length l) # l)) mem = enc_name ls @ rest"
    using d by (metis add.commute append_eq_conv_conj drop_drop)
  then have d2: "drop (off + (p + (length l + 1))) mem = enc_name ls @ rest" by (simp add: ac_simps)
  have r: "length l + 1 + length (enc_name ls) \<le> rem" using Cons.prems(3) by (simp add: enc_name_def)
  then have "skip_name mem off (p + (length l + 1)) (rem - (length l + 1)) = Got (Some (p + (length l + 1) + length (enc_name ls)))"
    by (intro Cons.IH [OF _ d2]) (use Cons.prems(1) in auto)
  with b w [OF l] r show ?case by (subst skip_name.simps) (simp add: enc_name_def)
qed

text \<open>A response to one question whose answers refer to the name of the question.\<close>

record resource =
  rs_type :: u16
  rs_cls :: u16
  rs_ttl :: bytes
  rs_data :: bytes

definition resource_ok :: "resource \<Rightarrow> bool" where
  "resource_ok a \<longleftrightarrow> length (rs_ttl a) = 4 \<and> length (rs_data a) < 65536 \<and>
     (rs_type a = 5 \<or> rs_type a = 1 \<and> length (rs_data a) = 4 \<or> rs_type a = 28 \<and> length (rs_data a) = 16)"

definition enc_resource :: "resource \<Rightarrow> bytes" where
  "enc_resource a = native_to_big 2 (0xc00c :: u16) @ native_to_big 2 (rs_type a) @ native_to_big 2 (rs_cls a) @ rs_ttl a @
     native_to_big 2 (word_of_nat (length (rs_data a)) :: u16) @ rs_data a"

definition enc_response :: "u16 \<Rightarrow> bytes \<Rightarrow> bytes list \<Rightarrow> bytes \<Rightarrow> resource list \<Rightarrow> bytes \<Rightarrow> bytes" where
  "enc_response txid flags ls qtype as authority =
     native_to_big 2 txid @ flags @ native_to_big 2 (1 :: u16) @ native_to_big 2 (word_of_nat (length as) :: u16) @ authority @
     enc_name ls @ qtype @ concat (map enc_resource as)"

definition answer_of :: "resource \<Rightarrow> DNSAnswer" where
  "answer_of a = \<lparr>an_nm = 0xc00c, an_type = rs_type a, an_cls = rs_cls a, an_datalen = word_of_nat (length (rs_data a)),
     an_v4_ip = (if rs_type a = 1 then rs_data a else []), an_v6_ip = (if rs_type a = 28 then rs_data a else [])\<rparr>"

lemma drop_to: "drop i mem = xs @ ys \<Longrightarrow> j = i + length xs \<Longrightarrow> drop j mem = ys"
  by (metis add.commute append_eq_conv_conj drop_drop)

lemma answer_fields_resource:
  assumes a: "resource_ok a" and d: "drop f mem = enc_resource a @ rest" and l: "f + length (enc_resource a) \<le> payload_len"
    and m: "payload_len \<le> length mem"
  shows "answer_fields mem payload_len f 0xc00c = Got (Some (answer_of a))"
proof -
  let ?n = "word_of_nat (length (rs_data a)) :: u16"
  have len: "unat ?n = length (rs_data a)" "length (rs_ttl a) = 4" using a by (auto simp: resource_ok_def unat_of_nat)
  have d0: "drop f mem = native_to_big 2 (0xc00c :: u16) @ native_to_big 2 (rs_type a) @ native_to_big 2 (rs_cls a) @
      rs_ttl a @ native_to_big 2 ?n @ rs_data a @ rest" using d by (simp add: enc_resource_def)
  have d2: "drop (f + 2) mem = native_to_big 2 (rs_type a) @ native_to_big 2 (rs_cls a) @ rs_ttl a @ native_to_big 2 ?n @ rs_data a @ rest"
    by (rule drop_to [OF d0]) simp
  have d4: "drop (f + 4) mem = native_to_big 2 (rs_cls a) @ rs_ttl a @ native_to_big 2 ?n @ rs_data a @ rest"
    by (rule drop_to [OF d2]) simp
  have d10: "drop (f + 10) mem = native_to_big 2 ?n @ rs_data a @ rest"
    by (rule drop_to [OF drop_to [OF d4 refl]]) (simp add: len)
  have d12: "drop (f + 12) mem = rs_data a @ rest" by (rule drop_to [OF d10]) simp
  have el: "length (enc_resource a) = 12 + length (rs_data a)" using len by (simp add: enc_resource_def)
  have "mem_bytes mem (f + 12) (length (rs_data a)) = Got (rs_data a)"
    using d12 l m el by (simp add: mem_bytes_def slice_of_def)
  moreover have "\<not> payload_len < f + 12 + length (rs_data a)" using l el by simp
  ultimately show ?thesis using mem16_at [OF d2] mem16_at [OF d4] mem16_at [OF d10] a len(1)
    by (auto simp: answer_fields_def answer_of_def Let_def resource_ok_def)
qed

lemma answer_list_resources:
  assumes name: "dns_parse_name mem 12 payload_len = Some (Got (0, nm))" and m: "payload_len \<le> length mem"
  shows "\<forall>a\<in>set as. resource_ok a \<Longrightarrow> drop f mem = concat (map enc_resource as) @ rest \<Longrightarrow>
    f + length (concat (map enc_resource as)) \<le> payload_len \<Longrightarrow>
    parse_answer_list mem payload_len (length as) f acc = Some (Got (0, acc @ map answer_of as))"
proof (induction as arbitrary: f acc)
  case (Cons a as)
  have a: "resource_ok a" using Cons.prems(1) by simp
  have d: "drop f mem = enc_resource a @ concat (map enc_resource as) @ rest" using Cons.prems(2) by simp
  then have nm: "mem16 mem f = Got 0xc00c" by (intro mem16_at) (simp add: enc_resource_def)
  have an: "answer_name mem payload_len f 0xc00c = Some (Got (0, 0))"
    using name by (simp add: answer_name_def)
  have fl: "answer_fields mem payload_len f 0xc00c = Got (Some (answer_of a))"
    by (rule answer_fields_resource [OF a d _ m]) (use Cons.prems(3) in simp)
  have el: "length (enc_resource a) = 12 + unat (an_datalen (answer_of a))"
    using a by (simp add: enc_resource_def answer_of_def resource_ok_def unat_of_nat)
  have "parse_answer_list mem payload_len (length as) (f + length (enc_resource a)) (acc @ [answer_of a]) =
      Some (Got (0, (acc @ [answer_of a]) @ map answer_of as))"
    by (rule Cons.IH) (use Cons.prems drop_to [OF d refl] in auto)
  with nm an fl show ?case by (simp add: el)
qed simp

text \<open>Reads of a message as it was received, at the front of a buffer.\<close>

lemma response_name:
  assumes ls: "\<forall>l\<in>set ls. label_ok l" "length (enc_labels ls) \<le> 255" and fx: "length flags = 2" "length authority = 4"
    and msg: "msg = enc_response txid flags ls qtype as authority"
  shows "dns_parse_name (msg @ junk) 12 (length msg) = Some (Got (0, dotted ls))"
proof -
  let ?mem = "msg @ junk" and ?n = "length msg"
  have d12: "drop 12 ?mem = enc_name ls @ qtype @ concat (map enc_resource as) @ junk"
    by (simp add: msg enc_response_def fx)
  have "12 + length (enc_name ls) \<le> ?n" by (simp add: msg enc_response_def fx)
  moreover from this have "dns_name_loop ?mem ?n 12 12 (dotted []) = Some (Got (0, dotted ([] @ ls)))"
    by (intro name_loop_labels [OF _ _ _ ls(1) d12]) (use ls(2) in simp_all)
  ultimately show ?thesis by (auto simp: dns_parse_name_def enc_name_def)
qed

lemma response_parsed:
  assumes ls: "\<forall>l\<in>set ls. label_ok l" "length (enc_labels ls) \<le> 255" and as: "\<forall>a\<in>set as. resource_ok a" "length as < 65536"
    and fx: "length flags = 2" "length authority = 4" "length qtype = 4"
    and msg: "msg = enc_response txid flags ls qtype as authority"
  shows "dns_parse_answers (msg @ junk) (length msg) = Some (Got (0, map answer_of as))"
proof -
  let ?mem = "msg @ junk" and ?n = "length msg"
  let ?tail = "enc_name ls @ qtype @ concat (map enc_resource as) @ junk"
  have d0: "drop 0 ?mem = native_to_big 2 txid @ flags @ native_to_big 2 (1 :: u16) @
      native_to_big 2 (word_of_nat (length as) :: u16) @ authority @ ?tail" by (simp add: msg enc_response_def)
  have d4: "drop 4 ?mem = native_to_big 2 (1 :: u16) @ native_to_big 2 (word_of_nat (length as) :: u16) @ authority @ ?tail"
    by (rule drop_to [OF drop_to [OF d0 refl]]) (simp add: fx)
  have d6: "drop 6 ?mem = native_to_big 2 (word_of_nat (length as) :: u16) @ authority @ ?tail"
    by (rule drop_to [OF d4]) simp
  have d12: "drop 12 ?mem = enc_name ls @ qtype @ concat (map enc_resource as) @ junk"
    by (rule drop_to [OF drop_to [OF d6 refl]]) (simp add: fx)
  have len: "?n = 12 + length (enc_name ls) + 4 + length (concat (map enc_resource as))"
    by (simp add: msg enc_response_def fx)
  have name: "dns_parse_name ?mem 12 ?n = Some (Got (0, dotted ls))" by (rule response_name [OF ls fx(1,2) msg])
  have sk: "skip_name ?mem 12 0 (?n - 12) = Got (Some (length (enc_name ls)))"
    using skip_name_labels [of ls 12 0 ?mem _ "?n - 12"] ls(1) d12 len by simp
  have da: "drop (12 + (length (enc_name ls) + 4)) ?mem = concat (map enc_resource as) @ junk"
    by (rule drop_to [OF drop_to [OF d12 refl]]) (simp add: fx)
  have "parse_answer_list ?mem ?n (length as) (12 + (length (enc_name ls) + 4)) [] = Some (Got (0, [] @ map answer_of as))"
    by (rule answer_list_resources [OF name _ as(1) da]) (use len in simp_all)
  moreover have "unat (word_of_nat (length as) :: u16) = length as" using as(2) by (simp add: unat_of_nat)
  moreover have "skip_questions ?mem (Suc 0) 12 (?n - 12) = Got (Some (12 + (length (enc_name ls) + 4)))"
    using sk len by simp
  moreover have "\<not> ?n < 12" using len by simp
  ultimately show ?thesis using mem16_at [OF d0] mem16_at [OF d4] mem16_at [OF d6]
    by (simp add: dns_parse_answers_def del: skip_questions.simps)
qed

subsection \<open>Properties\<close>

text \<open>C23: DNS names and answers are read back.  From every response to one question, with a name of up
  to 255 bytes and any A, AAAA and CNAME answers that refer to it, the parser returns 0 and exactly these
  answers, whatever the buffer holds behind the message, and the name parser returns the dotted name of
  the question.\<close>

theorem dns_response_roundtrip:
  assumes "\<forall>l\<in>set ls. label_ok l" "length (enc_labels ls) \<le> 255" "\<forall>a\<in>set as. resource_ok a" "length as < 65536"
    and "length flags = 2" "length authority = 4" "length qtype = 4"
    and "msg = enc_response txid flags ls qtype as authority"
  shows "dns_parse_answers (msg @ junk) (length msg) = Some (Got (0, map answer_of as)) \<and>
    dns_parse_name (msg @ junk) 12 (length msg) = Some (Got (0, dotted ls))"
  using response_parsed [OF assms] response_name [OF assms(1,2,5,6,8)] by blast

theorem dns_response_roundtrip_witness:
  "dns_parse_answers (enc_response 7 [129, 128] [[97], [105, 111]] [0, 1, 0, 1] [\<lparr>rs_type = 1, rs_cls = 1, rs_ttl = [0, 0, 0, 60], rs_data = [1, 2, 3, 4]\<rparr>] [0, 0, 0, 0] @ [9])
     (length (enc_response 7 [129, 128] [[97], [105, 111]] [0, 1, 0, 1] [\<lparr>rs_type = 1, rs_cls = 1, rs_ttl = [0, 0, 0, 60], rs_data = [1, 2, 3, 4]\<rparr>] [0, 0, 0, 0])) =
   Some (Got (0, [answer_of \<lparr>rs_type = 1, rs_cls = 1, rs_ttl = [0, 0, 0, 60], rs_data = [1, 2, 3, 4]\<rparr>]))"
  using dns_response_roundtrip [where ls = "[[97], [105, 111]]" and junk = "[9]" and flags = "[129, 128]" and authority = "[0, 0, 0, 0]" and
      qtype = "[0, 1, 0, 1]" and txid = 7 and as = "[\<lparr>rs_type = 1, rs_cls = 1, rs_ttl = [0, 0, 0, 60], rs_data = [1, 2, 3, 4]\<rparr>]", OF _ _ _ _ _ _ _ refl]
  by (simp add: label_ok_def resource_ok_def)

text \<open>A name that points to itself is never parsed.  For a message whose name at some offset is a
  compression pointer back to this offset the name parser does not return, so that one datagram
  of 14 bytes stops the whole process.\<close>

theorem dns_pointer_cycle:
  assumes "mem ! off AND 0xc0 = 0xc0" "mem ! (off + 1) = word_of_nat off" "off + 1 < length mem" "0 < off" "off < 256" "off < payload_len"
  shows "dns_parse_name mem off payload_len = None"
  using name_loop_cycle [of mem off "mem ! off" payload_len] assms by (simp add: dns_parse_name_def mem8_def)

theorem dns_pointer_cycle_witness:
  "dns_parse_name [0, 7, 1, 0, 0, 1, 0, 0, 0, 0, 0, 0, 0xc0, 12] 12 14 = None"
  by (rule dns_pointer_cycle) simp_all

text \<open>Connecting through an HTTP proxy.  When the proxy's answer has an end, however the network cuts it,
  the call returns, and it succeeds exactly if the answer begins with a 2xx status line; when the proxy
  closes before the end of its head, the connection counts as refused.\<close>

theorem http_proxy_connect:
  assumes "live_connection rd pend ok" and sw: "\<forall>a b. starts_with a b \<longleftrightarrow> take (length b) a = b"
    and "wr s (proxy_request host port) = (0, s1)" "ok s1" "connect e = Inr s" "0 < length buf"
  shows "\<exists>s2. connect_remote_via_http_proxy starts_with rd wr (0, e # es) connect buf host port =
    Some (case find_sub (crlf @ crlf) (pend s1) of
        None \<Rightarrow> connection_refused
      | Some n \<Rightarrow> if take 10 (take n (pend s1)) \<in> {str ''HTTP/1.1 2'', str ''HTTP/1.0 2''} then 0 else connection_refused, Some s2)"
proof -
  have "crlf @ crlf \<noteq> []" by (simp add: crlf_def)
  from live_connection.read_until_live [OF assms(1) this assms(4), of 0 buf] assms(6)
  obtain buf' n' s' where r: "read_until rd s1 buf 0 (crlf @ crlf) =
      Some (case find_sub (crlf @ crlf) (pend s1) of Some i \<Rightarrow> int i | None \<Rightarrow> - 1, buf', n', s')"
    "n' \<le> length buf'" "take n' buf' @ pend s' = pend s1" by auto
  show ?thesis
  proof (cases "find_sub (crlf @ crlf) (pend s1)")
    case None
    with r assms(3,5) show ?thesis by (simp add: connect_remote_via_http_proxy_def resolve_endpoint_def)
  next
    case (Some n)
    have "take n buf' = take n (pend s1)" if "n \<le> n'" using r(2) that by (simp add: r(3) [symmetric])
    moreover have "n \<le> n'" using read_until_found [OF r(1)] Some find_sub_SomeD [of "crlf @ crlf" "take n' buf'"] by auto
    moreover have "length (str ''HTTP/1.1 2'') = 10" "length (str ''HTTP/1.0 2'') = 10" by (simp_all add: str_def)
    ultimately show ?thesis using r(1) assms(3,5) Some sw by (simp add: connect_remote_via_http_proxy_def resolve_endpoint_def Let_def del: take_take)
  qed
qed

theorem http_proxy_connect_witness:
  "\<exists>s2. connect_remote_via_http_proxy (\<lambda>a b. take (length b) a = b) script_read (\<lambda>s bs. (0, s)) (0, [()])
     (\<lambda>e. Inr [str ''HTTP/1.'', str ''1 200 OK'' @ crlf, crlf]) (replicate 8448 0) (str ''h'') 80 = Some (0, Some s2)"
proof -
  let ?s = "[str ''HTTP/1.'', str ''1 200 OK'' @ crlf, crlf]"
  have f: "find_sub (crlf @ crlf) (concat ?s) = Some 15" by (simp add: str_def crlf_def)
  have t: "take 10 (take 15 (concat ?s)) = str ''HTTP/1.1 2''" by (simp add: str_def)
  show ?thesis
    using http_proxy_connect [where starts_with = "\<lambda>a b. take (length b) a = b" and wr = "\<lambda>s bs. (0, s)" and s = ?s and ?s1.0 = ?s and
        connect = "\<lambda>e. Inr ?s" and e = "()" and es = "[]" and buf = "replicate 8448 0" and host = "str ''h''" and port = 80,
        OF scripted.live_connection_axioms] f t by simp
qed

end
