(* ===== verification/Dns_Proxy.thy ===== *)
theory Dns_Proxy
  imports Net_Helper
begin

text \<open>
  \<^verbatim>\<open>snova/util/dns_options.cc\<close> and \<^verbatim>\<open>snova/server/dns_proxy_server.cc\<close>: a DNS proxy that asks a default
  server first and a trusted server, over TLS or HTTPS, for the domains and answers it does not want to
  get from the default one.  The state is the table of pending queries by transaction id with the timers
  that drop them; what goes out to clients and servers is logged in order.  Sockets, the TLS
  connection, Base64, string search, number parsing and the address ranges of asio are parameters.  A
  transaction id is the pair of bytes it is copied from.
\<close>

subsection \<open>Options\<close>

text \<open>
  \<^verbatim>\<open>ip_range_map\<close>: an ordered map from network addresses, as a list sorted by key; \<open>in_range\<close> is
  \<^verbatim>\<open>address_v4_range::find\<close>.
\<close>

type_synonym 'r ip_range_map = "(u32 \<times> 'r) list"

fun ip_range_emplace :: "u32 \<Rightarrow> 'r \<Rightarrow> 'r ip_range_map \<Rightarrow> 'r ip_range_map option" where
  "ip_range_emplace k r [] = Some [(k, r)]"
| "ip_range_emplace k r ((k', r') # m) =
     (if k < k' then Some ((k, r) # (k', r') # m)
      else if k = k' then None
      else map_option ((#) (k', r')) (ip_range_emplace k r m))"

text \<open>The loop over the lines: \<open>make_network\<close> reads one; a line it cannot read throws, \<open>None\<close>.  A file that cannot be opened is \<open>None\<close>.\<close>

fun load_ip_ranges ::
  "(bytes \<Rightarrow> bytes) \<Rightarrow> (bytes \<Rightarrow> (u32 \<times> 'r) option) \<Rightarrow> bytes list \<Rightarrow> 'r ip_range_map \<Rightarrow> (bool \<times> 'r ip_range_map) option" where
  "load_ip_ranges strip make_network [] m = Some (True, m)"
| "load_ip_ranges strip make_network (line # lines) m =
     (case make_network (strip line) of
        None \<Rightarrow> None
      | Some (network, r) \<Rightarrow>
          (case ip_range_emplace network r m of
             None \<Rightarrow> Some (False, m)
           | Some m' \<Rightarrow> load_ip_ranges strip make_network lines m'))"

definition LoadIPRangeFromFile ::
  "(bytes \<Rightarrow> bytes) \<Rightarrow> (bytes \<Rightarrow> (u32 \<times> 'r) option) \<Rightarrow> bytes list option \<Rightarrow> 'r ip_range_map \<Rightarrow> (bool \<times> 'r ip_range_map) option" where
  "LoadIPRangeFromFile strip make_network input m =
     (case input of None \<Rightarrow> Some (False, m) | Some lines \<Rightarrow> load_ip_ranges strip make_network lines m)"

text \<open>The number of keys up to \<open>ip\<close>: the position of \<^verbatim>\<open>upper_bound\<close>.\<close>

definition upper_bound :: "u32 \<Rightarrow> 'r ip_range_map \<Rightarrow> nat" where
  "upper_bound ip m = length (takeWhile (\<lambda>e. fst e \<le> ip) m)"

definition MatchIPRanges :: "('r \<Rightarrow> u32 \<Rightarrow> bool) \<Rightarrow> 'r ip_range_map \<Rightarrow> u32 \<Rightarrow> bool" where
  "MatchIPRanges in_range ip_range_map ip =
     (let found = upper_bound ip ip_range_map in
      if found = length ip_range_map then False
      else if found = 0 then False
      else in_range (snd (ip_range_map ! (found - 1))) ip)"

record 'r DNSOptions =
  do_default_ns :: NetAddress
  do_trusted_ns :: NetAddress
  do_trusted_ns_domains :: "bytes list"
  do_ip_range_map :: "'r ip_range_map"

text \<open>\<open>Init\<close> resolves the default server, then the trusted one twice.\<close>

definition DNSOptions_Init :: "(int + 'e) \<Rightarrow> (int + 'e) \<Rightarrow> (int + 'e) \<Rightarrow> int + ('e \<times> 'e \<times> 'e)" where
  "DNSOptions_Init default_ns trusted_udp trusted_tcp =
     (case default_ns of Inl ec \<Rightarrow> Inl ec | Inr d \<Rightarrow>
      case trusted_udp of Inl ec \<Rightarrow> Inl ec | Inr u \<Rightarrow>
      case trusted_tcp of Inl ec \<Rightarrow> Inl ec | Inr t \<Rightarrow> Inr (d, u, t))"

subsection \<open>State\<close>

record 'e DNSProxyState =
  ds_orig_endpoint :: 'e
  ds_orig_payload :: bytes
  ds_timer :: nat
  ds_disable_default_ns :: bool
  ds_disable_trusted_ns :: bool

text \<open>\<open>timers\<close> maps the tasks of the time wheel that have not run to the transaction they would drop.\<close>

record 'e dns_world =
  g_dns_states :: "bytes \<rightharpoonup> 'e DNSProxyState"
  timers :: "nat \<rightharpoonup> bytes"
  next_timer :: nat
  trusted_up :: bool
  to_client :: "('e \<times> bytes) list"
  to_default :: "bytes list"
  to_trusted :: "bytes list"

record 'r dns_libs =
  dl_in_range :: "'r \<Rightarrow> u32 \<Rightarrow> bool"
  dl_contains :: "bytes \<Rightarrow> bytes \<Rightarrow> bool"
  dl_web_base64 :: "bytes \<Rightarrow> bytes"
  dl_strip :: "bytes \<Rightarrow> bytes"
  dl_atoi :: "bytes \<Rightarrow> u32 option"

subsection \<open>Responses and the trusted server\<close>

definition dns_response :: "bytes \<Rightarrow> bytes \<Rightarrow> 'e dns_world \<Rightarrow> 'e dns_world" where
  "dns_response txid payload W =
     (case g_dns_states W txid of
        None \<Rightarrow> W
      | Some state \<Rightarrow> W\<lparr>timers := (timers W)(ds_timer state := None),
          g_dns_states := (g_dns_states W)(txid := None),
          to_client := to_client W @ [(ds_orig_endpoint state, payload)]\<rparr>)"

definition dot_packet :: "bytes \<Rightarrow> bytes" where
  "dot_packet payload = native_to_big 2 (word_of_nat (length payload) :: u16) @ payload"

definition doh_request :: "(bytes \<Rightarrow> bytes) \<Rightarrow> NetAddress \<Rightarrow> bytes \<Rightarrow> bytes" where
  "doh_request web_base64 ns payload =
     str ''GET /'' @ addr_path ns @ str ''?dns='' @ web_base64 payload @ str '' HTTP/1.1'' @ crlf @
     str ''Host: '' @ addr_host ns @ crlf @ str ''Accept: application/dns-message'' @ crlf @ crlf"

text \<open>The error code of the write, which the callers ignore, is not returned.\<close>

definition dns_over_trusted :: "'r dns_libs \<Rightarrow> 'r DNSOptions \<Rightarrow> bytes \<Rightarrow> 'e dns_world \<Rightarrow> 'e dns_world" where
  "dns_over_trusted D opts payload W =
     (if \<not> trusted_up W then W
      else if addr_schema (do_trusted_ns opts) = str ''dot''
      then W\<lparr>to_trusted := to_trusted W @ [dot_packet payload]\<rparr>
      else if addr_schema (do_trusted_ns opts) = str ''doh''
      then W\<lparr>to_trusted := to_trusted W @ [doh_request (dl_web_base64 D) (do_trusted_ns opts) payload]\<rparr>
      else W)"

subsection \<open>Queries\<close>

text \<open>Whether the query goes past the default server; \<open>None\<close> if the name is never parsed.\<close>

definition query_disables_default :: "'r dns_libs \<Rightarrow> 'r DNSOptions \<Rightarrow> bytes \<Rightarrow> nat \<Rightarrow> bool access option" where
  "query_disables_default D opts buffer query_len =
     map_option (\<lambda>r. case r of
         Fault \<Rightarrow> Fault
       | Got (rc, parsed_domain) \<Rightarrow>
           Got (rc = 0 \<and> list_ex (dl_contains D parsed_domain) (do_trusted_ns_domains opts)))
       (dns_parse_name buffer 12 query_len)"

text \<open>\<^verbatim>\<open>emplace\<close> leaves an entry that is there.\<close>

definition add_query :: "bytes \<Rightarrow> 'e DNSProxyState \<Rightarrow> 'e dns_world \<Rightarrow> 'e dns_world" where
  "add_query txid state W =
     W\<lparr>timers := (timers W)(next_timer W \<mapsto> txid), next_timer := next_timer W + 1,
       g_dns_states := (case g_dns_states W txid of
          None \<Rightarrow> (g_dns_states W)(txid \<mapsto> state\<lparr>ds_timer := next_timer W\<rparr>) | Some _ \<Rightarrow> g_dns_states W)\<rparr>"

definition handle_dns_query ::
  "'r dns_libs \<Rightarrow> 'r DNSOptions \<Rightarrow> 'e \<Rightarrow> bytes \<Rightarrow> nat \<Rightarrow> 'e dns_world \<Rightarrow> 'e dns_world access option" where
  "handle_dns_query D opts src_endpoint buffer query_len W =
     (let txid = take 2 buffer; query = take query_len buffer in
      map_option (\<lambda>r. case r of
          Fault \<Rightarrow> Fault
        | Got disable_default_ns \<Rightarrow>
            let state = \<lparr>ds_orig_endpoint = src_endpoint,
                  ds_orig_payload = (if \<not> disable_default_ns then query else []), ds_timer = 0,
                  ds_disable_default_ns = disable_default_ns, ds_disable_trusted_ns = False\<rparr>;
                W1 = add_query txid state W
            in Got (if \<not> disable_default_ns then W1\<lparr>to_default := to_default W1 @ [query]\<rparr>
                    else dns_over_trusted D opts query W1))
        (query_disables_default D opts buffer query_len))"

text \<open>
  One round of \<^verbatim>\<open>server_loop\<close>: a datagram of a client, or the error of the receive, which is only logged.
  A handler that is spawned runs up to its first suspension, which is its last effect on the state.
\<close>

definition server_loop_round ::
  "'r dns_libs \<Rightarrow> 'r DNSOptions \<Rightarrow> int + ('e \<times> bytes \<times> nat) \<Rightarrow> 'e dns_world \<Rightarrow> 'e dns_world access option" where
  "server_loop_round D opts received W =
     (case received of
        Inl ec \<Rightarrow> Some (Got W)
      | Inr (endpoint, buffer, n) \<Rightarrow> handle_dns_query D opts endpoint buffer n W)"

text \<open>The callback of the time wheel.\<close>

definition query_timeout :: "nat \<Rightarrow> 'e dns_world \<Rightarrow> 'e dns_world" where
  "query_timeout t W =
     (case timers W t of
        None \<Rightarrow> W
      | Some txid \<Rightarrow> W\<lparr>timers := (timers W)(t := None), g_dns_states := (g_dns_states W)(txid := None)\<rparr>)"

subsection \<open>Answers of the default server\<close>

definition v4_of :: "bytes \<Rightarrow> u32" where
  "v4_of ip = big_to_native ip"

definition answers_match :: "'r dns_libs \<Rightarrow> 'r DNSOptions \<Rightarrow> DNSAnswer list \<Rightarrow> bool" where
  "answers_match D opts answers =
     list_ex (\<lambda>a. DNSAnswer_IsV4 a \<and> MatchIPRanges (dl_in_range D) (do_ip_range_map opts) (v4_of (an_v4_ip a))) answers"

text \<open>One round of \<^verbatim>\<open>default_ns_loop\<close> behind a receive of \<open>n\<close> bytes into \<open>buffer\<close>.\<close>

definition default_ns_answer ::
  "'r dns_libs \<Rightarrow> 'r DNSOptions \<Rightarrow> bytes \<Rightarrow> nat \<Rightarrow> 'e dns_world \<Rightarrow> 'e dns_world access option" where
  "default_ns_answer D opts buffer n W =
     (let txid = take 2 buffer in
      map_option (\<lambda>r. case r of
          Fault \<Rightarrow> Fault
        | Got (rc, answers) \<Rightarrow>
            Got (if rc = 0 \<and> \<not> answers_match D opts answers
                 then case g_dns_states W txid of
                     None \<Rightarrow> dns_response txid (take n buffer) W
                   | Some state \<Rightarrow>
                       if \<not> ds_disable_trusted_ns state \<and> ds_orig_payload state \<noteq> []
                       then dns_over_trusted D opts (ds_orig_payload state) W
                       else dns_response txid (take n buffer) W
                 else dns_response txid (take n buffer) W))
        (dns_parse_answers buffer n))"

text \<open>A round of the loop, over what the receive answered.\<close>

definition default_ns_round ::
  "'r dns_libs \<Rightarrow> 'r DNSOptions \<Rightarrow> int + (bytes \<times> nat) \<Rightarrow> 'e dns_world \<Rightarrow> 'e dns_world access option" where
  "default_ns_round D opts received W =
     (case received of Inl ec \<Rightarrow> Some (Got W) | Inr (buffer, n) \<Rightarrow> default_ns_answer D opts buffer n W)"

subsection \<open>Answers of the trusted server\<close>

text \<open>\<^verbatim>\<open>int\<close> from a wider number.\<close>

definition to_int32 :: "int \<Rightarrow> int" where
  "to_int32 n = sint (word_of_int n :: u32)"

text \<open>
  What the bytes read so far say: wait for more, give the connection up, or the number of bytes
  missing, the offset and length of the answer and the length of the whole.
\<close>

datatype trusted_head = Wait | GiveUp | Answer int nat u16 nat

definition doh_head :: "'r dns_libs \<Rightarrow> bytes \<Rightarrow> nat \<Rightarrow> trusted_head" where
  "doh_head D buffer buffer_pos =
     (let dns_res_view = take buffer_pos buffer in
      case find_sub (crlf @ crlf) dns_res_view of
        None \<Rightarrow> Wait
      | Some hend_pos \<Rightarrow>
          let dns_res_headers_view = take hend_pos buffer in
          if find_sub (str ''HTTP/1.1 200 OK'') dns_res_headers_view = None then GiveUp
          else case http_get_header (dl_strip D) dns_res_headers_view (str ''Content-Length:'') of
              (rc, None) \<Rightarrow> GiveUp
            | (rc, Some content_length) \<Rightarrow>
                (case dl_atoi D content_length of
                   None \<Rightarrow> GiveUp
                 | Some content_len \<Rightarrow>
                     let expect_len = to_int32 (int hend_pos + 4 + uint content_len) in
                     Answer (to_int32 (expect_len - int buffer_pos)) (hend_pos + 4) (ucast content_len)
                       (unat (ucast content_len :: u16) + hend_pos + 4)))"

definition dot_head :: "bytes \<Rightarrow> nat \<Rightarrow> trusted_head" where
  "dot_head buffer buffer_pos =
     (if buffer_pos < 12 then Wait
      else let answer_len = big_to_native (take 2 buffer) :: u16 in
        Answer (to_int32 (uint answer_len + 2 - int buffer_pos)) 2 answer_len (unat answer_len + 2))"

text \<open>
  Behind a read that left \<open>buffer_pos\<close> bytes in the buffer.  The missing bytes are read into the
  buffer without a look at its size: a write behind its end is \<open>Fault\<close>.  The result is whether the
  connection is kept, the buffer, the position and the world.
\<close>

definition trusted_ns_answer ::
  "'s reader \<Rightarrow> trusted_head \<Rightarrow> 's \<Rightarrow> bytes \<Rightarrow> nat \<Rightarrow> 'e dns_world \<Rightarrow>
     (bool \<times> 's \<times> bytes \<times> nat \<times> 'e dns_world) access option" where
  "trusted_ns_answer rd head s buffer buffer_pos W =
     (case head of
        Wait \<Rightarrow> Some (Got (True, s, buffer, buffer_pos, W))
      | GiveUp \<Rightarrow> Some (Got (False, s, buffer, buffer_pos, W))
      | Answer dns_res_rest answer_offset answer_len answer_chunk_len \<Rightarrow>
          let deliver = (\<lambda>s buffer buffer_pos.
                if length buffer < answer_offset + unat answer_len then Some Fault
                else let W1 = dns_response (slice_of answer_offset 2 buffer) (slice_of answer_offset (unat answer_len) buffer) W in
                  if answer_chunk_len < buffer_pos
                  then Some (Got (True, s, blit 0 (slice_of answer_chunk_len (buffer_pos - answer_chunk_len) buffer) buffer,
                         buffer_pos - answer_chunk_len, W1))
                  else Some (Got (True, s, buffer, 0, W1)))
          in if 0 < dns_res_rest
             then if length buffer < buffer_pos + nat dns_res_rest then Some Fault
                  else (case read_exact rd s (nat dns_res_rest) [] of
                          None \<Rightarrow> None
                        | Some (bs, ec, s1) \<Rightarrow>
                            if ec \<noteq> 0 then Some (Got (False, s1, blit buffer_pos bs buffer, buffer_pos, W))
                            else deliver s1 (blit buffer_pos bs buffer) (buffer_pos + nat dns_res_rest))
             else deliver s buffer buffer_pos)"

text \<open>One round of \<^verbatim>\<open>trusted_ns_loop\<close> on a connection: a read, then the answer.\<close>

definition trusted_ns_round ::
  "'r dns_libs \<Rightarrow> 'r DNSOptions \<Rightarrow> 's reader \<Rightarrow> 's \<Rightarrow> bytes \<Rightarrow> nat \<Rightarrow> 'e dns_world \<Rightarrow>
     (bool \<times> 's \<times> bytes \<times> nat \<times> 'e dns_world) access option" where
  "trusted_ns_round D opts rd s buffer buffer_pos W =
     (case rd s (length buffer - buffer_pos) of (bs, rec, s1) \<Rightarrow>
        if rec \<noteq> 0 \<or> length bs = 0 then Some (Got (False, s1, buffer, buffer_pos, W\<lparr>trusted_up := False\<rparr>))
        else let buffer1 = blit buffer_pos bs buffer; buffer_pos1 = buffer_pos + length bs;
                 head = (if addr_schema (do_trusted_ns opts) = str ''doh'' then doh_head D buffer1 buffer_pos1
                         else dot_head buffer1 buffer_pos1)
             in map_option (\<lambda>r. case r of
                    Fault \<Rightarrow> Fault
                  | Got (keep, s2, buffer2, buffer_pos2, W1) \<Rightarrow>
                      Got (keep, s2, buffer2, buffer_pos2, if keep then W1 else W1\<lparr>trusted_up := False\<rparr>))
                (trusted_ns_answer rd head s1 buffer1 buffer_pos1 W))"

text \<open>The head of a round: a connection that was given up is made again.\<close>

definition trusted_ns_connect :: "int + 's \<Rightarrow> 's \<Rightarrow> nat \<Rightarrow> 'e dns_world \<Rightarrow> 's \<times> nat \<times> 'e dns_world" where
  "trusted_ns_connect connected s buffer_pos W =
     (if trusted_up W then (s, buffer_pos, W)
      else case connected of Inl ec \<Rightarrow> (s, buffer_pos, W) | Inr s1 \<Rightarrow> (s1, 0, W\<lparr>trusted_up := True\<rparr>))"

text \<open>Starting: the first error code, or 0 with the three loops running.\<close>

definition start_dns_proxy_server ::
  "(int + 'a) \<Rightarrow> (int + 'b) \<Rightarrow> int \<Rightarrow> int \<Rightarrow> int" where
  "start_dns_proxy_server init resolved bind_ec connect_ec =
     (case init of Inl ec \<Rightarrow> ec | Inr _ \<Rightarrow>
      case resolved of Inl resolve_ec \<Rightarrow> resolve_ec | Inr _ \<Rightarrow>
      if bind_ec \<noteq> 0 then bind_ec else connect_ec)"

subsection \<open>Ranges\<close>

definition ranges_sorted :: "'r ip_range_map \<Rightarrow> bool" where
  "ranges_sorted m \<longleftrightarrow> sorted_wrt (<) (map fst m)"

lemma emplace_sorted:
  "ip_range_emplace k r m = Some m' \<Longrightarrow> ranges_sorted m \<Longrightarrow> ranges_sorted m' \<and> set m' = insert (k, r) (set m)"
proof (induction m arbitrary: m')
  case (Cons e m)
  obtain k' r' where e: "e = (k', r')" by fastforce
  show ?case
  proof (cases "k < k'")
    case True
    have "\<forall>x\<in>set m. k' < fst x" using Cons.prems(2) e by (simp add: ranges_sorted_def)
    then have "\<forall>x\<in>set m. k < fst x" using True order.strict_trans by blast
    with True Cons.prems e show ?thesis by (auto simp: ranges_sorted_def)
  next
    case False
    with Cons.prems(1) e obtain m1 where m1: "ip_range_emplace k r m = Some m1" "m' = (k', r') # m1" "k' < k"
      by (auto split: if_splits)
    with Cons.IH Cons.prems(2) e show ?thesis by (auto simp: ranges_sorted_def)
  qed
qed (simp add: ranges_sorted_def)

lemma load_sorted:
  "load_ip_ranges strip mk lines m = Some (ok, m') \<Longrightarrow> ranges_sorted m \<Longrightarrow> ranges_sorted m'"
proof (induction lines arbitrary: m)
  case (Cons l lines)
  obtain k r where mk: "mk (strip l) = Some (k, r)" using Cons.prems(1) by (auto split: option.splits)
  show ?case
  proof (cases "ip_range_emplace k r m")
    case None
    with mk Cons.prems show ?thesis by simp
  next
    case (Some m1)
    have "ranges_sorted m1" using emplace_sorted [OF Some Cons.prems(2)] by simp
    with Cons.IH [of m1] mk Some Cons.prems(1) show ?thesis by simp
  qed
qed simp

lemma upper_bound_split:
  assumes "ranges_sorted m" "i < length m"
  shows "i < upper_bound ip m \<longleftrightarrow> fst (m ! i) \<le> ip"
proof -
  have mono: "fst (m ! j) \<le> fst (m ! i)" if "j \<le> i" for j
  proof (cases "j = i")
    case False
    with that assms have "map fst m ! j < map fst m ! i"
      unfolding ranges_sorted_def by (intro sorted_wrt_nth_less [of "(<)" "map fst m" j i]) auto
    with that assms(2) show ?thesis by simp
  qed simp
  show ?thesis
  proof
    assume "i < upper_bound ip m"
    then show "fst (m ! i) \<le> ip"
      unfolding upper_bound_def using nth_mem set_takeWhileD takeWhile_nth by (metis (no_types, lifting))
  next
    assume "fst (m ! i) \<le> ip"
    then have "\<forall>j\<le>i. fst (m ! j) \<le> ip" using mono by force
    then show "i < upper_bound ip m" unfolding upper_bound_def
      using assms(2) by (metis (mono_tags, lifting) less_le_not_le linorder_not_less nth_length_takeWhile order.strict_trans1)
  qed
qed

subsection \<open>Pending queries\<close>

definition dns_world_init :: "'e dns_world" where
  "dns_world_init = \<lparr>g_dns_states = Map.empty, timers = Map.empty, next_timer = 0, trusted_up = True,
     to_client = [], to_default = [], to_trusted = []\<rparr>"

text \<open>
  Whatever reaches the proxy, in any order: queries, answers of both servers of at least two bytes, and
  timeouts.  \<open>acc\<close> lists the queries that were taken into the table.
\<close>

inductive dns_runs ::
  "'r dns_libs \<Rightarrow> 'r DNSOptions \<Rightarrow> (bytes \<times> 'e) list \<Rightarrow> 'e dns_world \<Rightarrow> bool" for D opts where
  init: "dns_runs D opts [] dns_world_init"
| query: "dns_runs D opts acc W \<Longrightarrow> server_loop_round D opts (Inr (src, buffer, n)) W = Some (Got W') \<Longrightarrow>
    dns_runs D opts (if g_dns_states W (take 2 buffer) = None then acc @ [(take 2 buffer, src)] else acc) W'"
| default_answer: "dns_runs D opts acc W \<Longrightarrow> 2 \<le> n \<Longrightarrow> default_ns_round D opts (Inr (buffer, n)) W = Some (Got W') \<Longrightarrow> dns_runs D opts acc W'"
| trusted_answer: "dns_runs D opts acc W \<Longrightarrow> 2 \<le> length payload \<Longrightarrow> dns_runs D opts acc (dns_response (take 2 payload) payload W)"
| failed: "dns_runs D opts acc W \<Longrightarrow> server_loop_round D opts (Inl ec) W = Some (Got W') \<or> default_ns_round D opts (Inl ec) W = Some (Got W') \<Longrightarrow>
    dns_runs D opts acc W'"
| timed_out: "dns_runs D opts acc W \<Longrightarrow> dns_runs D opts acc (query_timeout t W)"
| trusted_change: "dns_runs D opts acc W \<Longrightarrow> dns_runs D opts acc (W\<lparr>trusted_up := b\<rparr>)"

definition client_key :: "'e \<times> bytes \<Rightarrow> bytes \<times> 'e" where
  "client_key c = (take 2 (snd c), fst c)"

definition pending_from :: "bytes \<Rightarrow> 'e \<Rightarrow> 'e dns_world \<Rightarrow> nat" where
  "pending_from t e W = (case g_dns_states W t of None \<Rightarrow> 0 | Some st \<Rightarrow> if ds_orig_endpoint st = e then 1 else 0)"

definition balanced :: "(bytes \<times> 'e) list \<Rightarrow> 'e dns_world \<Rightarrow> bool" where
  "balanced acc W \<longleftrightarrow> (\<forall>t e. count_list (map client_key (to_client W)) (t, e) + pending_from t e W \<le> count_list acc (t, e))"

lemma balanced_response:
  assumes "balanced acc W" "take 2 payload = txid"
  shows "balanced acc (dns_response txid payload W)"
proof (cases "g_dns_states W txid")
  case None
  with assms show ?thesis by (simp add: dns_response_def)
next
  case (Some st)
  have "count_list (map client_key (to_client (dns_response txid payload W))) (t, e) + pending_from t e (dns_response txid payload W) =
      count_list (map client_key (to_client W)) (t, e) + pending_from t e W" for t e
    using Some assms(2) by (auto simp: dns_response_def pending_from_def client_key_def)
  with assms(1) show ?thesis unfolding balanced_def by metis
qed

lemma balanced_same:
  assumes "balanced acc W" "to_client W' = to_client W" "\<And>t e. pending_from t e W' \<le> pending_from t e W"
  shows "balanced acc W'"
  unfolding balanced_def assms(2)
proof (intro allI)
  fix t e
  show "count_list (map client_key (to_client W)) (t, e) + pending_from t e W' \<le> count_list acc (t, e)"
    using assms(1) assms(3) [of t e] unfolding balanced_def by (meson add_left_mono order_trans)
qed

lemma over_trusted_keeps:
  "to_client (dns_over_trusted D opts p W) = to_client W" "g_dns_states (dns_over_trusted D opts p W) = g_dns_states W"
  by (simp_all add: dns_over_trusted_def)

lemma query_effect:
  assumes "handle_dns_query D opts src buffer n W = Some (Got W')"
  shows "to_client W' = to_client W \<and> (\<exists>st. ds_orig_endpoint st = src \<and> g_dns_states W' =
    (case g_dns_states W (take 2 buffer) of None \<Rightarrow> (g_dns_states W)(take 2 buffer \<mapsto> st) | Some _ \<Rightarrow> g_dns_states W))"
proof -
  obtain r where r: "query_disables_default D opts buffer n = Some r" using assms by (auto simp: handle_dns_query_def Let_def)
  obtain d where d: "query_disables_default D opts buffer n = Some (Got d)"
    using assms r by (cases r) (auto simp: handle_dns_query_def Let_def)
  let ?st = "\<lparr>ds_orig_endpoint = src, ds_orig_payload = (if \<not> d then take n buffer else []), ds_timer = next_timer W,
    ds_disable_default_ns = d, ds_disable_trusted_ns = False\<rparr>"
  have "W' = (if \<not> d then (add_query (take 2 buffer) ?st W)\<lparr>to_default := to_default W @ [take n buffer]\<rparr>
      else dns_over_trusted D opts (take n buffer) (add_query (take 2 buffer) ?st W))"
    using assms d by (auto simp: handle_dns_query_def Let_def add_query_def split: option.splits)
  then show ?thesis
    by (cases d; cases "g_dns_states W (take 2 buffer)"; intro conjI exI [of _ ?st]) (simp_all add: over_trusted_keeps add_query_def)
qed

lemma default_answer_effect:
  assumes "default_ns_answer D opts buffer n W = Some (Got W')"
  shows "(\<exists>p. W' = dns_over_trusted D opts p W) \<or> W' = dns_response (take 2 buffer) (take n buffer) W"
proof -
  obtain r0 where r0: "dns_parse_answers buffer n = Some r0" using assms by (auto simp: default_ns_answer_def Let_def)
  obtain r where r: "dns_parse_answers buffer n = Some (Got r)"
    using assms r0 by (cases r0) (auto simp: default_ns_answer_def Let_def)
  show ?thesis using assms r
    by (auto simp: default_ns_answer_def Let_def split: prod.splits option.splits if_splits)
qed

lemma runs_balanced: "dns_runs D opts acc W \<Longrightarrow> balanced acc W"
proof (induction rule: dns_runs.induct)
  case init
  show ?case by (simp add: balanced_def dns_world_init_def pending_from_def)
next
  case (query acc W src buffer n W')
  from query_effect [of D opts src buffer n W W'] query.hyps(2) obtain st where st: "to_client W' = to_client W" "ds_orig_endpoint st = src"
    "g_dns_states W' = (case g_dns_states W (take 2 buffer) of None \<Rightarrow> (g_dns_states W)(take 2 buffer \<mapsto> st) | Some _ \<Rightarrow> g_dns_states W)"
    by (auto simp: server_loop_round_def)
  show ?case
  proof (cases "g_dns_states W (take 2 buffer)")
    case None
    have "pending_from t e W' = pending_from t e W + (if (t, e) = (take 2 buffer, src) then 1 else 0)" for t e
      using st None by (simp add: pending_from_def)
    with query.IH st(1) None show ?thesis by (fastforce simp: balanced_def)
  next
    case (Some x)
    have "balanced acc W'" by (rule balanced_same [OF query.IH st(1)]) (simp add: st(3) Some pending_from_def)
    with Some show ?thesis by simp
  qed
next
  case (default_answer acc W n buffer W')
  have "default_ns_answer D opts buffer n W = Some (Got W')" using default_answer.hyps(3) by (simp add: default_ns_round_def)
  from default_answer_effect [OF this] show ?case
  proof
    assume "\<exists>p. W' = dns_over_trusted D opts p W"
    then show ?thesis by (auto intro!: balanced_same [OF default_answer.IH] simp: over_trusted_keeps pending_from_def)
  next
    assume "W' = dns_response (take 2 buffer) (take n buffer) W"
    with balanced_response [OF default_answer.IH, of "take n buffer" "take 2 buffer"] default_answer.hyps(2) show ?thesis
      by (simp add: min_def)
  qed
next
  case (trusted_answer acc W payload)
  show ?case by (rule balanced_response [OF trusted_answer.IH]) simp
next
  case (failed acc W ec W')
  then show ?case by (auto simp: server_loop_round_def default_ns_round_def)
next
  case (timed_out acc W t)
  show ?case by (rule balanced_same [OF timed_out.IH]) (auto simp: query_timeout_def pending_from_def split: option.split)
next
  case (trusted_change acc W b)
  show ?case by (rule balanced_same [OF trusted_change.IH]) (simp_all add: pending_from_def)
qed

subsection \<open>Answers over TLS\<close>

lemma to_int32_small: "- (2 ^ 31) \<le> n \<Longrightarrow> n < 2 ^ 31 \<Longrightarrow> to_int32 n = n"
  by (simp add: to_int32_def sint_sbintrunc' signed_take_bit_int_eq_self)

lemma dot_head_packet:
  assumes "take 2 buf = native_to_big 2 (word_of_nat n :: u16)" "n < 65536" "12 \<le> k" "k < 2 ^ 30"
  shows "dot_head buf k = Answer (int n + 2 - int k) 2 (word_of_nat n) (n + 2)"
proof -
  have u: "unat (word_of_nat n :: u16) = n" using assms(2) by (simp add: unat_of_nat)
  then have "uint (word_of_nat n :: u16) = int n" by (metis uint_nat)
  with assms u show ?thesis by (simp add: dot_head_def to_int32_small del: uint_nat)
qed

lemma dot_prefix:
  assumes "k \<le> length a" "a @ b = c @ d" "length c = k"
  shows "take k (a @ e) = c" "drop k a @ b = d"
  using assms append_eq_conv_conj [of a b "c @ d"] by (auto simp: append_eq_append_conv_if split: if_splits)

lemma dot_suffix:
  assumes "a @ b = c @ d" "length c = length a + k"
  shows "a @ take k b = c" "drop k b = d"
proof -
  have "take (length c) (a @ b) = c" "drop (length c) (a @ b) = d" using assms(1) by simp_all
  then show "a @ take k b = c" "drop k b = d" unfolding assms(2) by simp_all
qed

lemma length_dot_packet [simp]: "length (dot_packet payload) = 2 + length payload"
  by (simp add: dot_packet_def)

lemma dot_slices:
  assumes "take (length payload + 2) b = dot_packet payload" "2 \<le> length payload"
  shows "slice_of 2 (length payload) b = payload" "slice_of 2 2 b = take 2 payload"
proof -
  have "take (length payload) (drop 2 b) = drop 2 (take (length payload + 2) b)" by (simp add: drop_take)
  also have "\<dots> = payload" unfolding assms(1) by (simp add: dot_packet_def)
  finally show p: "slice_of 2 (length payload) b = payload" by (simp add: slice_of_def)
  have "take 2 (take (length payload) (drop 2 b)) = take 2 payload" using p by (simp add: slice_of_def)
  then show "slice_of 2 2 b = take 2 payload" using assms(2) by (simp add: slice_of_def min_def)
qed

lemma dot_answer_whole:
  assumes "length payload + 2 \<le> pos" "pos \<le> length b" "take (length payload + 2) b = dot_packet payload"
    "2 \<le> length payload" "length payload < 65536"
  shows "\<exists>b' n'. trusted_ns_answer rd (Answer (int (length payload) + 2 - int pos) 2 (word_of_nat (length payload)) (length payload + 2)) s b pos W =
      Some (Got (True, s, b', n', dns_response (take 2 payload) payload W)) \<and> take n' b' = drop (length payload + 2) (take pos b)"
proof -
  let ?n = "length payload"
  have u: "unat (word_of_nat ?n :: u16) = ?n" using assms(5) by (simp add: unat_of_nat)
  note sl = dot_slices [OF assms(3,4)]
  show ?thesis
  proof (cases "?n + 2 < pos")
    case True
    let ?k = "slice_of (?n + 2) (pos - (?n + 2)) b"
    have "take (pos - (?n + 2)) (blit 0 ?k b) = drop (?n + 2) (take pos b)"
      using assms(1,2) by (simp add: blit_0 slice_of_def drop_take)
    with True assms(1,2) sl u show ?thesis by (auto simp: trusted_ns_answer_def Let_def)
  next
    case False
    with assms(1,2) sl u show ?thesis by (auto simp: trusted_ns_answer_def Let_def)
  qed
qed

lemma dot_answer_rest:
  assumes live: "live_connection rd pend ok" "ok s" and fit: "length payload + 2 \<le> length b" "pos < length payload + 2"
    and pkt: "take pos b @ take (length payload + 2 - pos) (pend s) = dot_packet payload"
    and n: "2 \<le> length payload" "length payload < 65536"
  shows "\<exists>s' b'. trusted_ns_answer rd (Answer (int (length payload) + 2 - int pos) 2 (word_of_nat (length payload)) (length payload + 2)) s b pos W =
      Some (Got (True, s', b', 0, dns_response (take 2 payload) payload W)) \<and> pend s' = drop (length payload + 2 - pos) (pend s)"
proof -
  let ?n = "length payload"
  define r where "r = ?n + 2 - pos"
  have r: "int ?n + 2 - int pos = int r" "0 < r" "pos + r = ?n + 2" using fit(2) by (auto simp: r_def)
  have rl: "r \<le> length (pend s)" using arg_cong [OF pkt, of length] fit r(3) by (simp add: r_def)
  obtain s2 where s2: "read_exact rd s r [] = Some ([] @ take r (pend s), 0, s2)" "pend s2 = drop r (pend s)"
    using live_connection.read_exact_live [OF live rl] by blast
  define b2 where "b2 = blit pos (take r (pend s)) b"
  have l: "pos + length (take r (pend s)) = ?n + 2" using rl r(3) by simp
  then have "take (?n + 2) b2 = take pos b @ take r (pend s)"
    using take_blit_upto [of pos b "take r (pend s)"] fit by (simp add: b2_def)
  then have "take (?n + 2) b2 = dot_packet payload" using pkt by (simp add: r_def)
  note sl = dot_slices [OF this n(1)]
  have u: "unat (word_of_nat ?n :: u16) = ?n" using n(2) by (simp add: unat_of_nat)
  have "length b2 = length b" using l fit by (simp add: b2_def)
  with fit(1) r(2,3) s2 sl u show ?thesis
    unfolding r(1) r_def [symmetric] by (simp add: trusted_ns_answer_def Let_def b2_def [symmetric])
qed

subsection \<open>Properties\<close>

text \<open>C21: no unsolicited and no double answers.  Whatever queries, answers and timeouts reach the proxy in
  whatever order, the answers sent to a client under a transaction id are at most the queries of
  this client under this id that were taken into the table and are not pending any more.\<close>

theorem dns_answers_solicited:
  assumes "dns_runs D opts acc W"
  shows "count_list (map (\<lambda>(e, payload). (take 2 payload, e)) (to_client W)) (t, e) +
    (case g_dns_states W t of None \<Rightarrow> 0 | Some st \<Rightarrow> if ds_orig_endpoint st = e then 1 else 0) \<le> count_list acc (t, e)"
proof -
  have "client_key = (\<lambda>(e, payload). (take 2 payload, e))" by (auto simp: client_key_def fun_eq_iff)
  then show ?thesis using runs_balanced [OF assms] unfolding balanced_def pending_from_def by metis
qed

definition sample_dns :: "(u32 \<times> u32) dns_libs" where
  "sample_dns = \<lparr>dl_in_range = (\<lambda>r a. fst r \<le> a \<and> a < snd r), dl_contains = (\<lambda>a b. find_sub b a \<noteq> None),
     dl_web_base64 = (\<lambda>b. b), dl_strip = strip_ref, dl_atoi = atoi_ref\<rparr>"

definition sample_opts :: "(u32 \<times> u32) DNSOptions" where
  "sample_opts = \<lparr>do_default_ns = \<lparr>addr_schema = str ''udp'', addr_host = [49], addr_port = 53, addr_path = []\<rparr>,
     do_trusted_ns = \<lparr>addr_schema = str ''dot'', addr_host = [56], addr_port = 853, addr_path = []\<rparr>,
     do_trusted_ns_domains = [], do_ip_range_map = []\<rparr>"

text \<open>A query of client 5 that only the trusted server answers.\<close>

theorem dns_answers_solicited_witness:
  "\<exists>W :: nat dns_world. dns_runs sample_dns sample_opts [([1, 2], 5)] W \<and> to_client W = [(5, [1, 2, 3])] \<and>
     count_list (map (\<lambda>(e, payload). (take 2 payload, e)) (to_client W)) ([1, 2], 5) +
     (case g_dns_states W [1, 2] of None \<Rightarrow> 0 | Some st \<Rightarrow> if ds_orig_endpoint st = 5 then 1 else 0) \<le> count_list [([1, 2 :: u8], 5 :: nat)] ([1, 2], 5)"
proof -
  obtain W1 :: "nat dns_world" where q: "handle_dns_query sample_dns sample_opts 5 [1, 2] 2 dns_world_init = Some (Got W1)"
    by (simp add: handle_dns_query_def query_disables_default_def dns_parse_name_def Let_def)
  from dns_runs.query [of sample_dns sample_opts "[]" dns_world_init 5 "[1, 2]" 2, OF dns_runs.init] q have r1: "dns_runs sample_dns sample_opts [([1, 2], 5)] W1"
    by (simp add: dns_world_init_def server_loop_round_def)
  have r2: "dns_runs sample_dns sample_opts [([1, 2], 5)] (dns_response (take 2 [1, 2, 3]) [1, 2, 3] W1)"
    by (rule dns_runs.trusted_answer [OF r1]) simp
  obtain st where "to_client W1 = []" "g_dns_states W1 [1, 2] = Some st" "ds_orig_endpoint st = 5"
    using query_effect [OF q] by (auto simp: dns_world_init_def)
  then have "to_client (dns_response (take 2 [1, 2, 3]) [1, 2, 3] W1) = [(5, [1, 2, 3])]" by (simp add: dns_response_def)
  with r2 dns_answers_solicited [OF r2, of "[1, 2]" 5] show ?thesis by blast
qed

text \<open>C40: which addresses count as wanted.  For ranges loaded from a file, pairwise disjoint, an address
  matches exactly if it lies in a range other than the one with the highest network address: the last
  range is never consulted.\<close>

theorem match_ip_ranges:
  assumes "LoadIPRangeFromFile strip make_network input [] = Some (success, m)"
    and below: "\<forall>e\<in>set m. \<forall>a. in_range (snd e) a \<longrightarrow> fst e \<le> a"
    and disjoint: "\<forall>i j a. i < j \<longrightarrow> j < length m \<longrightarrow> in_range (snd (m ! i)) a \<longrightarrow> a < fst (m ! j)"
  shows "MatchIPRanges in_range m ip \<longleftrightarrow> (\<exists>i. Suc i < length m \<and> in_range (snd (m ! i)) ip)"
proof -
  have sorted: "ranges_sorted m"
    using assms(1) load_sorted [of strip make_network _ "[]" success m]
    by (auto simp: LoadIPRangeFromFile_def ranges_sorted_def split: option.splits)
  let ?n = "upper_bound ip m"
  have le: "?n \<le> length m" by (simp add: upper_bound_def length_takeWhile_le)
  have ub: "i < ?n \<longleftrightarrow> fst (m ! i) \<le> ip" if "i < length m" for i by (rule upper_bound_split [OF sorted that])
  have hit: "i = ?n - 1 \<and> 0 < ?n" if "i < length m" "in_range (snd (m ! i)) ip" for i
  proof -
    have "i < ?n" using ub [OF that(1)] below that by (metis nth_mem)
    moreover have "\<not> Suc i < ?n"
    proof
      assume s: "Suc i < ?n"
      then have "Suc i < length m" using le by simp
      with ub s have "fst (m ! Suc i) \<le> ip" by blast
      moreover have "ip < fst (m ! Suc i)" using disjoint that \<open>Suc i < length m\<close> by blast
      ultimately show False by simp
    qed
    ultimately show ?thesis by simp
  qed
  show ?thesis
  proof
    assume m: "MatchIPRanges in_range m ip"
    then have "?n \<noteq> length m" "?n \<noteq> 0" "in_range (snd (m ! (?n - 1))) ip"
      by (auto simp: MatchIPRanges_def Let_def split: if_splits)
    with le show "\<exists>i. Suc i < length m \<and> in_range (snd (m ! i)) ip" by (intro exI [of _ "?n - 1"]) auto
  next
    assume "\<exists>i. Suc i < length m \<and> in_range (snd (m ! i)) ip"
    then obtain i where i: "Suc i < length m" "in_range (snd (m ! i)) ip" by blast
    with hit [of i] show "MatchIPRanges in_range m ip" by (auto simp: MatchIPRanges_def Let_def)
  qed
qed

theorem match_ip_ranges_witness:
  "MatchIPRanges (dl_in_range sample_dns) [(10, 11, 20), (30, 31, 40)] 15 \<and>
   \<not> MatchIPRanges (dl_in_range sample_dns) [(10, 11, 20), (30, 31, 40)] 35"
proof -
  let ?m = "[(10, 11, 20), (30, 31, 40)] :: (u32 \<times> u32) ip_range_map"
  let ?mk = "\<lambda>l :: bytes. if l = [1] then Some (10, 11, 20) else Some (30 :: u32, 31 :: u32, 40 :: u32)"
  have l: "LoadIPRangeFromFile (\<lambda>l. l) ?mk (Some [[2], [1]]) [] = Some (True, ?m)" by (simp add: LoadIPRangeFromFile_def)
  have b: "\<forall>e\<in>set ?m. \<forall>a. dl_in_range sample_dns (snd e) a \<longrightarrow> fst e \<le> a"
    by (auto simp: sample_dns_def word_le_nat_alt)
  have d: "\<forall>i j a. i < j \<longrightarrow> j < length ?m \<longrightarrow> dl_in_range sample_dns (snd (?m ! i)) a \<longrightarrow> a < fst (?m ! j)"
  proof (intro allI impI)
    fix i j :: nat and a
    assume "i < j" "j < length ?m" "dl_in_range sample_dns (snd (?m ! i)) a"
    then have "i = 0" "j = 1" "a < 20" by (auto simp: sample_dns_def less_Suc_eq)
    then show "a < fst (?m ! j)" by (auto intro: order.strict_trans)
  qed
  note r = match_ip_ranges [OF l b d]
  have "Suc 0 < length ?m \<and> dl_in_range sample_dns (snd (?m ! 0)) 15" by (simp add: sample_dns_def)
  then have "MatchIPRanges (dl_in_range sample_dns) ?m 15" unfolding r by blast
  moreover have "\<not> (\<exists>i. Suc i < length ?m \<and> dl_in_range sample_dns (snd (?m ! i)) 35)"
    by (auto simp: sample_dns_def less_Suc_eq)
  ultimately show ?thesis unfolding r by blast
qed

text \<open>Which server's answer a client gets.  A response of the default server to a pending query is
  sent to the client that asked if one of its IPv4 answers is wanted or the query may not be repeated;
  otherwise nothing is sent to the client, the query stays pending and is repeated, unchanged, to the
  trusted server.\<close>

theorem dns_default_policy:
  assumes "\<forall>l\<in>set ls. label_ok l" "length (enc_labels ls) \<le> 255" "\<forall>a\<in>set as. resource_ok a" "length as < 65536"
    and "length flags = 2" "length authority = 4" "length qtype = 4"
    and msg: "msg = enc_response txid flags ls qtype as authority"
    and st: "g_dns_states W (native_to_big 2 txid) = Some st"
    and ns: "addr_schema (do_trusted_ns opts) = str ''dot''" "trusted_up W"
  shows "\<exists>W'. default_ns_answer D opts (msg @ junk) (length msg) W = Some (Got W') \<and>
    (if (\<exists>a\<in>set as. rs_type a = 1 \<and> MatchIPRanges (dl_in_range D) (do_ip_range_map opts) (big_to_native (rs_data a))) \<or>
       ds_disable_trusted_ns st \<or> ds_orig_payload st = []
     then to_client W' = to_client W @ [(ds_orig_endpoint st, msg)] \<and> g_dns_states W' (native_to_big 2 txid) = None \<and>
       to_trusted W' = to_trusted W
     else to_client W' = to_client W \<and> g_dns_states W' = g_dns_states W \<and>
       to_trusted W' = to_trusted W @ [native_to_big 2 (word_of_nat (length (ds_orig_payload st)) :: u16) @ ds_orig_payload st])"
proof -
  have p: "dns_parse_answers (msg @ junk) (length msg) = Some (Got (0, map answer_of as))" by (rule response_parsed [OF assms(1-8)])
  have t: "take 2 (msg @ junk) = native_to_big 2 txid" by (simp add: msg enc_response_def)
  have m: "answers_match D opts (map answer_of as) \<longleftrightarrow>
      (\<exists>a\<in>set as. rs_type a = 1 \<and> MatchIPRanges (dl_in_range D) (do_ip_range_map opts) (big_to_native (rs_data a)))"
    by (auto simp: answers_match_def list_ex_iff answer_of_def DNSAnswer_IsV4_def v4_of_def)
  show ?thesis
    using p t st ns m by (simp add: default_ns_answer_def Let_def dns_response_def dns_over_trusted_def dot_packet_def)
qed

definition sample_pending :: "nat dns_world" where
  "sample_pending = dns_world_init\<lparr>g_dns_states := [[0, 7] \<mapsto>
     \<lparr>ds_orig_endpoint = 5, ds_orig_payload = [0, 7, 1], ds_timer = 0, ds_disable_default_ns = False, ds_disable_trusted_ns = False\<rparr>]\<rparr>"

theorem dns_default_policy_witness:
  "\<exists>W'. default_ns_answer sample_dns sample_opts
      (enc_response 7 [129, 128] [[97]] [0, 1, 0, 1] [\<lparr>rs_type = 1, rs_cls = 1, rs_ttl = [0, 0, 0, 60], rs_data = [1, 2, 3, 4]\<rparr>] [0, 0, 0, 0] @ [])
      (length (enc_response 7 [129, 128] [[97]] [0, 1, 0, 1] [\<lparr>rs_type = 1, rs_cls = 1, rs_ttl = [0, 0, 0, 60], rs_data = [1, 2, 3, 4]\<rparr>] [0, 0, 0, 0]))
      sample_pending = Some (Got W') \<and> to_client W' = [] \<and> to_trusted W' = [[0, 3, 0, 7, 1]]"
proof -
  have n: "native_to_big 2 (7 :: u16) = [0, 7]" "native_to_big 2 (word_of_nat (length [0, 7, 1 :: u8]) :: u16) = [0, 3]"
    by code_simp+
  have st: "g_dns_states sample_pending (native_to_big 2 (7 :: u16)) =
      Some \<lparr>ds_orig_endpoint = 5, ds_orig_payload = [0, 7, 1], ds_timer = 0, ds_disable_default_ns = False, ds_disable_trusted_ns = False\<rparr>"
    unfolding n by (simp add: sample_pending_def)
  have m: "\<not> MatchIPRanges (dl_in_range sample_dns) (do_ip_range_map sample_opts) a" for a
    by (simp add: MatchIPRanges_def sample_opts_def upper_bound_def)
  have o: "addr_schema (do_trusted_ns sample_opts) = str ''dot''" "trusted_up sample_pending" "to_client sample_pending = []" "to_trusted sample_pending = []"
    by (simp_all add: sample_opts_def sample_pending_def dns_world_init_def)
  let ?a = "\<lparr>rs_type = 1, rs_cls = 1, rs_ttl = [0, 0, 0, 60], rs_data = [1, 2, 3, 4]\<rparr> :: resource"
  have h: "\<forall>l\<in>set [[97]]. label_ok l" "length (enc_labels [[97]]) \<le> 255" "\<forall>a\<in>set [?a]. resource_ok a" "length [?a] < 65536"
    "length [129, 128 :: u8] = 2" "length [0, 0, 0, 0 :: u8] = 4" "length [0, 1, 0, 1 :: u8] = 4"
    by (simp_all add: label_ok_def resource_ok_def)
  from dns_default_policy [OF h refl st o(1,2), of sample_dns "[]"] obtain W' where W':
    "default_ns_answer sample_dns sample_opts (enc_response 7 [129, 128] [[97]] [0, 1, 0, 1] [?a] [0, 0, 0, 0] @ [])
      (length (enc_response 7 [129, 128] [[97]] [0, 1, 0, 1] [?a] [0, 0, 0, 0])) sample_pending = Some (Got W')"
    "to_client W' = to_client sample_pending" "to_trusted W' = to_trusted sample_pending @ [[0, 3] @ [0, 7, 1]]"
    unfolding DNSProxyState.simps n(2) using m by auto
  then have "to_client W' = []" "to_trusted W' = [[0, 3, 0, 7, 1]]" by (simp_all add: o)
  with W'(1) show ?thesis by blast
qed

text \<open>C39: answers of the trusted server over TLS.  From a connection that delivers an answer behind its
  length, and whatever follows, cut anywhere behind the twelfth byte, one round sends the client exactly
  this answer and keeps what follows, if the answer fits the buffer; if it does not, the round writes
  behind the end of the buffer.\<close>

theorem dot_answer_delivered:
  assumes live: "live_connection rd pend ok" and ok: "ok s" and p: "pend s = dot_packet payload @ rest" "length payload < 65536" "2 \<le> length payload"
    and ns: "addr_schema (do_trusted_ns opts) = str ''dot''"
    and rd: "rd s (length buffer) = (bs, 0, s1)" "12 \<le> length bs" "length buffer < 2 ^ 30"
  shows "if length payload + 2 \<le> length buffer
    then \<exists>s' buffer' n'. trusted_ns_round D opts rd s buffer 0 W =
        Some (Got (True, s', buffer', n', dns_response (take 2 payload) payload W)) \<and> take n' buffer' @ pend s' = rest
    else trusted_ns_round D opts rd s buffer 0 W = Some Fault"
proof -
  let ?n = "length payload" and ?pkt = "dot_packet payload"
  note con = live_connection.axioms(1) [OF live]
  have bl: "length bs \<le> length buffer" by (rule io_connection.read_within [OF con ok rd(1)])
  have st: "pend s = bs @ pend s1" by (rule io_connection.read_stream [OF con ok rd(1)])
  have ok1: "ok s1" by (rule io_connection.read_inv [OF con ok rd(1)])
  define b1 where "b1 = blit 0 bs buffer"
  have b1: "b1 = bs @ drop (length bs) buffer" "length b1 = length buffer" using bl by (simp_all add: b1_def blit_0)
  have pkt: "bs @ pend s1 = ?pkt @ rest" "length ?pkt = ?n + 2" using st p by (simp_all add: dot_packet_def)
  have "take 2 b1 = take 2 (bs @ pend s1)" using rd(2) by (simp add: b1)
  then have t2: "take 2 b1 = native_to_big 2 (word_of_nat ?n :: u16)" by (simp add: pkt dot_packet_def)
  have head: "dot_head b1 (length bs) = Answer (int ?n + 2 - int (length bs)) 2 (word_of_nat ?n) (?n + 2)"
    by (rule dot_head_packet [OF t2 p(2) rd(2)]) (use bl rd(3) in simp)
  have bs0: "bs \<noteq> []" using rd(2) by auto
  have round: "trusted_ns_round D opts rd s buffer 0 W =
      map_option (\<lambda>r. case r of Fault \<Rightarrow> Fault | Got (keep, s2, buffer2, buffer_pos2, W1) \<Rightarrow>
          Got (keep, s2, buffer2, buffer_pos2, if keep then W1 else W1\<lparr>trusted_up := False\<rparr>))
        (trusted_ns_answer rd (Answer (int ?n + 2 - int (length bs)) 2 (word_of_nat ?n) (?n + 2)) s1 b1 (length bs) W)"
    using rd(1) bs0 ns head by (simp add: trusted_ns_round_def Let_def b1_def [symmetric] str_def)
  consider "?n + 2 \<le> length bs" | "length bs < ?n + 2" "?n + 2 \<le> length buffer" | "length buffer < ?n + 2" by linarith
  then show ?thesis
  proof cases
    case 1
    then have tk: "take (?n + 2) b1 = ?pkt" "drop (?n + 2) bs @ pend s1 = rest"
      using pkt dot_prefix [of "?n + 2" bs "pend s1" ?pkt rest] by (simp_all add: b1)
    have "take (length bs) b1 = bs" by (simp add: b1)
    with dot_answer_whole [OF 1 _ tk(1) p(3,2), of rd s1 W] bl b1(2) round tk(2) 1 show ?thesis by auto
  next
    case 2
    have "take (length bs) b1 @ take (?n + 2 - length bs) (pend s1) = ?pkt" "drop (?n + 2 - length bs) (pend s1) = rest"
      using pkt dot_suffix [of bs "pend s1" ?pkt rest "?n + 2 - length bs"] 2(1) by (simp_all add: b1(1))
    with dot_answer_rest [OF live ok1 _ 2(1) _ p(3,2), of b1 W] 2(2) b1(2) round show ?thesis by auto
  next
    case 3
    then have "length buffer < length bs + nat (int ?n + 2 - int (length bs))" "0 < int ?n + 2 - int (length bs)" using bl by auto
    with 3 round b1(2) show ?thesis by (simp add: trusted_ns_answer_def Let_def)
  qed
qed

theorem dot_answer_delivered_witness:
  "(\<exists>s' buffer' n'. trusted_ns_round sample_dns sample_opts script_read [dot_packet [0, 7, 0, 0, 0, 0, 0, 0, 0, 0, 0, 0], [1, 2]] (replicate 16 0) 0 sample_pending =
      Some (Got (True, s', buffer', n', dns_response (take 2 [0, 7, 0, 0, 0, 0, 0, 0, 0, 0, 0, 0]) [0, 7, 0, 0, 0, 0, 0, 0, 0, 0, 0, 0] sample_pending)) \<and>
      take n' buffer' @ concat s' = [1, 2]) \<and>
   trusted_ns_round sample_dns sample_opts script_read [dot_packet (replicate 20 7)] (replicate 12 0) 0 sample_pending = Some Fault"
proof -
  have o: "addr_schema (do_trusted_ns sample_opts) = str ''dot''" by (simp add: sample_opts_def)
  let ?p = "[0, 7, 0, 0, 0, 0, 0, 0, 0, 0, 0, 0] :: bytes" and ?q = "replicate 20 7 :: bytes"
  let ?s = "[dot_packet ?p, [1, 2]]" and ?t = "[dot_packet ?q]"
  have r1: "script_read ?s (length (replicate 16 (0 :: u8))) = (dot_packet ?p, 0, [[1, 2]])" "12 \<le> length (dot_packet ?p)"
    by code_simp+
  have "case script_read ?t (length (replicate 12 (0 :: u8))) of (b, e, s) \<Rightarrow> e = 0 \<and> 12 \<le> length b" by code_simp
  then obtain b s where r2: "script_read ?t (length (replicate 12 (0 :: u8))) = (b, 0, s)" "12 \<le> length b"
    by (auto split: prod.splits)
  have h: "length ?p < 65536" "2 \<le> length ?p" "length ?q < 65536" "2 \<le> length ?q"
    "length (replicate 16 (0 :: u8)) < 2 ^ 30" "length (replicate 12 (0 :: u8)) < 2 ^ 30"
    "concat ?s = dot_packet ?p @ [1, 2]" "concat ?t = dot_packet ?q @ []"
    by simp_all
  have fits: "length ?p + 2 \<le> length (replicate 16 (0 :: u8))" "\<not> length ?q + 2 \<le> length (replicate 12 (0 :: u8))" by simp_all
  note d = dot_answer_delivered [where D = sample_dns and W = sample_pending and rd = script_read and pend = concat and ok = "\<lambda>_. True",
      OF scripted.live_connection_axioms TrueI]
  show ?thesis
    using d [OF h(7,1,2) o r1 h(5)] d [OF h(8,3,4) o r2 h(6)] unfolding if_P [OF fits(1)] if_not_P [OF fits(2)] by blast
qed

end
