(* ===== verification/Snova_Main.thy ===== *)
theory Snova_Main
  imports Dns_Proxy
begin

text \<open>
  \<^verbatim>\<open>snova/app/snova.cc\<close> and \<^verbatim>\<open>snova/util/flags.cc\<close>: from the parsed command line to the tasks that
  the program spawns.  The command-line parser, the logger and the event loop are libraries; files,
  Abseil's text functions and asio's address ranges are parameters.  \<^verbatim>\<open>error_exit\<close> ends the process:
  every such end, and an exception nobody catches, is a value of \<open>main_end\<close>.
\<close>

subsection \<open>Options and flags\<close>

record cli_options =
  co_listen :: "bytes list"
  co_user :: bytes
  co_proxy :: bytes
  co_remote :: bytes
  co_client_cipher :: "bytes \<times> bytes"
  co_server_cipher :: "bytes \<times> bytes"
  co_entry :: bool
  co_middle :: bool
  co_exit :: bool
  co_local_tunnels :: "bytes list"
  co_remote_tunnels :: "bytes list"
  co_ip_range_file :: bytes
  co_default_ns :: bytes
  co_trusted_ns :: bytes
  co_stat_log_period_secs :: u32

record GlobalFlags =
  g_http_proxy_port :: u16
  http_proxy_host :: bytes
  remote_server :: bytes
  gf_user :: bytes
  local_tunnels :: "LocalTunnelOption list"
  remote_tunnels :: "RemoteTunnelOption list"

definition GlobalFlags_new :: GlobalFlags where
  "GlobalFlags_new = \<lparr>g_http_proxy_port = 0, http_proxy_host = [], remote_server = [], gf_user = [],
     local_tunnels = [], remote_tunnels = []\<rparr>"

definition SetHttpProxyHost :: "bytes \<Rightarrow> GlobalFlags \<Rightarrow> GlobalFlags" where
  "SetHttpProxyHost s f = f\<lparr>http_proxy_host := s\<rparr>"

definition SetRemoteServer :: "bytes \<Rightarrow> GlobalFlags \<Rightarrow> GlobalFlags" where
  "SetRemoteServer s f = f\<lparr>remote_server := s\<rparr>"

definition SetUser :: "bytes \<Rightarrow> GlobalFlags \<Rightarrow> GlobalFlags" where
  "SetUser s f = f\<lparr>gf_user := s\<rparr>"

definition AddLocalTunnelOption :: "LocalTunnelOption \<Rightarrow> GlobalFlags \<Rightarrow> GlobalFlags" where
  "AddLocalTunnelOption opt f = f\<lparr>local_tunnels := local_tunnels f @ [opt]\<rparr>"

definition AddRemoteTunnelOption :: "RemoteTunnelOption \<Rightarrow> GlobalFlags \<Rightarrow> GlobalFlags" where
  "AddRemoteTunnelOption opt f = f\<lparr>remote_tunnels := remote_tunnels f @ [opt]\<rparr>"

datatype main_end =
    BadNameserver bytes | BadIpRangeFile | UncaughtException
  | OnlyHttpProxy | InvalidProxy | NoRole | ManyRoles | NoListen
  | LocalTunnelRole | RemoteTunnelRole | InvalidLocalTunnel | InvalidRemoteTunnel
  | BadListen bytes | ManyDnsServers | MissingIpRangeFile | MissingNameserver

text \<open>What is spawned on the event loop.\<close>

datatype 'r task =
    InitMuxClient u64 bytes "bytes \<times> bytes"
  | StartMuxServer NetAddress "bytes \<times> bytes"
  | StartDnsProxy NetAddress "NetAddress option" "NetAddress option" "'r ip_range_map"
  | StartEntryServer NetAddress
  | StartTunnelServers "(NetAddress \<times> NetAddress) list"
  | StatTimer u32
  | TimeWheelRun

record 'r main_libs =
  ml_split :: str_split
  ml_atoi :: "bytes \<Rightarrow> u32 option"
  ml_starts_with :: "bytes \<Rightarrow> bytes \<Rightarrow> bool"
  ml_strip :: "bytes \<Rightarrow> bytes"
  ml_make_network :: "bytes \<Rightarrow> (u32 \<times> 'r) option"
  ml_file :: "bytes \<Rightarrow> bytes list option"

definition then_do :: "'e + 'a \<Rightarrow> ('a \<Rightarrow> 'e + 'b) \<Rightarrow> 'e + 'b" where
  "then_do m k = (case m of Inl e \<Rightarrow> Inl e | Inr a \<Rightarrow> k a)"

definition require :: "bool \<Rightarrow> 'e \<Rightarrow> 'e + unit" where
  "require b e = (if b then Inr () else Inl e)"

subsection \<open>Reading the options\<close>

text \<open>\<^verbatim>\<open>--default_ns\<close> and \<^verbatim>\<open>--trusted_ns\<close>.\<close>

definition parse_ns :: "'r main_libs \<Rightarrow> bytes \<Rightarrow> main_end + NetAddress option" where
  "parse_ns L ns =
     (if ns = [] then Inr None
      else case NetAddress_Parse (ml_split L) ns of
          None \<Rightarrow> Inl (BadNameserver ns)
        | Some a \<Rightarrow> Inr (Some (if addr_port a = 0 then a\<lparr>addr_port := 53\<rparr> else a)))"

definition load_ranges :: "'r main_libs \<Rightarrow> bytes \<Rightarrow> main_end + 'r ip_range_map" where
  "load_ranges L ip_range_file =
     (if ip_range_file = [] then Inr []
      else case LoadIPRangeFromFile (ml_strip L) (ml_make_network L) (ml_file L ip_range_file) [] of
          None \<Rightarrow> Inl UncaughtException
        | Some (success, m) \<Rightarrow> if success then Inr m else Inl BadIpRangeFile)"

definition set_proxy :: "'r main_libs \<Rightarrow> bytes \<Rightarrow> GlobalFlags \<Rightarrow> main_end + GlobalFlags" where
  "set_proxy L proxy_server f =
     (if proxy_server = [] then Inr f
      else if \<not> ml_starts_with L proxy_server (str ''http://'') then Inl OnlyHttpProxy
      else let host_ports = ml_split L (drop 7 proxy_server) (str '':'') in
        if length host_ports \<noteq> 2 then Inl InvalidProxy
        else case stoi (host_ports ! 1) of
            None \<Rightarrow> Inl InvalidProxy
          | Some v \<Rightarrow> Inr (SetHttpProxyHost (host_ports ! 0) (f\<lparr>g_http_proxy_port := word_of_int v\<rparr>)))"

definition check_roles :: "cli_options \<Rightarrow> main_end + unit" where
  "check_roles c =
     then_do (require (co_entry c \<or> co_middle c \<or> co_exit c) NoRole) (\<lambda>_.
     then_do (require (of_bool (co_entry c) + of_bool (co_middle c) + of_bool (co_exit c) \<le> (1 :: nat)) ManyRoles) (\<lambda>_.
     then_do (require (co_middle c \<longrightarrow> co_listen c \<noteq> []) NoListen) (\<lambda>_.
     then_do (require (co_entry c \<longrightarrow> co_listen c \<noteq> [] \<or> co_local_tunnels c \<noteq> []) NoListen) (\<lambda>_.
     then_do (require (co_local_tunnels c \<noteq> [] \<longrightarrow> co_entry c) LocalTunnelRole) (\<lambda>_.
     require (co_remote_tunnels c \<noteq> [] \<longrightarrow> co_exit c) RemoteTunnelRole)))))"

fun add_local_tunnels :: "'r main_libs \<Rightarrow> bytes list \<Rightarrow> GlobalFlags \<Rightarrow> main_end + GlobalFlags" where
  "add_local_tunnels L [] f = Inr f"
| "add_local_tunnels L (addr # addrs) f =
     (case LocalTunnelOption_Parse (ml_split L) (ml_atoi L) addr of
        None \<Rightarrow> Inl InvalidLocalTunnel
      | Some opt \<Rightarrow> add_local_tunnels L addrs (AddLocalTunnelOption opt f))"

fun add_remote_tunnels :: "'r main_libs \<Rightarrow> bytes list \<Rightarrow> GlobalFlags \<Rightarrow> main_end + GlobalFlags" where
  "add_remote_tunnels L [] f = Inr f"
| "add_remote_tunnels L (addr # addrs) f =
     (case RemoteTunnelOption_Parse (ml_split L) (ml_atoi L) addr of
        None \<Rightarrow> Inl InvalidRemoteTunnel
      | Some opt \<Rightarrow> add_remote_tunnels L addrs (AddRemoteTunnelOption opt f))"

text \<open>The loop over \<^verbatim>\<open>--listen\<close>, with the number of DNS servers and the addresses so far.\<close>

fun parse_listens ::
  "'r main_libs \<Rightarrow> bytes \<Rightarrow> NetAddress option \<Rightarrow> NetAddress option \<Rightarrow> nat \<Rightarrow> NetAddress list \<Rightarrow> bytes list \<Rightarrow>
     main_end + NetAddress list" where
  "parse_listens L ip_range_file default_ns trusted_ns dns_server_count listen_addrs [] = Inr listen_addrs"
| "parse_listens L ip_range_file default_ns trusted_ns dns_server_count listen_addrs (v # vs) =
     (case NetAddress_Parse (ml_split L) v of
        None \<Rightarrow> Inl (BadListen v)
      | Some a \<Rightarrow>
          if addr_schema a = str ''dns''
          then if 0 < dns_server_count then Inl ManyDnsServers
               else if ip_range_file = [] then Inl MissingIpRangeFile
               else if trusted_ns = None \<or> default_ns = None then Inl MissingNameserver
               else parse_listens L ip_range_file default_ns trusted_ns (dns_server_count + 1) (listen_addrs @ [a]) vs
          else parse_listens L ip_range_file default_ns trusted_ns dns_server_count (listen_addrs @ [a]) vs)"

subsection \<open>Starting\<close>

text \<open>The server of a listen address.\<close>

definition listen_task ::
  "cli_options \<Rightarrow> NetAddress option \<Rightarrow> NetAddress option \<Rightarrow> 'r ip_range_map \<Rightarrow> NetAddress \<Rightarrow> 'r task" where
  "listen_task c default_ns trusted_ns ranges a =
     (let is_mux_server = (if co_exit c \<or> co_middle c then True
            else if addr_schema a = [] \<or> addr_schema a = str ''socks5'' then False else True);
          is_dns_server = (addr_schema a = str ''dns'');
          is_mux_server = (if is_dns_server then False else is_mux_server)
      in if is_mux_server then StartMuxServer a (co_server_cipher c)
         else if is_dns_server
         then StartDnsProxy (if addr_port a = 0 then a\<lparr>addr_port := 53\<rparr> else a) default_ns trusted_ns ranges
         else StartEntryServer a)"

definition plain_addr :: "bytes \<Rightarrow> u16 \<Rightarrow> NetAddress" where
  "plain_addr host port = \<lparr>addr_schema = [], addr_host = host, addr_port = port, addr_path = []\<rparr>"

definition tunnel_addrs :: "LocalTunnelOption \<Rightarrow> NetAddress \<times> NetAddress" where
  "tunnel_addrs opt = (plain_addr (str ''0.0.0.0'') (lt_local_port opt), plain_addr (lt_remote_host opt) (lt_remote_port opt))"

definition snova_main :: "'r main_libs \<Rightarrow> u64 \<Rightarrow> cli_options \<Rightarrow> main_end + (GlobalFlags \<times> 'r task list)" where
  "snova_main L cid c =
     then_do (parse_ns L (co_default_ns c)) (\<lambda>default_ns.
     then_do (parse_ns L (co_trusted_ns c)) (\<lambda>trusted_ns.
     then_do (load_ranges L (co_ip_range_file c)) (\<lambda>ranges.
     then_do (set_proxy L (co_proxy c) GlobalFlags_new) (\<lambda>f1.
     then_do (check_roles c) (\<lambda>_.
     then_do (add_local_tunnels L (co_local_tunnels c) f1) (\<lambda>f2.
     then_do (add_remote_tunnels L (co_remote_tunnels c) f2) (\<lambda>f3.
     let f = SetUser (co_user c) (SetRemoteServer (co_remote c) f3) in
     then_do (parse_listens L (co_ip_range_file c) default_ns trusted_ns 0 [] (co_listen c)) (\<lambda>listen_addrs.
     Inr (f,
       (if co_remote c \<noteq> [] then [InitMuxClient cid (co_user c) (co_client_cipher c)] else []) @
       map (listen_task c default_ns trusted_ns ranges) listen_addrs @
       (if co_local_tunnels c \<noteq> [] then [StartTunnelServers (map tunnel_addrs (local_tunnels f))] else []) @
       (if 0 < co_stat_log_period_secs c then [StatTimer (co_stat_log_period_secs c)] else []) @
       [TimeWheelRun])))))))))"

subsection \<open>What the steps ensure\<close>

lemma then_do_Inr [simp]: "then_do m k = Inr b \<longleftrightarrow> (\<exists>a. m = Inr a \<and> k a = Inr b)"
  by (cases m) (simp_all add: then_do_def)

lemma then_do_ok [simp]: "then_do (Inr a) k = k a"
  by (simp add: then_do_def)

lemma require_Inr [simp]: "require b e = Inr u \<longleftrightarrow> b"
  by (simp add: require_def)

lemma check_roles_Inr:
  "check_roles c = Inr u \<longleftrightarrow>
     of_bool (co_entry c) + of_bool (co_middle c) + of_bool (co_exit c) = (1 :: nat) \<and>
     (co_middle c \<longrightarrow> co_listen c \<noteq> []) \<and> (co_entry c \<longrightarrow> co_listen c \<noteq> [] \<or> co_local_tunnels c \<noteq> []) \<and>
     (co_local_tunnels c \<noteq> [] \<longrightarrow> co_entry c) \<and> (co_remote_tunnels c \<noteq> [] \<longrightarrow> co_exit c)"
  by (cases "co_entry c"; cases "co_middle c"; cases "co_exit c") (auto simp: check_roles_def)

lemma set_proxy_tunnels:
  "set_proxy L p f = Inr f' \<Longrightarrow> local_tunnels f' = local_tunnels f \<and> remote_tunnels f' = remote_tunnels f"
  by (auto simp: set_proxy_def SetHttpProxyHost_def Let_def split: if_splits option.splits)

lemma add_local_effect:
  "add_local_tunnels L os f = Inr f' \<Longrightarrow>
     \<exists>opts. list_all2 (\<lambda>s opt. LocalTunnelOption_Parse (ml_split L) (ml_atoi L) s = Some opt) os opts \<and>
       f' = f\<lparr>local_tunnels := local_tunnels f @ opts\<rparr>"
proof (induction os arbitrary: f)
  case (Cons s os)
  then obtain opt where opt: "LocalTunnelOption_Parse (ml_split L) (ml_atoi L) s = Some opt"
    "add_local_tunnels L os (AddLocalTunnelOption opt f) = Inr f'" by (auto split: option.splits)
  with Cons.IH [OF opt(2)] show ?case by (force simp: AddLocalTunnelOption_def)
qed simp

lemma add_remote_effect:
  "add_remote_tunnels L os f = Inr f' \<Longrightarrow>
     \<exists>opts. list_all2 (\<lambda>s opt. RemoteTunnelOption_Parse (ml_split L) (ml_atoi L) s = Some opt) os opts \<and>
       f' = f\<lparr>remote_tunnels := remote_tunnels f @ opts\<rparr>"
proof (induction os arbitrary: f)
  case (Cons s os)
  then obtain opt where opt: "RemoteTunnelOption_Parse (ml_split L) (ml_atoi L) s = Some opt"
    "add_remote_tunnels L os (AddRemoteTunnelOption opt f) = Inr f'" by (auto split: option.splits)
  with Cons.IH [OF opt(2)] show ?case by (force simp: AddRemoteTunnelOption_def)
qed simp

abbreviation is_dns :: "NetAddress \<Rightarrow> bool" where
  "is_dns a \<equiv> addr_schema a = str ''dns''"

lemma parse_listens_effect:
  "parse_listens L file d t n acc vs = Inr addrs \<Longrightarrow> n \<le> 1 \<Longrightarrow>
     \<exists>as. addrs = acc @ as \<and> list_all2 (\<lambda>v a. NetAddress_Parse (ml_split L) v = Some a) vs as \<and>
       n + length (filter is_dns as) \<le> 1 \<and> (\<forall>a\<in>set as. is_dns a \<longrightarrow> file \<noteq> [] \<and> d \<noteq> None \<and> t \<noteq> None)"
proof (induction vs arbitrary: n acc)
  case (Cons v vs)
  then obtain a where a: "NetAddress_Parse (ml_split L) v = Some a" by (auto split: option.splits)
  show ?case
  proof (cases "is_dns a")
    case True
    with a Cons.prems have g: "n = 0" "file \<noteq> []" "d \<noteq> None" "t \<noteq> None"
      "parse_listens L file d t (n + 1) (acc @ [a]) vs = Inr addrs" by (auto split: if_splits)
    from Cons.IH [OF g(5)] g(1) obtain as where as: "addrs = (acc @ [a]) @ as"
      "list_all2 (\<lambda>v a. NetAddress_Parse (ml_split L) v = Some a) vs as" "1 + length (filter is_dns as) \<le> 1"
      "\<forall>a\<in>set as. is_dns a \<longrightarrow> file \<noteq> [] \<and> d \<noteq> None \<and> t \<noteq> None" by auto
    with a g True show ?thesis by (intro exI [of _ "a # as"]) auto
  next
    case False
    with a Cons.prems have "parse_listens L file d t n (acc @ [a]) vs = Inr addrs" by simp
    from Cons.IH [OF this Cons.prems(2)] a False show ?thesis by force
  qed
qed simp

lemma parse_listens_strings:
  assumes "\<forall>a\<in>set as. NetAddress_Parse (ml_split L) (NetAddress_String a) = Some a \<and> \<not> is_dns a"
  shows "parse_listens L file d t n acc (map NetAddress_String as) = Inr (acc @ as)"
  using assms by (induction as arbitrary: acc) auto

fun dns_task :: "'r task \<Rightarrow> bool" where
  "dns_task (StartDnsProxy a d t r) = True"
| "dns_task _ = False"

lemma dns_listen_task: "dns_task (listen_task c d t r a) \<longleftrightarrow> is_dns a"
  by (simp add: listen_task_def Let_def)

lemma listen_task_cases:
  "listen_task c d t r a = StartDnsProxy a' d' t' r' \<Longrightarrow> is_dns a \<and> d' = d \<and> t' = t \<and> r' = r"
  "listen_task c d t r a = StartEntryServer a' \<Longrightarrow> \<not> co_exit c \<and> \<not> co_middle c"
  by (auto simp: listen_task_def Let_def split: if_splits)

lemma snova_main_Inr:
  assumes "snova_main L cid c = Inr (f, tasks)"
  obtains d t ranges lo ro addrs where "load_ranges L (co_ip_range_file c) = Inr ranges" "check_roles c = Inr ()"
    "list_all2 (\<lambda>s opt. LocalTunnelOption_Parse (ml_split L) (ml_atoi L) s = Some opt) (co_local_tunnels c) lo" "local_tunnels f = lo"
    "list_all2 (\<lambda>s opt. RemoteTunnelOption_Parse (ml_split L) (ml_atoi L) s = Some opt) (co_remote_tunnels c) ro" "remote_tunnels f = ro"
    "parse_listens L (co_ip_range_file c) d t 0 [] (co_listen c) = Inr addrs"
    "tasks = (if co_remote c \<noteq> [] then [InitMuxClient cid (co_user c) (co_client_cipher c)] else []) @
       map (listen_task c d t ranges) addrs @
       (if co_local_tunnels c \<noteq> [] then [StartTunnelServers (map tunnel_addrs lo)] else []) @
       (if 0 < co_stat_log_period_secs c then [StatTimer (co_stat_log_period_secs c)] else []) @ [TimeWheelRun]"
proof -
  from assms obtain d t ranges f1 f2 f3 addrs where steps: "load_ranges L (co_ip_range_file c) = Inr ranges"
      "set_proxy L (co_proxy c) GlobalFlags_new = Inr f1" "check_roles c = Inr ()"
      "add_local_tunnels L (co_local_tunnels c) f1 = Inr f2" "add_remote_tunnels L (co_remote_tunnels c) f2 = Inr f3"
      "parse_listens L (co_ip_range_file c) d t 0 [] (co_listen c) = Inr addrs"
    and f: "f = SetUser (co_user c) (SetRemoteServer (co_remote c) f3)"
    and tasks: "tasks = (if co_remote c \<noteq> [] then [InitMuxClient cid (co_user c) (co_client_cipher c)] else []) @
       map (listen_task c d t ranges) addrs @
       (if co_local_tunnels c \<noteq> [] then [StartTunnelServers (map tunnel_addrs (local_tunnels f))] else []) @
       (if 0 < co_stat_log_period_secs c then [StatTimer (co_stat_log_period_secs c)] else []) @ [TimeWheelRun]"
    by (auto simp: snova_main_def Let_def)
  obtain lo where lo: "list_all2 (\<lambda>s opt. LocalTunnelOption_Parse (ml_split L) (ml_atoi L) s = Some opt) (co_local_tunnels c) lo"
    "f2 = f1\<lparr>local_tunnels := local_tunnels f1 @ lo\<rparr>" using add_local_effect [OF steps(4)] by blast
  obtain ro where ro: "list_all2 (\<lambda>s opt. RemoteTunnelOption_Parse (ml_split L) (ml_atoi L) s = Some opt) (co_remote_tunnels c) ro"
    "f3 = f2\<lparr>remote_tunnels := remote_tunnels f2 @ ro\<rparr>" using add_remote_effect [OF steps(5)] by blast
  have "local_tunnels f = lo" "remote_tunnels f = ro"
    using set_proxy_tunnels [OF steps(2)] lo(2) ro(2) by (simp_all add: f SetUser_def SetRemoteServer_def GlobalFlags_new_def)
  with steps(1,3,6) lo(1) ro(1) tasks show ?thesis using that by blast
qed

subsection \<open>Properties\<close>

text \<open>C24: what a process that reaches its event loop was configured to be.  It has exactly one role; it
  has local tunnels only as an entry node and remote tunnels only as an exit node, and serves proxy clients only as an
  entry node; it runs at most one DNS proxy, with both of its name servers given and with all the
  address ranges of the file loaded.\<close>

theorem main_configuration_sound:
  assumes main: "snova_main L cid c = Inr (f, tasks)"
  shows "of_bool (co_entry c) + of_bool (co_middle c) + of_bool (co_exit c) = (1 :: nat) \<and>
    (local_tunnels f \<noteq> [] \<longrightarrow> co_entry c) \<and> (remote_tunnels f \<noteq> [] \<longrightarrow> co_exit c) \<and>
    (\<forall>a. StartEntryServer a \<in> set tasks \<longrightarrow> co_entry c) \<and>
    length (filter dns_task tasks) \<le> 1 \<and>
    (\<forall>a d t r. StartDnsProxy a d t r \<in> set tasks \<longrightarrow> d \<noteq> None \<and> t \<noteq> None \<and>
      LoadIPRangeFromFile (ml_strip L) (ml_make_network L) (ml_file L (co_ip_range_file c)) [] = Some (True, r))"
proof -
  obtain d t ranges lo ro addrs where ranges: "load_ranges L (co_ip_range_file c) = Inr ranges" and ok: "check_roles c = Inr ()"
    and lo: "list_all2 (\<lambda>s opt. LocalTunnelOption_Parse (ml_split L) (ml_atoi L) s = Some opt) (co_local_tunnels c) lo" "local_tunnels f = lo"
    and ro: "list_all2 (\<lambda>s opt. RemoteTunnelOption_Parse (ml_split L) (ml_atoi L) s = Some opt) (co_remote_tunnels c) ro" "remote_tunnels f = ro"
    and addrs: "parse_listens L (co_ip_range_file c) d t 0 [] (co_listen c) = Inr addrs"
    and tasks: "tasks = (if co_remote c \<noteq> [] then [InitMuxClient cid (co_user c) (co_client_cipher c)] else []) @
       map (listen_task c d t ranges) addrs @
       (if co_local_tunnels c \<noteq> [] then [StartTunnelServers (map tunnel_addrs lo)] else []) @
       (if 0 < co_stat_log_period_secs c then [StatTimer (co_stat_log_period_secs c)] else []) @ [TimeWheelRun]"
    by (rule snova_main_Inr [OF main])
  note roles = ok [unfolded check_roles_Inr]
  have l: "local_tunnels f \<noteq> [] \<longrightarrow> co_entry c" using roles lo by auto
  have r: "remote_tunnels f \<noteq> [] \<longrightarrow> co_exit c" using roles ro by auto
  from parse_listens_effect [OF addrs] have as: "length (filter is_dns addrs) \<le> 1"
    "\<forall>a\<in>set addrs. is_dns a \<longrightarrow> co_ip_range_file c \<noteq> [] \<and> d \<noteq> None \<and> t \<noteq> None" by auto
  have dns: "filter dns_task tasks = map (listen_task c d t ranges) (filter is_dns addrs)"
    by (simp add: tasks filter_map o_def dns_listen_task)
  have e: "\<forall>a. StartEntryServer a \<in> set tasks \<longrightarrow> co_entry c"
  proof (intro allI impI)
    fix a
    assume "StartEntryServer a \<in> set tasks"
    then obtain b where "listen_task c d t ranges b = StartEntryServer a" by (auto simp: tasks split: if_splits)
    with listen_task_cases(2) have "\<not> co_exit c \<and> \<not> co_middle c" by blast
    with roles show "co_entry c" by (cases "co_entry c") auto
  qed
  have p: "d' \<noteq> None \<and> t' \<noteq> None \<and>
      LoadIPRangeFromFile (ml_strip L) (ml_make_network L) (ml_file L (co_ip_range_file c)) [] = Some (True, r')"
    if "StartDnsProxy a d' t' r' \<in> set tasks" for a d' t' r'
  proof -
    from that obtain b where b: "b \<in> set addrs" "listen_task c d t ranges b = StartDnsProxy a d' t' r'"
      by (auto simp: tasks split: if_splits)
    with listen_task_cases(1) have "is_dns b" "d' = d" "t' = t" "r' = ranges" by metis+
    with as(2) b(1) ranges show ?thesis by (auto simp: load_ranges_def split: if_splits option.splits)
  qed
  show ?thesis using roles l r e as(1) p unfolding dns by simp
qed

definition sample_libs :: "(u32 \<times> u32) main_libs" where
  "sample_libs = \<lparr>ml_split = str_split_ref, ml_atoi = atoi_ref, ml_starts_with = (\<lambda>a b. take (length b) a = b),
     ml_strip = strip_ref, ml_make_network = (\<lambda>l. None), ml_file = (\<lambda>f. Some [])\<rparr>"

definition sample_cli :: cli_options where
  "sample_cli = \<lparr>co_listen = map NetAddress_String [plain_addr (str ''h'') 1080], co_user = [], co_proxy = [], co_remote = [114],
     co_client_cipher = ([], []), co_server_cipher = ([], []), co_entry = True, co_middle = False, co_exit = False,
     co_local_tunnels = [], co_remote_tunnels = [], co_ip_range_file = [], co_default_ns = [], co_trusted_ns = [],
     co_stat_log_period_secs = 60\<rparr>"

text \<open>An exit node with a DNS proxy and an empty range file.\<close>

theorem main_configuration_sound_witness:
  "\<exists>f tasks. snova_main sample_libs 9 (sample_cli\<lparr>co_listen := [str ''dns://h''], co_entry := False, co_exit := True,
       co_ip_range_file := [102], co_default_ns := [49], co_trusted_ns := [56]\<rparr>) = Inr (f, tasks) \<and>
     length (filter dns_task tasks) = 1 \<and> length (filter dns_task tasks) \<le> 1 \<and> local_tunnels f = []"
proof -
  let ?c = "sample_cli\<lparr>co_listen := [str ''dns://h''], co_entry := False, co_exit := True,
       co_ip_range_file := [102], co_default_ns := [49], co_trusted_ns := [56]\<rparr>"
  have "case snova_main sample_libs 9 ?c of Inl e \<Rightarrow> False | Inr (f, tasks) \<Rightarrow> length (filter dns_task tasks) = 1"
    by code_simp
  then obtain f tasks where m: "snova_main sample_libs 9 ?c = Inr (f, tasks)" "length (filter dns_task tasks) = 1"
    by (auto split: sum.splits prod.splits)
  have "\<not> co_entry ?c" by (simp add: sample_cli_def)
  with main_configuration_sound [OF m(1)] m show ?thesis by blast
qed

text \<open>A well-formed configuration is started.  A node with one role, listening on well-formed addresses
  other than DNS ones, without tunnels and proxy, reaches its event loop; its tasks are the client if a
  remote server is given, one server per listen address in their order, an entry server for plain and
  SOCKS5 addresses of an entry node and a mux server otherwise, the statistics and the time wheel.\<close>

theorem main_starts_servers:
  assumes "StrSplit_ok (ml_split L)" and "\<forall>a\<in>set as. addr_ok a \<and> \<not> is_dns a"
    and "co_listen c = map NetAddress_String as" "as \<noteq> []"
    and "of_bool (co_entry c) + of_bool (co_middle c) + of_bool (co_exit c) = (1 :: nat)"
    and "co_local_tunnels c = []" "co_remote_tunnels c = []" "co_proxy c = []"
    and "co_ip_range_file c = []" "co_default_ns c = []" "co_trusted_ns c = []"
  shows "\<exists>f. snova_main L cid c = Inr (f,
      (if co_remote c \<noteq> [] then [InitMuxClient cid (co_user c) (co_client_cipher c)] else []) @
      map (\<lambda>a. if co_entry c \<and> (addr_schema a = [] \<or> addr_schema a = str ''socks5'')
               then StartEntryServer a else StartMuxServer a (co_server_cipher c)) as @
      (if 0 < co_stat_log_period_secs c then [StatTimer (co_stat_log_period_secs c)] else []) @ [TimeWheelRun]) \<and>
    gf_user f = co_user c \<and> remote_server f = co_remote c \<and> http_proxy_host f = []"
proof -
  have listens: "parse_listens L [] None None 0 [] (map NetAddress_String as) = Inr as"
    using parse_listens_strings [of as L "[]" None None 0 "[]"] assms(2) parse_String [OF assms(1)] by simp
  have one: "listen_task c None None [] a = (if co_entry c \<and> (addr_schema a = [] \<or> addr_schema a = str ''socks5'')
      then StartEntryServer a else StartMuxServer a (co_server_cipher c))" if "a \<in> set as" for a
    using that assms(2,5) by (cases "co_entry c"; cases "co_exit c"; cases "co_middle c") (auto simp: listen_task_def Let_def)
  have tasks: "map (listen_task c None None []) as = map (\<lambda>a. if co_entry c \<and> (addr_schema a = [] \<or> addr_schema a = str ''socks5'')
      then StartEntryServer a else StartMuxServer a (co_server_cipher c)) as"
    by (rule map_cong [OF refl one])
  have "check_roles c = Inr ()" using assms by (simp add: check_roles_Inr)
  then show ?thesis
    using assms(3,6-) listens
    by (simp add: snova_main_def parse_ns_def load_ranges_def set_proxy_def Let_def SetUser_def SetRemoteServer_def
        GlobalFlags_new_def tasks)
qed

theorem main_starts_servers_witness:
  "\<exists>f. snova_main sample_libs 9 sample_cli =
     Inr (f, [InitMuxClient 9 [] ([], []), StartEntryServer (plain_addr (str ''h'') 1080), StatTimer 60, TimeWheelRun])"
proof -
  have ok: "addr_ok (plain_addr (str ''h'') 1080)" "\<not> is_dns (plain_addr (str ''h'') 1080)"
    by (simp_all add: addr_ok_def plain_addr_def str_def of_char_def default_port_def)
  show ?thesis
    using main_starts_servers [where L = sample_libs and c = sample_cli and as = "[plain_addr (str ''h'') 1080]" and cid = 9] ok str_split_ref_ok
    by (auto simp: sample_cli_def sample_libs_def plain_addr_def)
qed

end
