(* ===== verification/Mux_Transport.thy ===== *)
theory Mux_Transport
  imports Mux_Connection Web_Socket
begin

text \<open>
  A mux connection over a web socket, as \<^verbatim>\<open>MuxClient::NewConnection\<close> (\<^verbatim>\<open>snova/mux/mux_client.cc\<close>) and
  \<^verbatim>\<open>handle_conn\<close> (\<^verbatim>\<open>snova/server/mux_server.cc\<close>) build it for the schemas \<open>ws\<close> and \<open>wss\<close>: the
  \<^verbatim>\<open>IOConnection\<close> of the connection is a \<^verbatim>\<open>WebSocket\<close>.  Other than a socket a web socket hands over whole
  messages and refuses one that does not fit the buffer, so it is no \<open>io_connection\<close> for every buffer
  size.  What the mux connection relies on instead is the locale \<open>message_transport\<close>.
\<close>

subsection \<open>Transports of messages\<close>

text \<open>\<open>queued s ms\<close>: the messages \<open>ms\<close> are the next ones to be received.\<close>

locale message_transport =
  fixes recv :: "'s reader" and queued :: "'s \<Rightarrow> bytes list \<Rightarrow> bool"
  assumes recv_message: "queued s (m # ms) \<Longrightarrow> length m \<le> k \<Longrightarrow> \<exists>s'. recv s k = (m, 0, s') \<and> queued s' ms"

text \<open>A connection that has decoded all it has read.\<close>

definition at_boundary :: "('r, 's) MuxConnection \<Rightarrow> bool" where
  "at_boundary c \<longleftrightarrow> snd (readable_data c) = 0 \<and> spans_ok (readable_data c) c \<and> length (read_buffer c) = 2 * kMaxChunkSize"

locale message_reader = message_transport recv queued + frame_codec dec framed bound
  for recv :: "'s reader" and queued and dec :: "('r, 'e) decoder" and framed bound +
  assumes messages_fit: "bound \<le> 2 * kMaxChunkSize"
begin

lemma ReadEvent_message:
  assumes b: "at_boundary c" and q: "queued (io_conn c) (f # ms)" and fr: "framed (cipher_ctx c) e f r'"
  shows "\<exists>c'. ReadEvent dec recv tm c = Some (0, Some e, c') \<and> at_boundary c' \<and> queued (io_conn c') ms \<and> cipher_ctx c' = r'"
proof -
  obtain off where sp: "readable_data c = (off, 0)" using b unfolding at_boundary_def by (metis prod.collapse)
  have len: "length (read_buffer c) = 16384" using b by (simp add: at_boundary_def)
  have f: "0 < length f" "length f \<le> 16384" using frame_size [OF fr] messages_fit by auto
  obtain s' where r: "recv (io_conn c) 16384 = (f, 0, s')" "queued s' ms" using recv_message [OF q f(2)] by blast
  let ?c1 = "count_read (tm s') (length f) (c\<lparr>io_conn := s', read_buffer := blit 0 f (read_buffer c)\<rparr>)"
  have "ReadEventFromBuffer dec c (off, 0) = (ERR_NEED_MORE_INPUT_DATA, None, (off, 0), c)"
    by (simp add: ReadEventFromBuffer_def)
  then have one: "ReadEvent dec recv tm c = ReadEvent_loop dec recv tm ?c1 (0, length f)"
    using r(1) f(1) len unfolding ReadEvent_def sp by (subst ReadEvent_loop.simps) (simp add: Let_def)
  have view: "slice_of 0 (length f) (read_buffer ?c1) = f"
    using take_blit_upto [of 0 "read_buffer c" f] f(2) len by (simp add: slice_of_def count_read_def)
  have "dec (cipher_ctx ?c1) f = (Inr (e, length f), r')" using dec_frame [OF fr, of "[]"] by (simp add: count_read_def)
  then have "ReadEventFromBuffer dec ?c1 (0, length f) = (0, Some e, (length f, 0), ?c1\<lparr>cipher_ctx := r'\<rparr>)"
    using f(1) view by (simp add: ReadEventFromBuffer_def Let_def)
  then have "ReadEvent dec recv tm c = Some (0, Some e, ?c1\<lparr>cipher_ctx := r', readable_data := (length f, 0)\<rparr>)"
    unfolding one by (subst ReadEvent_loop.simps) simp
  then show ?thesis using r(2) f(2) len by (simp add: at_boundary_def spans_ok_def count_read_def)
qed

lemma read_events_messages:
  "at_boundary c \<Longrightarrow> queued (io_conn c) (map snd efs) \<Longrightarrow> frames (cipher_ctx c) efs r' \<Longrightarrow>
   \<exists>c'. read_events dec recv tm (length efs) c = Some (map fst efs, c') \<and> at_boundary c' \<and> queued (io_conn c') [] \<and> cipher_ctx c' = r'"
proof (induction efs arbitrary: c)
  case (Cons ef efs)
  obtain e f r1 where ef: "ef = (e, f)" "framed (cipher_ctx c) e f r1" "frames r1 efs r'"
    using Cons.prems(3) by (cases ef) auto
  have "queued (io_conn c) (f # map snd efs)" using Cons.prems(2) ef(1) by simp
  from ReadEvent_message [OF Cons.prems(1) this ef(2), where tm = tm]
  obtain c1 where "ReadEvent dec recv tm c = Some (0, Some e, c1)" "at_boundary c1"
    "queued (io_conn c1) (map snd efs)" "cipher_ctx c1 = r1" by blast
  with Cons.IH [of c1] ef show ?case by auto
qed simp

end

subsection \<open>Web sockets\<close>

text \<open>
  The reads and writes of a connection whose \<^verbatim>\<open>IOConnection\<close> is a web socket.  A read of the web socket
  that never returns has no result; \<open>ws_reader\<close> has some value there that no theorem uses.
\<close>

definition ws_reader :: "'s reader \<Rightarrow> 's WebSocket reader" where
  "ws_reader rd ws k = (case WebSocket_AsyncRead rd k ws of Some r \<Rightarrow> r | None \<Rightarrow> ([], - 1, ws))"

definition ws_writer :: "'s io_write \<Rightarrow> ('s WebSocket \<Rightarrow> bytes) \<Rightarrow> 's WebSocket writer" where
  "ws_writer wr mk ws bs = (case WebSocket_AsyncWrite wr (mk ws) bs ws of ((n, ec), buf, ws1) \<Rightarrow> (ec, ws1))"

definition ws_message :: "bytes \<Rightarrow> bytes \<Rightarrow> bool" where
  "ws_message f m \<longleftrightarrow> length m < 2 ^ 64 \<and> (\<exists>srv mask_key. length mask_key = 4 \<and>
     f = ws_frame_head srv mask_key (length m) @ (if srv then m else mask_bytes mask_key m))"

definition ws_queued :: "('s \<Rightarrow> bytes) \<Rightarrow> ('s \<Rightarrow> bool) \<Rightarrow> bytes \<Rightarrow> 's WebSocket \<Rightarrow> bytes list \<Rightarrow> bool" where
  "ws_queued pend ok rest ws ms \<longleftrightarrow> ws_ok ok ws \<and>
     (\<exists>fs. list_all2 ws_message fs ms \<and> ws_pending pend ws = concat fs @ rest)"

lemma ws_message_transport:
  assumes "live_connection rd pend ok"
  shows "message_transport (ws_reader rd) (ws_queued pend ok rest)"
proof
  fix ws m ms and k :: nat
  assume "ws_queued pend ok rest ws (m # ms)" and k: "length m \<le> k"
  then obtain f fs where ok: "ws_ok ok ws" "ws_message f m" "list_all2 ws_message fs ms"
    "ws_pending pend ws = f @ concat fs @ rest" by (auto simp: ws_queued_def list_all2_Cons2)
  then obtain srv mask_key where mk: "length mask_key = 4" "length m < 2 ^ 64"
    "f = ws_frame_head srv mask_key (length m) @ (if srv then m else mask_bytes mask_key m)" by (auto simp: ws_message_def)
  from live_connection.ws_frame_read [OF assms ok(1) mk(1,2), of srv "concat fs @ rest" k] ok(4) mk(3) k
  obtain ws' where "ws_ok ok ws'" "WebSocket_AsyncRead rd k ws = Some (m, 0, ws')" "ws_pending pend ws' = concat fs @ rest" by auto
  with ok(3) show "\<exists>ws'. ws_reader rd ws k = (m, 0, ws') \<and> ws_queued pend ok rest ws' ms"
    by (auto simp: ws_reader_def ws_queued_def)
qed

interpretation ws_transport: message_transport "ws_reader script_read" "ws_queued concat (\<lambda>_. True) rest" for rest
  by (rule ws_message_transport [OF scripted.live_connection_axioms])

lemma ws_event_reader:
  assumes "live_connection rd pend ok"
  shows "message_reader (ws_reader rd) (ws_queued pend ok rest) (CipherContext_Decrypt A L) (cipher_framed A L) 8360"
  by (intro message_reader.intro message_reader_axioms.intro ws_message_transport assms cipher.frame_codec_axioms) simp

interpretation ws_events: message_reader "ws_reader script_read" "ws_queued concat (\<lambda>_. True) rest"
  "CipherContext_Decrypt A L" "cipher_framed A L" 8360 for rest A L
  by (rule ws_event_reader [OF scripted.live_connection_axioms])

subsection \<open>Sending\<close>

fun send_events ::
  "('r, 'e) encoder \<Rightarrow> 's writer \<Rightarrow> ('s \<Rightarrow> u64) \<Rightarrow> ('r, 's) MuxConnection \<Rightarrow> 'e list \<Rightarrow> ('r, 's) MuxConnection option" where
  "send_events enc wr tm c [] = Some c"
| "send_events enc wr tm c (e # es) =
     (case MuxConnection_Write enc wr tm c e of
        (True, c') \<Rightarrow> send_events enc wr tm c' es
      | (False, c') \<Rightarrow> None)"

definition ws_wire :: "bytes WebSocket \<Rightarrow> bytes" where
  "ws_wire ws = io (ws_io ws)"

lemma ws_writer_sends:
  assumes "\<And>ws. length (mk ws) = 4" "length m < 2 ^ 64"
  shows "\<exists>ws' f. ws_writer wire_send mk ws m = (0, ws') \<and> ws_message f m \<and> ws_wire ws' = ws_wire ws @ f"
proof -
  let ?f = "ws_frame_head (ws_is_server ws) (mk ws) (length m) @ (if ws_is_server ws then m else mask_bytes (mk ws) m)"
  have "ws_message ?f m" using assms unfolding ws_message_def by blast
  then show ?thesis
    by (intro exI [of _ "ws\<lparr>ws_io := (ws_io ws)\<lparr>io := ws_wire ws @ ?f\<rparr>\<rparr>"] exI [of _ ?f])
      (simp add: ws_writer_def WebSocket_AsyncWrite_def ws_send_def wire_send_def ws_wire_def Let_def)
qed

lemma send_events_messages:
  assumes A: "aead_ok A" and L: "pb_lib_ok L" and mask: "\<And>ws. length (mk ws) = 4"
  shows "writer_ok w \<Longrightarrow> synced (cipher_ctx w) r \<Longrightarrow> (\<forall>e\<in>set es. wf_event kMaxChunkSize e) \<Longrightarrow>
    \<exists>w' efs fs r'. send_events (CipherContext_Encrypt A L) (ws_writer wire_send mk) tm w es = Some w' \<and>
      cipher.frames A L r efs r' \<and> synced (cipher_ctx w') r' \<and> list_all2 ws_message fs (map snd efs) \<and>
      ws_wire (io_conn w') = ws_wire (io_conn w) @ concat fs \<and> list_all2 (\<lambda>e ef. \<exists>n. fst ef = with_len n e) es efs"
proof (induction es arbitrary: w r)
  case Nil
  then show ?case by (intro exI [of _ w] exI [of _ "[]"] exI [of _ "[]"] exI [of _ r]) simp
next
  case (Cons e es)
  have buf: "length (write_buffer w) = 8456" and e: "wf_event kMaxChunkSize e" using Cons.prems by (simp_all add: writer_ok_def)
  from Encrypt_framed [OF A L Cons.prems(2) e buf] obtain f n s1 r1 where
    enc: "CipherContext_Encrypt A L (cipher_ctx w) e (write_buffer w) = (Inr f, s1, with_len n e)"
    and fr: "cipher_framed A L r (with_len n e) f r1" and sy: "synced s1 r1" by blast
  have fl: "length f \<le> 8456" "length f < 2 ^ 64" using cipher.frame_size [OF fr] by simp_all
  obtain ws' g where ws: "ws_writer wire_send mk (io_conn w) f = (0, ws')" "ws_message g f"
    "ws_wire ws' = ws_wire (io_conn w) @ g" using ws_writer_sends [of mk f "io_conn w", OF mask fl(2)] by blast
  from Write_through [where enc = "CipherContext_Encrypt A L" and wr = "ws_writer wire_send mk" and tm = tm, OF Cons.prems(1) enc fl(1) ws(1)]
  obtain w1 where w1: "MuxConnection_Write (CipherContext_Encrypt A L) (ws_writer wire_send mk) tm w e = (True, w1)"
    "writer_ok w1" "cipher_ctx w1 = s1" "io_conn w1 = ws'" by blast
  from Cons.IH [OF w1(2), of r1] w1(3) sy Cons.prems(3) obtain w' efs fs r' where
    IH: "send_events (CipherContext_Encrypt A L) (ws_writer wire_send mk) tm w1 es = Some w'"
      "cipher.frames A L r1 efs r'" "synced (cipher_ctx w') r'" "list_all2 ws_message fs (map snd efs)"
      "ws_wire (io_conn w') = ws_wire (io_conn w1) @ concat fs" "list_all2 (\<lambda>e ef. \<exists>n. fst ef = with_len n e) es efs" by auto
  have "cipher.frames A L r ((with_len n e, f) # efs) r'" using fr IH(2) by auto
  with IH w1 ws show ?case
    by (intro exI [of _ w'] exI [of _ "(with_len n e, f) # efs"] exI [of _ "g # fs"] exI [of _ r']) auto
qed

subsection \<open>Properties\<close>

text \<open>C4: mux events over a web socket.  Every list of well-formed events is written with success, on
  either side and with any masks; and a peer with a synchronised cipher context that has decoded all
  it has read, however the network cuts the bytes, reads exactly these events, one per message, and
  is again synchronised, with what follows still unread.\<close>

theorem mux_over_web_socket:
  assumes "aead_ok A" "pb_lib_ok L" "live_connection rd pend ok" and mask: "\<And>ws. length (mk ws) = 4"
    and "writer_ok w" "synced (cipher_ctx w) r" "\<forall>e\<in>set es. wf_event kMaxChunkSize e"
  shows "\<exists>w' bs es'. send_events (CipherContext_Encrypt A L) (ws_writer wire_send mk) tm w es = Some w' \<and>
    ws_wire (io_conn w') = ws_wire (io_conn w) @ bs \<and> list_all2 (\<lambda>e e'. \<exists>n. e' = with_len n e) es es' \<and>
    (\<forall>c rest. cipher_ctx c = r \<longrightarrow> at_boundary c \<longrightarrow> ws_ok ok (io_conn c) \<longrightarrow> ws_pending pend (io_conn c) = bs @ rest \<longrightarrow>
       (\<exists>c'. read_events (CipherContext_Decrypt A L) (ws_reader rd) tm' (length es) c = Some (es', c') \<and>
          at_boundary c' \<and> ws_pending pend (io_conn c') = rest \<and> synced (cipher_ctx w') (cipher_ctx c')))"
proof -
  obtain w' efs fs r' where w: "send_events (CipherContext_Encrypt A L) (ws_writer wire_send mk) tm w es = Some w'"
      "cipher.frames A L r efs r'" "synced (cipher_ctx w') r'" "list_all2 ws_message fs (map snd efs)"
      "ws_wire (io_conn w') = ws_wire (io_conn w) @ concat fs" "list_all2 (\<lambda>e ef. \<exists>n. fst ef = with_len n e) es efs"
    using send_events_messages [where mk = mk, OF assms(1,2) mask assms(5-7)] by blast
  have "\<exists>c'. read_events (CipherContext_Decrypt A L) (ws_reader rd) tm' (length es) c = Some (map fst efs, c') \<and>
      at_boundary c' \<and> ws_pending pend (io_conn c') = rest \<and> synced (cipher_ctx w') (cipher_ctx c')"
    if "cipher_ctx c = r" "at_boundary c" "ws_ok ok (io_conn c)" "ws_pending pend (io_conn c) = concat fs @ rest" for c rest
  proof -
    have "ws_queued pend ok rest (io_conn c) (map snd efs)" using that w(4) by (auto simp: ws_queued_def)
    from message_reader.read_events_messages [OF ws_event_reader [OF assms(3)] that(2) this, of A L r' tm'] that(1) w(2)
    obtain c' where "read_events (CipherContext_Decrypt A L) (ws_reader rd) tm' (length efs) c = Some (map fst efs, c')"
      "at_boundary c'" "ws_queued pend ok rest (io_conn c') []" "cipher_ctx c' = r'" by blast
    then show ?thesis using w(3) list_all2_lengthD [OF w(6)] by (auto simp: ws_queued_def)
  qed
  then show ?thesis using w(1,5,6)
    by (intro exI [of _ w'] exI [of _ "concat fs"] exI [of _ "map fst efs"]) (simp add: list.rel_map)
qed

text \<open>Two chunks from a client, delivered to the server one byte at a time.\<close>

theorem mux_over_web_socket_witness:
  "\<exists>w' es' c'. send_events (CipherContext_Encrypt ref_aead ref_pb) (ws_writer wire_send (\<lambda>_. [1, 2, 3, 4])) (\<lambda>_. 1700000000)
      (sample_conn (WebSocket_new [] [])) [sample_chunk, sample_chunk] = Some w' \<and>
    list_all2 (\<lambda>e e'. \<exists>n. e' = with_len n e) [sample_chunk, sample_chunk] es' \<and>
    read_events (CipherContext_Decrypt ref_aead ref_pb) (ws_reader script_read) (\<lambda>_. 1700000001) 2
      (sample_conn (sample_reader (map (\<lambda>b. [b]) (ws_wire (io_conn w'))))) = Some (es', c') \<and>
    ws_pending concat (io_conn c') = []"
proof -
  define es where "es = [sample_chunk, sample_chunk]"
  have es: "\<forall>e\<in>set es. wf_event kMaxChunkSize e" "length es = 2" using sample_chunk_wf by (simp_all add: es_def)
  have sy: "synced (cipher_ctx (sample_conn (WebSocket_new [] []))) sample_ctx"
    using sample_ctx_synced by (simp add: sample_conn_simps)
  have mk: "length ((\<lambda>_. [1, 2, 3, 4]) ws) = 4" for ws :: "bytes WebSocket" by simp
  obtain w' bs es' where w: "send_events (CipherContext_Encrypt ref_aead ref_pb) (ws_writer wire_send (\<lambda>_. [1, 2, 3, 4])) (\<lambda>_. 1700000000)
      (sample_conn (WebSocket_new [] [])) es = Some w'" "ws_wire (io_conn w') = ws_wire (WebSocket_new [] []) @ bs"
      "list_all2 (\<lambda>e e'. \<exists>n. e' = with_len n e) es es'"
    and rd: "\<And>(c :: (bytes CipherContext, bytes list WebSocket) MuxConnection) rest. cipher_ctx c = sample_ctx \<Longrightarrow> at_boundary c \<Longrightarrow>
       ws_ok (\<lambda>_. True) (io_conn c) \<Longrightarrow> ws_pending concat (io_conn c) = bs @ rest \<Longrightarrow>
       \<exists>c'. read_events (CipherContext_Decrypt ref_aead ref_pb) (ws_reader script_read) (\<lambda>_. 1700000001) 2 c = Some (es', c') \<and>
          ws_pending concat (io_conn c') = rest"
    using mux_over_web_socket [where mk = "\<lambda>_. [1, 2, 3, 4]", OF ref_aead_ok ref_pb_ok scripted.live_connection_axioms _ sample_conn_simps(1) sy es(1),
        of "\<lambda>_. 1700000000" "\<lambda>_. 1700000001", unfolded es(2) sample_conn_simps, OF mk] by blast
  let ?s = "sample_reader (map (\<lambda>b. [b]) bs)"
  have "concat (map (\<lambda>b. [b]) bs) = bs" by (induction bs) auto
  then have s: "ws_ok (\<lambda>_. True) ?s" "ws_pending concat ?s = bs @ []"
    by (simp_all add: sample_reader_def WebSocket_new_def ws_ok_def ws_pending_def buffered_inv_def buffered_pending_def slice_of_def)
  have "at_boundary (sample_conn ?s)" by (simp add: at_boundary_def sample_conn_def MuxConnection_new_def spans_ok_def)
  with rd [of "sample_conn ?s" "[]"] s obtain c' where
    "read_events (CipherContext_Decrypt ref_aead ref_pb) (ws_reader script_read) (\<lambda>_. 1700000001) 2 (sample_conn ?s) = Some (es', c')"
    "ws_pending concat (io_conn c') = []" unfolding sample_conn_simps by blast
  moreover have "ws_wire (io_conn w') = bs" using w(2) by (simp add: ws_wire_def WebSocket_new_def)
  ultimately show ?thesis using w(1,3) unfolding es_def by blast
qed

end
