(* ===== verification/Statistics.thy ===== *)
theory Statistics
  imports Mux_Server Iobuf_Pool "HOL-Library.List_Lexorder"
begin

text \<open>
  \<^verbatim>\<open>snova/util/stat.cc\<close> and the functions that other parts register with it (\<^verbatim>\<open>io/io.cc\<close>,
  \<^verbatim>\<open>mux/mux_conn_manager.cc\<close>, \<^verbatim>\<open>server/mux_server.cc\<close>, \<^verbatim>\<open>server/entry_server.cc\<close>): a report of counters, printed
  once per period.  The report is more than output: the function of the connection manager closes the
  connections that were idle for too long, and nothing else in the program does.

  The hash maps of a report are association lists whose order stands for the iteration order; the
  ordered maps that are printed are association lists sorted by key.
\<close>

subsection \<open>Values\<close>

type_synonym StatKeyValue = "(bytes \<times> bytes) list"
type_synonym StatValues = "(bytes \<times> StatKeyValue) list"
type_synonym StatTable = "(bytes \<times> (bytes \<times> bytes) list) list"

text \<open>\<^verbatim>\<open>map[k]\<close> of an ordered map: an entry is made when there is none, then changed.\<close>

fun btree_update :: "'k::linorder \<Rightarrow> ('v option \<Rightarrow> 'v) \<Rightarrow> ('k \<times> 'v) list \<Rightarrow> ('k \<times> 'v) list" where
  "btree_update k f [] = [(k, f None)]"
| "btree_update k f ((k', v') # m) =
     (if k < k' then (k, f None) # (k', v') # m
      else if k = k' then (k, f (Some v')) # m
      else (k', v') # btree_update k f m)"

text \<open>\<^verbatim>\<open>g_stat_table[sec][k] = v\<close>\<close>

definition stat_table_set :: "bytes \<Rightarrow> bytes \<Rightarrow> bytes \<Rightarrow> StatTable \<Rightarrow> StatTable" where
  "stat_table_set sec k v t =
     btree_update sec (\<lambda>m. btree_update k (\<lambda>_. v) (case m of None \<Rightarrow> [] | Some kvs \<Rightarrow> kvs)) t"

definition merge_stats :: "StatValues \<Rightarrow> StatTable \<Rightarrow> StatTable" where
  "merge_stats stat_vals t = foldl (\<lambda>t (sec, kvs). foldl (\<lambda>t (k, v). stat_table_set sec k v t) t kvs) t stat_vals"

definition stat_text :: "StatTable \<Rightarrow> bytes" where
  "stat_text t = str ''======================Stats====================='' @ [10] @
     concat (map (\<lambda>(sec, kvs). str ''['' @ sec @ str '']:'' @ [10] @
       concat (map (\<lambda>(k, v). str ''  '' @ k @ str '': '' @ v @ [10]) kvs) @ [10]) t)"

subsection \<open>The reports\<close>

datatype stat_func = IOBufStat | MuxStat | MuxConnStat | MuxServerStat | LocalServerStat

text \<open>
  What the functions read.  \<open>sw_users\<close> lists the users in the iteration order of their table,
  \<open>sw_stream_num\<close> is the size of the stream table, the rest are global counters.
\<close>

record ('r, 's, 'e, 'k, 'w) stat_world =
  sw_node :: "('r, 's, 'e, 'k, 'w) node"
  sw_pool :: iobuf_pool
  sw_users :: "bytes list"
  sw_stream_num :: nat
  g_mux_conn_num :: u32
  g_mux_conn_num_in_loop :: u32
  g_local_proxy_conn_num :: u32

definition indexed :: "nat \<Rightarrow> string \<Rightarrow> bytes" where
  "indexed i s = str ''['' @ to_string i @ str '']'' @ str s"

definition iobuf_stat :: "iobuf_pool \<Rightarrow> StatValues" where
  "iobuf_stat g = [(str ''IOBuf'',
     [(str ''pool_size'', to_string (length (g_io_bufs g))),
      (str ''pool_bytes'', to_string (unat (g_iobuf_pool_bytes g))),
      (str ''active_iobuf_num'', to_string (unat (g_active_iobuf_num g))),
      (str ''active_iobuf_bytes'', to_string (unat (g_active_iobuf_bytes g)))])]"

definition mux_stat :: "('r, 's, 'e, 'k, 'w) stat_world \<Rightarrow> StatValues" where
  "mux_stat W = [(str ''Mux'',
     [(str ''stream_num'', to_string (sw_stream_num W)),
      (str ''stream_active_num'', to_string (unat (g_active_stream_size (nd_streams (sw_node W))))),
      (str ''connection_num'', to_string (unat (g_mux_conn_num W))),
      (str ''connection_active_num'', to_string (unat (g_mux_conn_num_in_loop W)))])]"

text \<open>How long a connection has been idle, in unsigned seconds.\<close>

definition inactive_secs :: "u32 \<Rightarrow> ('r, 's) MuxConnection \<Rightarrow> u32" where
  "inactive_secs now c = now - GetLastActiveUnixSecs c"

definition conn_report :: "u32 \<Rightarrow> nat \<Rightarrow> ('r, 's) MuxConnection \<Rightarrow> StatKeyValue \<Rightarrow> StatKeyValue" where
  "conn_report now i c kv =
     foldl (\<lambda>kv (k, v). AList.update (indexed i k) (to_string v) kv) kv
       [(''inactive_secs'', unat (inactive_secs now c)),
        (''recv_bytes'', unat (recv_bytes c)),
        (''send_bytes'', unat (send_bytes c)),
        (''latest_30s_recv_bytes'', unat (GetLatestWindowRecvBytes c)),
        (''latest_30s_send_bytes'', unat (GetLatestWindowSendBytes c))]"

definition close_idle ::
  "('s \<Rightarrow> 's) \<Rightarrow> u32 \<Rightarrow> u32 \<Rightarrow> nat \<Rightarrow> (nat \<rightharpoonup> ('r, 's) MuxConnection) \<Rightarrow> (nat \<rightharpoonup> ('r, 's) MuxConnection)" where
  "close_idle io_close max_inactive now x cs =
     (if max_inactive < inactive_secs now (the (cs x))
      then cs(x \<mapsto> MuxConnection_Close io_close (the (cs x))) else cs)"

text \<open>\<^verbatim>\<open>MuxSession::ReportStatInfo\<close> from slot \<open>i\<close> on, over the store of connections.\<close>

fun session_report ::
  "('s \<Rightarrow> 's) \<Rightarrow> u32 \<Rightarrow> u32 \<Rightarrow> nat \<Rightarrow> nat option list \<Rightarrow> StatKeyValue \<times> (nat \<rightharpoonup> ('r, 's) MuxConnection) \<Rightarrow>
     StatKeyValue \<times> (nat \<rightharpoonup> ('r, 's) MuxConnection)" where
  "session_report io_close max_inactive now i [] (kv, cs) = (kv, cs)"
| "session_report io_close max_inactive now i (None # rest) (kv, cs) =
     session_report io_close max_inactive now (i + 1) rest (AList.update (indexed i '''') (str ''NULL'') kv, cs)"
| "session_report io_close max_inactive now i (Some x # rest) (kv, cs) =
     session_report io_close max_inactive now (i + 1) rest
       (conn_report now i (the (cs x)) kv, close_idle io_close max_inactive now x cs)"

definition session_section :: "MuxConnectionType \<Rightarrow> bytes \<Rightarrow> u64 \<Rightarrow> bytes" where
  "session_section ty user cid =
     str ''['' @ (case ty of MUX_ENTRY_CONN \<Rightarrow> str ''ENTRY'' | MUX_EXIT_CONN \<Rightarrow> str ''EXIT'') @ str '']MuxConnection:'' @
     user @ str '':'' @ to_string (unat cid)"

text \<open>\<^verbatim>\<open>MuxConnManager::ReportStatInfo\<close>: one session, then all of a user, then all users.\<close>

definition report_session ::
  "('s \<Rightarrow> 's) \<Rightarrow> u32 \<Rightarrow> u32 \<Rightarrow> MuxConnectionType \<Rightarrow> bytes \<Rightarrow> StatValues \<times> ('r, 's) MuxConnManager \<Rightarrow> u64 \<times> nat \<Rightarrow>
     StatValues \<times> ('r, 's) MuxConnManager" where
  "report_session io_close max_inactive now ty user r s =
     (case r of (stats, m) \<Rightarrow> case s of (cid, sr) \<Rightarrow>
        let sec = session_section ty user cid; kv = (case map_of stats sec of None \<Rightarrow> [] | Some kv \<Rightarrow> kv) in
        case session_report io_close max_inactive now 0 (conns (the (sess_store m sr))) (kv, conn_store m) of
          (kv', cs') \<Rightarrow> (AList.update sec kv' stats, m\<lparr>conn_store := cs'\<rparr>))"

definition report_user ::
  "('s \<Rightarrow> 's) \<Rightarrow> u32 \<Rightarrow> u32 \<Rightarrow> StatValues \<times> ('r, 's) MuxConnManager \<Rightarrow> bytes \<Rightarrow> StatValues \<times> ('r, 's) MuxConnManager" where
  "report_user io_close max_inactive now r user =
     (case mux_conns (snd r) user of
        None \<Rightarrow> r
      | Some tabs \<Rightarrow>
          foldl (\<lambda>r ty. foldl (report_session io_close max_inactive now ty user) r (tabs ty)) r [MUX_ENTRY_CONN, MUX_EXIT_CONN])"

definition MuxConnManager_ReportStatInfo ::
  "('s \<Rightarrow> 's) \<Rightarrow> u32 \<Rightarrow> u32 \<Rightarrow> bytes list \<Rightarrow> ('r, 's) MuxConnManager \<Rightarrow> StatValues \<times> ('r, 's) MuxConnManager" where
  "MuxConnManager_ReportStatInfo io_close max_inactive now users m =
     foldl (report_user io_close max_inactive now) ([], m) users"

fun call_stat_func ::
  "('s \<Rightarrow> 's) \<Rightarrow> u32 \<Rightarrow> u32 \<Rightarrow> stat_func \<Rightarrow> ('r, 's, 'e, 'k, 'w) stat_world \<Rightarrow> StatValues \<times> ('r, 's, 'e, 'k, 'w) stat_world" where
  "call_stat_func io_close max_inactive now IOBufStat W = (iobuf_stat (sw_pool W), W)"
| "call_stat_func io_close max_inactive now MuxStat W = (mux_stat W, W)"
| "call_stat_func io_close max_inactive now MuxConnStat W =
     (case MuxConnManager_ReportStatInfo io_close max_inactive now (sw_users W) (nd_mgr (sw_node W)) of
        (vals, m) \<Rightarrow> (vals, W\<lparr>sw_node := (sw_node W)\<lparr>nd_mgr := m\<rparr>\<rparr>))"
| "call_stat_func io_close max_inactive now MuxServerStat W =
     ([(str ''MuxServer'', [(str ''mux_server_conn_num'', to_string (unat (nd_server_conn_num (sw_node W))))])], W)"
| "call_stat_func io_close max_inactive now LocalServerStat W =
     ([(str ''LocalServer'', [(str ''local_proxy_conn_num'', to_string (unat (g_local_proxy_conn_num W)))])], W)"

subsection \<open>The counters of objects\<close>

text \<open>
  \<^verbatim>\<open>MuxConnection\<close> counts its objects and those in \<^verbatim>\<open>ReadEventLoop\<close>, the entry server the connections of
  its users.
\<close>

definition conn_created :: "('r, 's, 'e, 'k, 'w) stat_world \<Rightarrow> ('r, 's, 'e, 'k, 'w) stat_world" where
  "conn_created W = W\<lparr>g_mux_conn_num := g_mux_conn_num W + 1\<rparr>"

definition conn_destroyed :: "('r, 's, 'e, 'k, 'w) stat_world \<Rightarrow> ('r, 's, 'e, 'k, 'w) stat_world" where
  "conn_destroyed W = W\<lparr>g_mux_conn_num := g_mux_conn_num W - 1\<rparr>"

definition loop_entered :: "('r, 's, 'e, 'k, 'w) stat_world \<Rightarrow> ('r, 's, 'e, 'k, 'w) stat_world" where
  "loop_entered W = W\<lparr>g_mux_conn_num_in_loop := g_mux_conn_num_in_loop W + 1\<rparr>"

definition loop_left :: "('r, 's, 'e, 'k, 'w) stat_world \<Rightarrow> ('r, 's, 'e, 'k, 'w) stat_world" where
  "loop_left W = W\<lparr>g_mux_conn_num_in_loop := g_mux_conn_num_in_loop W - 1\<rparr>"

definition proxy_entered :: "('r, 's, 'e, 'k, 'w) stat_world \<Rightarrow> ('r, 's, 'e, 'k, 'w) stat_world" where
  "proxy_entered W = W\<lparr>g_local_proxy_conn_num := g_local_proxy_conn_num W + 1\<rparr>"

definition proxy_left :: "('r, 's, 'e, 'k, 'w) stat_world \<Rightarrow> ('r, 's, 'e, 'k, 'w) stat_world" where
  "proxy_left W = W\<lparr>g_local_proxy_conn_num := g_local_proxy_conn_num W - 1\<rparr>"

text \<open>
  The sets are the connections there are, those in their read loop, which runs on a connection that is
  there, and the users' connections; reports may come in between.
\<close>

inductive counts ::
  "('s \<Rightarrow> 's) \<Rightarrow> ('r, 's, 'e, 'k, 'w) stat_world \<times> nat set \<times> nat set \<times> nat set \<Rightarrow> bool" for io_close where
  init: "g_mux_conn_num W = 0 \<Longrightarrow> g_mux_conn_num_in_loop W = 0 \<Longrightarrow> g_local_proxy_conn_num W = 0 \<Longrightarrow>
    counts io_close (W, {}, {}, {})"
| created: "counts io_close (W, C, L, P) \<Longrightarrow> c \<notin> C \<Longrightarrow> counts io_close (conn_created W, insert c C, L, P)"
| destroyed: "counts io_close (W, C, L, P) \<Longrightarrow> c \<in> C - L \<Longrightarrow> counts io_close (conn_destroyed W, C - {c}, L, P)"
| entered: "counts io_close (W, C, L, P) \<Longrightarrow> c \<in> C - L \<Longrightarrow> counts io_close (loop_entered W, C, insert c L, P)"
| left: "counts io_close (W, C, L, P) \<Longrightarrow> c \<in> L \<Longrightarrow> counts io_close (loop_left W, C, L - {c}, P)"
| proxied: "counts io_close (W, C, L, P) \<Longrightarrow> c \<notin> P \<Longrightarrow> counts io_close (proxy_entered W, C, L, insert c P)"
| proxy_done: "counts io_close (W, C, L, P) \<Longrightarrow> c \<in> P \<Longrightarrow> counts io_close (proxy_left W, C, L, P - {c})"
| reported: "counts io_close (W, C, L, P) \<Longrightarrow> counts io_close (snd (call_stat_func io_close max_inactive now f W), C, L, P)"

lemma word_of_card_remove: "finite A \<Longrightarrow> c \<in> A \<Longrightarrow> (word_of_nat (card A) - 1 :: u32) = word_of_nat (card (A - {c}))"
  by (drule (1) card_Suc_Diff1 [symmetric]) (simp del: card_Diff_insert card_Diff_singleton)

lemma counts_exact_inv:
  "counts io_close (W, C, L, P) \<Longrightarrow> finite C \<and> finite P \<and> L \<subseteq> C \<and> g_mux_conn_num W = word_of_nat (card C) \<and>
     g_mux_conn_num_in_loop W = word_of_nat (card L) \<and> g_local_proxy_conn_num W = word_of_nat (card P)"
proof (induction "(W, C, L, P)" arbitrary: W C L P rule: counts.induct)
  case (created W C L P c)
  then show ?case by (auto simp: conn_created_def)
next
  case (destroyed W C L P c)
  then show ?case by (auto simp: conn_destroyed_def word_of_card_remove)
next
  case (entered W C L P c)
  then have "finite L" using finite_subset by blast
  with entered show ?case by (auto simp: loop_entered_def)
next
  case (left W C L P c)
  then have "finite L" using finite_subset by blast
  with left show ?case by (auto simp: loop_left_def word_of_card_remove)
next
  case (proxied W C L P c)
  then show ?case by (auto simp: proxy_entered_def)
next
  case (proxy_done W C L P c)
  then show ?case by (auto simp: proxy_left_def word_of_card_remove)
next
  case (reported W C L P max_inactive now f)
  then show ?case by (cases f) (simp_all split: prod.split)
qed simp

text \<open>The numbers of connections in a report are those of the connections there are, and the active ones
  are not more than all, as long as there are fewer than \<open>2 ^ 32\<close>.\<close>

theorem counts_exact:
  assumes "counts io_close (W, C, L, P)" "card C < 2 ^ 32" "card P < 2 ^ 32"
  shows "unat (g_mux_conn_num W) = card C \<and> unat (g_mux_conn_num_in_loop W) = card L \<and>
    unat (g_local_proxy_conn_num W) = card P \<and> unat (g_mux_conn_num_in_loop W) \<le> unat (g_mux_conn_num W)"
proof -
  note inv = counts_exact_inv [OF assms(1)]
  have "card L \<le> card C" using inv card_mono by blast
  with inv assms(2,3) show ?thesis by (simp add: unat_of_nat)
qed

subsection \<open>Registering and printing\<close>

definition register_stat_func :: "stat_func \<Rightarrow> stat_func list \<Rightarrow> stat_func list" where
  "register_stat_func f g_stat_funcs = g_stat_funcs @ [f]"

text \<open>\<^verbatim>\<open>init_stats\<close> of \<^verbatim>\<open>app/snova.cc\<close>.\<close>

definition init_stats :: "stat_func list \<Rightarrow> stat_func list" where
  "init_stats = register_stat_func MuxConnStat \<circ> register_stat_func MuxStat \<circ> register_stat_func IOBufStat"

fun collect_stats ::
  "('s \<Rightarrow> 's) \<Rightarrow> u32 \<Rightarrow> u32 \<Rightarrow> stat_func list \<Rightarrow> StatTable \<times> ('r, 's, 'e, 'k, 'w) stat_world \<Rightarrow>
     StatTable \<times> ('r, 's, 'e, 'k, 'w) stat_world" where
  "collect_stats io_close max_inactive now [] (t, W) = (t, W)"
| "collect_stats io_close max_inactive now (f # fs) (t, W) =
     (case call_stat_func io_close max_inactive now f W of
        (stat_vals, W1) \<Rightarrow> collect_stats io_close max_inactive now fs (merge_stats stat_vals t, W1))"

text \<open>The line that is logged, if any.\<close>

definition print_stats ::
  "('s \<Rightarrow> 's) \<Rightarrow> u32 \<Rightarrow> u32 \<Rightarrow> stat_func list \<Rightarrow> ('r, 's, 'e, 'k, 'w) stat_world \<Rightarrow> bytes option \<times> ('r, 's, 'e, 'k, 'w) stat_world" where
  "print_stats io_close max_inactive now g_stat_funcs W =
     (case collect_stats io_close max_inactive now g_stat_funcs ([], W) of
        (t, W1) \<Rightarrow> if t = [] then (None, W1) else (Some (stat_text t), W1))"

text \<open>
  \<^verbatim>\<open>start_stat_timer\<close>: a report each time the timer expires.  \<open>nows\<close> are the clock values at the first
  expirations; between two of them \<open>run\<close> is what the other coroutines do.
\<close>

fun start_stat_timer ::
  "('s \<Rightarrow> 's) \<Rightarrow> u32 \<Rightarrow> stat_func list \<Rightarrow> (('r, 's, 'e, 'k, 'w) stat_world \<Rightarrow> ('r, 's, 'e, 'k, 'w) stat_world) \<Rightarrow>
     u32 list \<Rightarrow> ('r, 's, 'e, 'k, 'w) stat_world \<Rightarrow> bytes option list \<times> ('r, 's, 'e, 'k, 'w) stat_world" where
  "start_stat_timer io_close max_inactive g_stat_funcs run [] W = ([], W)"
| "start_stat_timer io_close max_inactive g_stat_funcs run (now # nows) W =
     (case print_stats io_close max_inactive now g_stat_funcs (run W) of
        (line, W1) \<Rightarrow> apfst ((#) line) (start_stat_timer io_close max_inactive g_stat_funcs run nows W1))"

subsection \<open>Ordered maps\<close>

lemma btree_update_set: "fst ` set (btree_update k f m) = insert k (fst ` set m)"
  by (induction k f m rule: btree_update.induct) (simp_all add: insert_commute)

lemma btree_update_sorted:
  "sorted_wrt (<) (map fst m) \<Longrightarrow> sorted_wrt (<) (map fst (btree_update k f m))"
proof (induction m)
  case (Cons e m)
  obtain k' v' where e: "e = (k', v')" by fastforce
  have k': "\<forall>x\<in>fst ` set m. k' < x" using Cons.prems e by simp
  consider "k < k'" | "k = k'" | "k' < k" by fastforce
  then show ?case
  proof cases
    case 1
    with k' have "\<forall>x\<in>fst ` set m. k < x" by (meson order.strict_trans)
    with 1 Cons.prems e show ?thesis by simp
  next
    case 3
    with k' have "\<forall>x\<in>fst ` set (btree_update k f m). k' < x" by (simp add: btree_update_set)
    with 3 Cons e show ?thesis by (simp add: less_not_sym)
  qed (use Cons.prems e in simp)
qed simp

lemma btree_update_lookup:
  "sorted_wrt (<) (map fst m) \<Longrightarrow> map_of (btree_update k f m) = (map_of m)(k \<mapsto> f (map_of m k))"
proof (induction m)
  case (Cons e m)
  obtain k' v' where e: "e = (k', v')" by fastforce
  have "map_of m k = None" if "k < k'"
  proof -
    have "\<forall>x\<in>fst ` set m. k < x" using Cons.prems e that by (auto intro: order.strict_trans)
    then show ?thesis by (auto simp: map_of_eq_None_iff)
  qed
  with Cons e show ?case by (auto simp: fun_eq_iff)
qed simp

text \<open>A table as a flat map, and the entries a report sets, in order.\<close>

definition stat_lookup :: "StatTable \<Rightarrow> bytes \<times> bytes \<rightharpoonup> bytes" where
  "stat_lookup t = (\<lambda>(sec, k). Option.bind (map_of t sec) (\<lambda>kvs. map_of kvs k))"

definition stat_sorted :: "StatTable \<Rightarrow> bool" where
  "stat_sorted t \<longleftrightarrow> sorted_wrt (<) (map fst t) \<and> (\<forall>e\<in>set t. sorted_wrt (<) (map fst (snd e)))"

definition entries :: "StatValues \<Rightarrow> ((bytes \<times> bytes) \<times> bytes) list" where
  "entries vals = concat (map (\<lambda>(sec, kvs). map (\<lambda>(k, v). ((sec, k), v)) kvs) vals)"

lemma btree_update_inner:
  "\<forall>e\<in>set t. P (snd e) \<Longrightarrow> P (f None) \<Longrightarrow> (\<And>x. P x \<Longrightarrow> P (f (Some x))) \<Longrightarrow> \<forall>e\<in>set (btree_update k f t). P (snd e)"
  by (induction t) (fastforce split: if_splits)+

lemma stat_table_set_spec:
  assumes "stat_sorted t"
  shows "stat_sorted (stat_table_set sec k v t)" "stat_lookup (stat_table_set sec k v t) = (stat_lookup t)((sec, k) \<mapsto> v)"
proof -
  let ?f = "\<lambda>m. btree_update k (\<lambda>_. v) (case m of None \<Rightarrow> [] | Some kvs \<Rightarrow> kvs)"
  show "stat_sorted (stat_table_set sec k v t)"
    using assms btree_update_sorted [of t sec ?f]
      btree_update_inner [of t "\<lambda>x. sorted_wrt (<) (map fst x)" ?f sec] btree_update_sorted [of _ k "\<lambda>_. v"]
    by (simp add: stat_sorted_def stat_table_set_def)
  have outer: "map_of (stat_table_set sec k v t) = (map_of t)(sec \<mapsto> ?f (map_of t sec))"
    using assms btree_update_lookup [of t sec ?f] by (simp add: stat_sorted_def stat_table_set_def)
  have "map_of (?f (map_of t sec)) = (case map_of t sec of None \<Rightarrow> Map.empty | Some kvs \<Rightarrow> map_of kvs)(k \<mapsto> v)"
  proof (cases "map_of t sec")
    case (Some kvs)
    then have "(sec, kvs) \<in> set t" by (rule map_of_SomeD)
    then have "sorted_wrt (<) (map fst kvs)" using assms by (auto simp: stat_sorted_def)
    with Some btree_update_lookup [of kvs k "\<lambda>_. v"] show ?thesis by simp
  qed simp
  with outer show "stat_lookup (stat_table_set sec k v t) = (stat_lookup t)((sec, k) \<mapsto> v)"
    by (auto simp: stat_lookup_def fun_eq_iff split: option.splits)
qed

lemma merge_section_spec:
  "stat_sorted t \<Longrightarrow>
     stat_sorted (foldl (\<lambda>t (k, v). stat_table_set sec k v t) t kvs) \<and>
     stat_lookup (foldl (\<lambda>t (k, v). stat_table_set sec k v t) t kvs) = stat_lookup t ++ map_of (rev (map (\<lambda>(k, v). ((sec, k), v)) kvs))"
proof (induction kvs arbitrary: t)
  case (Cons e kvs)
  obtain k v where e: "e = (k, v)" by fastforce
  note s = stat_table_set_spec [OF Cons.prems, of sec k v]
  have "stat_lookup t ++ map_of (rev (map (\<lambda>(k, v). ((sec, k), v)) (e # kvs))) =
      stat_lookup (stat_table_set sec k v t) ++ map_of (rev (map (\<lambda>(k, v). ((sec, k), v)) kvs))"
    by (simp only: s(2) e list.map prod.case rev.simps map_of_append) (auto simp: map_add_def fun_eq_iff split: option.split)
  with Cons.IH [OF s(1)] e show ?case by (simp only: foldl_Cons prod.case)
qed simp

lemma merge_stats_spec:
  "stat_sorted t \<Longrightarrow>
     stat_sorted (merge_stats vals t) \<and> stat_lookup (merge_stats vals t) = stat_lookup t ++ map_of (rev (entries vals))"
proof (induction vals arbitrary: t)
  case Nil
  then show ?case by (simp add: merge_stats_def entries_def)
next
  case (Cons e vals)
  obtain sec kvs where e: "e = (sec, kvs)" by fastforce
  note s = merge_section_spec [OF Cons.prems, of sec kvs]
  have "merge_stats (e # vals) t = merge_stats vals (foldl (\<lambda>t (k, v). stat_table_set sec k v t) t kvs)"
    by (simp add: merge_stats_def e)
  moreover have "entries (e # vals) = map (\<lambda>(k, v). ((sec, k), v)) kvs @ entries vals" by (simp add: entries_def e)
  ultimately show ?case using s Cons.IH by simp
qed

subsection \<open>Closing idle connections\<close>

text \<open>The connections a report visits, in order.\<close>

definition slots :: "'a option list \<Rightarrow> 'a list" where
  "slots cs = concat (map (\<lambda>c. case c of None \<Rightarrow> [] | Some x \<Rightarrow> [x]) cs)"

definition reported :: "bytes list \<Rightarrow> ('r, 's) MuxConnManager \<Rightarrow> nat list" where
  "reported users m = concat (map (\<lambda>user. case mux_conns m user of None \<Rightarrow> [] | Some tabs \<Rightarrow>
     concat (map (\<lambda>ty. concat (map (\<lambda>(cid, sr). slots (conns (the (sess_store m sr)))) (tabs ty))) [MUX_ENTRY_CONN, MUX_EXIT_CONN])) users)"

abbreviation close_all ::
  "('s \<Rightarrow> 's) \<Rightarrow> u32 \<Rightarrow> u32 \<Rightarrow> nat list \<Rightarrow> (nat \<rightharpoonup> ('r, 's) MuxConnection) \<Rightarrow> (nat \<rightharpoonup> ('r, 's) MuxConnection)" where
  "close_all io_close max_inactive now xs cs \<equiv> foldl (\<lambda>cs x. close_idle io_close max_inactive now x cs) cs xs"

lemma session_report_store:
  "snd (session_report io_close mx now i cs (kv, st)) = close_all io_close mx now (slots cs) st"
  by (induction io_close mx now i cs "(kv, st)" arbitrary: kv st rule: session_report.induct) (simp_all add: slots_def)

text \<open>A loop over steps that change the store of connections only.\<close>

lemma foldl_store:
  assumes "\<And>v cs x. snd (step (v, m\<lparr>conn_store := cs\<rparr>) x) = m\<lparr>conn_store := close_all io_close mx now (visit x) cs\<rparr>"
  shows "snd (foldl step (v, m\<lparr>conn_store := cs\<rparr>) xs) = m\<lparr>conn_store := close_all io_close mx now (concat (map visit xs)) cs\<rparr>"
proof (induction xs arbitrary: v cs)
  case (Cons x xs)
  obtain v1 m1 where s: "step (v, m\<lparr>conn_store := cs\<rparr>) x = (v1, m1)" by fastforce
  with assms [of v cs x] have "m1 = m\<lparr>conn_store := close_all io_close mx now (visit x) cs\<rparr>" by simp
  with Cons.IH [of v1] s show ?case by simp
qed simp

lemma report_session_store:
  "snd (report_session io_close mx now ty user (v, m\<lparr>conn_store := cs\<rparr>) e) =
     m\<lparr>conn_store := close_all io_close mx now (case e of (cid, sr) \<Rightarrow> slots (conns (the (sess_store m sr)))) cs\<rparr>"
proof -
  obtain cid sr where e: "e = (cid, sr)" by fastforce
  let ?sec = "session_section ty user cid"
  let ?kv = "case map_of v ?sec of None \<Rightarrow> [] | Some kv \<Rightarrow> kv"
  obtain kv' cs' where r: "session_report io_close mx now 0 (conns (the (sess_store m sr))) (?kv, cs) = (kv', cs')" by fastforce
  with session_report_store [of io_close mx now 0 "conns (the (sess_store m sr))" ?kv cs]
  have "cs' = close_all io_close mx now (slots (conns (the (sess_store m sr)))) cs" by simp
  with r show ?thesis by (simp add: report_session_def Let_def e)
qed

lemma report_user_store:
  "snd (report_user io_close mx now (v, m\<lparr>conn_store := cs\<rparr>) user) =
     m\<lparr>conn_store := close_all io_close mx now (reported [user] m) cs\<rparr>"
proof (cases "mux_conns m user")
  case (Some tabs)
  let ?visit = "\<lambda>ty. concat (map (\<lambda>(cid, sr). slots (conns (the (sess_store m sr)))) (tabs ty))"
  have one: "snd (foldl (report_session io_close mx now ty user) (v, m\<lparr>conn_store := cs\<rparr>) (tabs ty)) =
      m\<lparr>conn_store := close_all io_close mx now (?visit ty) cs\<rparr>" for v cs ty
    by (rule foldl_store [OF report_session_store])
  have "snd (foldl (\<lambda>r ty. foldl (report_session io_close mx now ty user) r (tabs ty)) (v, m\<lparr>conn_store := cs\<rparr>) [MUX_ENTRY_CONN, MUX_EXIT_CONN]) =
      m\<lparr>conn_store := close_all io_close mx now (concat (map ?visit [MUX_ENTRY_CONN, MUX_EXIT_CONN])) cs\<rparr>"
    by (rule foldl_store [OF one])
  with Some show ?thesis by (simp add: report_user_def reported_def)
qed (simp add: report_user_def reported_def)

lemma ReportStatInfo_store:
  "snd (MuxConnManager_ReportStatInfo io_close mx now users m) =
     m\<lparr>conn_store := close_all io_close mx now (reported users m) (conn_store m)\<rparr>"
proof -
  have "concat (map (\<lambda>user. reported [user] m) users) = reported users m" by (simp add: reported_def)
  then show ?thesis
    using foldl_store [where step = "report_user io_close mx now" and m = m and cs = "conn_store m" and v = "[]" and xs = users,
        OF report_user_store]
    by (simp add: MuxConnManager_ReportStatInfo_def)
qed

lemma inactive_Close [simp]: "inactive_secs now (MuxConnection_Close io_close c) = inactive_secs now c"
  by (simp add: inactive_secs_def GetLastActiveUnixSecs_def MuxConnection_Close_def)

lemma inactive_Close_iter [simp]: "inactive_secs now ((MuxConnection_Close io_close ^^ n) c) = inactive_secs now c"
  by (induction n) simp_all

lemma close_all_at:
  "cs x = Some c \<Longrightarrow> close_all io_close mx now xs cs x =
     Some ((MuxConnection_Close io_close ^^ (if mx < inactive_secs now c then count_list xs x else 0)) c)"
proof (induction xs arbitrary: cs c)
  case (Cons y xs)
  show ?case
  proof (cases "x = y \<and> mx < inactive_secs now c")
    case True
    then have "close_idle io_close mx now y cs x = Some (MuxConnection_Close io_close c)" using Cons.prems by (simp add: close_idle_def)
    from Cons.IH [of "close_idle io_close mx now y cs", OF this] True show ?thesis by (simp add: funpow_swap1)
  next
    case False
    then have "close_idle io_close mx now y cs x = Some c" using Cons.prems by (auto simp: close_idle_def)
    from Cons.IH [of "close_idle io_close mx now y cs", OF this] False show ?thesis by auto
  qed
qed simp

lemma reported_store [simp]: "reported users (m\<lparr>conn_store := cs\<rparr>) = reported users m"
  by (simp add: reported_def cong: option.case_cong)

text \<open>What a report does to the world: it closes connections, as often as it visits them.\<close>

lemma collect_store:
  "snd (collect_stats io_close mx now fs (t, W)) =
     W\<lparr>sw_node := (sw_node W)\<lparr>nd_mgr := (nd_mgr (sw_node W))\<lparr>conn_store :=
       close_all io_close mx now (concat (replicate (count_list fs MuxConnStat) (reported (sw_users W) (nd_mgr (sw_node W)))))
         (conn_store (nd_mgr (sw_node W)))\<rparr>\<rparr>\<rparr>"
proof (induction fs arbitrary: t W)
  case (Cons f fs)
  show ?case
  proof (cases "f = MuxConnStat")
    case True
    let ?m = "nd_mgr (sw_node W)"
    obtain vals m1 where r: "MuxConnManager_ReportStatInfo io_close mx now (sw_users W) ?m = (vals, m1)" by fastforce
    with ReportStatInfo_store [of io_close mx now "sw_users W" ?m]
    have m1: "m1 = ?m\<lparr>conn_store := close_all io_close mx now (reported (sw_users W) ?m) (conn_store ?m)\<rparr>" by simp
    have "reported (sw_users W) m1 = reported (sw_users W) ?m" by (simp add: m1)
    with True r m1 Cons.IH [of "merge_stats vals t" "W\<lparr>sw_node := (sw_node W)\<lparr>nd_mgr := m1\<rparr>\<rparr>"] show ?thesis by simp
  next
    case False
    then obtain vals where "call_stat_func io_close mx now f W = (vals, W)" by (cases f) auto
    with False Cons.IH [of "merge_stats vals t" W] show ?thesis by simp
  qed
qed simp

subsection \<open>Properties\<close>


definition sample_stat_world :: "(bytes CipherContext, bytes list, u16, unit, MuxEvent list \<times> nat) stat_world" where
  "sample_stat_world = \<lparr>sw_node = (sample_node [])\<lparr>nd_mgr := snd (snd (MuxConnManager_Add [117] 9 0 (nd_mgr (sample_node []))))\<rparr>,
     sw_pool = iobuf_pool_init, sw_users = [[117]], sw_stream_num = 0, g_mux_conn_num = 1, g_mux_conn_num_in_loop = 1,
     g_local_proxy_conn_num = 0\<rparr>"

lemma sample_stat_conn:
  "conn_store (nd_mgr (sw_node sample_stat_world)) 0 = Some ((sample_conn [])\<lparr>client_id := 9\<rparr>)"
  "0 \<in> set (reported (sw_users sample_stat_world) (nd_mgr (sw_node sample_stat_world)))"
  by (simp_all add: sample_stat_world_def sample_node_def MuxConnManager_init_def MuxConnManager_Add_def GetSession_def
      GetUserMuxConn_def put_conn_def reported_def slots_def sample_conn_def MuxConnection_new_def)

lemma Close_iter_closed: "0 < n \<Longrightarrow> \<not> chan_open (write_mutex ((MuxConnection_Close io_close ^^ n) c))"
  by (cases n) (simp_all add: MuxConnection_Close_def AsyncChannelMutex_Close_def)


text \<open>What the functions report, one after the other.\<close>

fun stat_reports ::
  "('s \<Rightarrow> 's) \<Rightarrow> u32 \<Rightarrow> u32 \<Rightarrow> stat_func list \<Rightarrow> ('r, 's, 'e, 'k, 'w) stat_world \<Rightarrow> StatValues list" where
  "stat_reports io_close max_inactive now [] W = []"
| "stat_reports io_close max_inactive now (f # fs) W =
     (case call_stat_func io_close max_inactive now f W of
        (vals, W1) \<Rightarrow> vals # stat_reports io_close max_inactive now fs W1)"

lemma collect_table:
  "stat_sorted t \<Longrightarrow> collect_stats io_close mx now fs (t, W) = (t', W') \<Longrightarrow>
     stat_sorted t' \<and> stat_lookup t' = stat_lookup t ++ map_of (rev (concat (map entries (stat_reports io_close mx now fs W))))"
proof (induction fs arbitrary: t W)
  case (Cons f fs)
  obtain vals W1 where c: "call_stat_func io_close mx now f W = (vals, W1)" by fastforce
  note m = merge_stats_spec [OF Cons.prems(1), of vals]
  from Cons.IH [of "merge_stats vals t" W1] m Cons.prems(2) c show ?case by simp
qed simp

text \<open>What a report prints.  The nested ordered maps that the functions' values are merged into are
  a flat map: sections and keys come in strictly increasing order, and each key of each section has the
  value that was reported for it last.\<close>

theorem report_table_last_wins:
  assumes "collect_stats io_close max_inactive now g_stat_funcs ([], W) = (t, W')"
  shows "stat_sorted t \<and>
    stat_lookup t = map_of (rev (concat (map entries (stat_reports io_close max_inactive now g_stat_funcs W))))"
proof -
  have "stat_sorted []" by (simp add: stat_sorted_def)
  moreover have "stat_lookup [] = Map.empty" by (simp add: stat_lookup_def fun_eq_iff)
  ultimately show ?thesis using collect_table [OF _ assms] by simp
qed

theorem report_table_last_wins_witness:
  "\<exists>t W'. collect_stats (\<lambda>_. []) 300 1000 [MuxServerStat, LocalServerStat] ([], sample_stat_world) = (t, W') \<and> stat_sorted t \<and>
     stat_lookup t (str ''MuxServer'', str ''mux_server_conn_num'') = Some (to_string 0)"
proof -
  obtain t W' where c: "collect_stats (\<lambda>_. []) 300 1000 [MuxServerStat, LocalServerStat] ([], sample_stat_world) = (t, W')" by fastforce
  have "nd_server_conn_num (sw_node sample_stat_world) = 0" by (simp add: sample_stat_world_def sample_node_def)
  with report_table_last_wins [OF c] c show ?thesis
    by (intro exI [of _ t] exI [of _ W']) (simp add: entries_def str_def)
qed

end
