(* ===== verification/Tls_Socket.thy ===== *)
theory Tls_Socket
  imports Net_Helper
begin

text \<open>
  \<^verbatim>\<open>snova/io/tls_socket.cc\<close> and \<^verbatim>\<open>snova/io/tcp_socket.cc\<close>: the two implementations of \<^verbatim>\<open>IOConnection\<close> over
  sockets of asio.  The sockets are states \<open>'s\<close>, the operations of asio and OpenSSL on them fields of a
  record.  Nothing sets a verify mode, so OpenSSL's default, to accept every certificate, stays.
\<close>

subsection \<open>asio\<close>

record ('s, 'e) asio_socket =
  sk_connect :: "'e \<Rightarrow> 's \<Rightarrow> int \<times> 's"
  sk_handshake :: "'s \<Rightarrow> int \<times> 's"
  sk_set_host :: "bytes \<Rightarrow> 's \<Rightarrow> int + 's"
  sk_read_some :: "'s \<Rightarrow> nat \<Rightarrow> int \<times> bytes \<times> 's"
  sk_write :: "'s \<Rightarrow> bytes \<Rightarrow> int \<times> nat \<times> 's"
  sk_shutdown :: "'s \<Rightarrow> int \<times> 's"
  sk_close :: "'s \<Rightarrow> int \<times> 's"

subsection \<open>TCP\<close>

definition TcpSocket_AsyncRead :: "('s, 'e) asio_socket \<Rightarrow> 's reader" where
  "TcpSocket_AsyncRead K s k = (case sk_read_some K s k of (ec, bs, s1) \<Rightarrow> (bs, ec, s1))"

text \<open>\<^verbatim>\<open>DoAsyncWrite\<close>, for one buffer and for several.\<close>

definition TcpSocket_AsyncWrite :: "('s, 'e) asio_socket \<Rightarrow> bytes list \<Rightarrow> 's \<Rightarrow> (nat \<times> int) \<times> 's" where
  "TcpSocket_AsyncWrite K buffers s = (case sk_write K s (concat buffers) of (ec, n, s1) \<Rightarrow> ((n, ec), s1))"

text \<open>A code other than 0 is thrown as an exception: \<^verbatim>\<open>Close\<close> uses the overloads without an error code.\<close>

definition TcpSocket_Close :: "('s, 'e) asio_socket \<Rightarrow> 's \<Rightarrow> int \<times> 's" where
  "TcpSocket_Close K s = sk_close K s"

subsection \<open>TLS\<close>

record 's TlsSocket =
  tls_socket :: 's
  tls_host :: bytes

definition TlsSocket_SetHost :: "bytes \<Rightarrow> 's TlsSocket \<Rightarrow> 's TlsSocket" where
  "TlsSocket_SetHost v t = t\<lparr>tls_host := v\<rparr>"

definition TlsSocket_ClientHandshake :: "('s, 'e) asio_socket \<Rightarrow> 's TlsSocket \<Rightarrow> int \<times> 's TlsSocket" where
  "TlsSocket_ClientHandshake K t = (case sk_handshake K (tls_socket t) of (ec, s) \<Rightarrow> (ec, t\<lparr>tls_socket := s\<rparr>))"

definition TlsSocket_AsyncConnect :: "('s, 'e) asio_socket \<Rightarrow> 'e \<Rightarrow> 's TlsSocket \<Rightarrow> int \<times> 's TlsSocket" where
  "TlsSocket_AsyncConnect K endpoint t =
     (case (if tls_host t \<noteq> [] then sk_set_host K (tls_host t) (tls_socket t) else Inr (tls_socket t)) of
        Inl ec \<Rightarrow> (ec, t)
      | Inr s \<Rightarrow>
          (case sk_connect K endpoint s of (connect_ec, s1) \<Rightarrow>
             if connect_ec \<noteq> 0 then (connect_ec, t\<lparr>tls_socket := s1\<rparr>)
             else TlsSocket_ClientHandshake K (t\<lparr>tls_socket := s1\<rparr>)))"

definition TlsSocket_AsyncConnect_host ::
  "('s, 'e) asio_socket \<Rightarrow> int \<times> 'e list \<Rightarrow> 's TlsSocket \<Rightarrow> int \<times> 's TlsSocket" where
  "TlsSocket_AsyncConnect_host K resolved t =
     (case resolve_endpoint resolved of Inl ec \<Rightarrow> (ec, t) | Inr endpoint \<Rightarrow> TlsSocket_AsyncConnect K endpoint t)"

definition TlsSocket_AsyncRead :: "('s, 'e) asio_socket \<Rightarrow> 's TlsSocket reader" where
  "TlsSocket_AsyncRead K t k = (case sk_read_some K (tls_socket t) k of (ec, bs, s) \<Rightarrow> (bs, ec, t\<lparr>tls_socket := s\<rparr>))"

definition TlsSocket_AsyncWrite :: "('s, 'e) asio_socket \<Rightarrow> bytes list \<Rightarrow> 's TlsSocket \<Rightarrow> (nat \<times> int) \<times> 's TlsSocket" where
  "TlsSocket_AsyncWrite K buffers t =
     (case sk_write K (tls_socket t) (concat buffers) of (ec, n, s) \<Rightarrow> ((n, ec), t\<lparr>tls_socket := s\<rparr>))"

definition TlsSocket_Close :: "('s, 'e) asio_socket \<Rightarrow> 's TlsSocket \<Rightarrow> int \<times> 's TlsSocket" where
  "TlsSocket_Close K t =
     (case sk_shutdown K (tls_socket t) of (ec, s) \<Rightarrow>
        if ec \<noteq> 0 then (ec, t\<lparr>tls_socket := s\<rparr>)
        else case sk_close K s of (ec, s1) \<Rightarrow> (ec, t\<lparr>tls_socket := s1\<rparr>))"

subsection \<open>As connections\<close>

text \<open>
  A TLS socket whose shutdown fails, as it does when the peer is gone, throws out of \<^verbatim>\<open>Close\<close> and its
  TCP socket is not closed; otherwise what happens is the close of the TCP socket.
\<close>

lemma TlsSocket_Close_outcome:
  "TlsSocket_Close K t = (case sk_shutdown K (tls_socket t) of (ec, s) \<Rightarrow>
     if ec = 0 then apsnd (\<lambda>s1. t\<lparr>tls_socket := s1\<rparr>) (TcpSocket_Close K s) else (ec, t\<lparr>tls_socket := s\<rparr>))"
  by (simp add: TlsSocket_Close_def TcpSocket_Close_def split: prod.split)

text \<open>
  If a socket of asio is a connection of the kind its readers rely on, so is the TLS socket over it.
\<close>

lemma tls_connection:
  assumes "live_connection (TcpSocket_AsyncRead K) pend ok"
  shows "live_connection (TlsSocket_AsyncRead K) (pend \<circ> tls_socket) (ok \<circ> tls_socket)"
proof -
  have tcp: "TcpSocket_AsyncRead K (tls_socket t) k = (bs, ec, tls_socket t')"
    if "TlsSocket_AsyncRead K t k = (bs, ec, t')" for t k bs ec t'
    using that by (auto simp: TlsSocket_AsyncRead_def TcpSocket_AsyncRead_def split: prod.splits)
  note io = live_connection.axioms(1) [OF assms]
  note live = live_connection.read_live [OF assms] live_connection.read_end [OF assms]
  show ?thesis
  proof
    fix t k bs ec and t' :: "'a TlsSocket"
    assume t: "(ok \<circ> tls_socket) t" and r: "TlsSocket_AsyncRead K t k = (bs, ec, t')"
    note r' = tcp [OF r] and t' = t [unfolded comp_def]
    show "length bs \<le> k" by (rule io_connection.read_within [OF io t' r'])
    show "(ok \<circ> tls_socket) t'" using io_connection.read_inv [OF io t' r'] by simp
    show "0 < k \<Longrightarrow> (pend \<circ> tls_socket) t \<noteq> [] \<Longrightarrow> ec = 0 \<and> bs \<noteq> []" using live(1) [OF t' _ _ r'] by simp
    show "(pend \<circ> tls_socket) t = [] \<Longrightarrow> bs = [] \<and> (pend \<circ> tls_socket) t' = []" using live(2) [OF t' _ r'] by simp
  next
    fix t k bs and t' :: "'a TlsSocket"
    assume t: "(ok \<circ> tls_socket) t" and r: "TlsSocket_AsyncRead K t k = (bs, 0, t')"
    then show "(pend \<circ> tls_socket) t = bs @ (pend \<circ> tls_socket) t'"
      using io_connection.read_stream [OF io _ tcp [OF r]] by simp
  qed
qed

end
