(* ===== verification/End_To_End.thy ===== *)
theory End_To_End
  imports Relay
begin

text \<open>
  The two nodes together: what an entry node does with the first bytes of a user's connection and what
  an exit node does with the events that result, over the definitions of the components: the relay's
  set-up, the session's writers, \<^verbatim>\<open>MuxConnection::Write\<close> with the cipher, and at the other end the read
  loop, the stream-open handler and the transfer to the destination's socket.
\<close>

subsection \<open>The entry node\<close>

lemma open_event_wf: "wf_event kMaxChunkSize (StreamOpenRequest_of sid host port tcp tls)"
  by (simp add: wf_event_def StreamOpenRequest_of_def make_event_def wf_StreamOpenRequest_def c_string_snprintf Let_def)

lemma chunk_event_wf:
  "length buf \<le> kMaxChunkSize \<Longrightarrow> wf_event kMaxChunkSize (StreamChunk_of sid fl buf (length buf))"
  by (simp add: wf_event_def StreamChunk_of_def make_event_def unat_of_nat)

text \<open>A relay writes two frames to the connection that the session selects.\<close>

lemma relay_begin_frames:
  fixes S :: "(nat \<times> nat, ('c CipherContext, bytes) MuxConnManager \<times> MuxEvent list) relay_world"
  assumes ops_def: "ops = session_ops (CipherContext_Encrypt A L) wire_write tm sr" and sid_def: "sid = g_client_sid (rl_mux S)"
    and lib: "aead_ok A" "pb_lib_ok L"
    and m: "outer (rl_mux S) = (m, h)" "session_writer sr m = Some (sr, i)" "session_conns sr m ! i = Some x" "conn_store m x = Some w"
    and w: "writer_ok w" "synced (cipher_ctx w) r"
    and relay: "\<not> rc_direct ctx" "g_streams (rl_mux S) (cid, sid) = None"
    and data: "data \<noteq> []" "length data \<le> kMaxChunkSize"
  shows "\<exists>p S' w' f1 n1 r1 f2 n2 r2.
    do_relay_begin False is_entry ctx connected fault (Some (cid, ops)) data S = (Some (Stream ops p), S') \<and>
    conn_store (fst (outer (rl_mux S'))) x = Some w' \<and> io_conn w' = io_conn w @ f1 @ f2 \<and>
    cipher_framed A L r (with_len n1 (StreamOpenRequest_of sid (rc_remote_host ctx) (rc_remote_port ctx) (rc_is_tcp ctx) (rc_is_tls ctx))) f1 r1 \<and>
    cipher_framed A L r1 (with_len n2 (StreamChunk_of sid (rc_is_tls ctx \<and> \<not> is_entry) data (length data))) f2 r2 \<and>
    synced (cipher_ctx w') r2"
proof -
  let ?open = "StreamOpenRequest_of sid (rc_remote_host ctx) (rc_remote_port ctx) (rc_is_tcp ctx) (rc_is_tls ctx)"
  let ?chunk = "StreamChunk_of sid (rc_is_tls ctx \<and> \<not> is_entry) data (length data)"
  have i: "i < length (session_conns sr m)" using session_writer_slot(1) [OF m(2)] by auto
  from Wire_framed [OF lib w open_event_wf, of tm] obtain w1 f1 n1 r1 where
    w1: "MuxConnection_Write (CipherContext_Encrypt A L) wire_write tm w ?open = (True, w1)" "writer_ok w1" "io_conn w1 = io_conn w @ f1"
      "cipher_framed A L r (with_len n1 ?open) f1 r1" "synced (cipher_ctx w1) r1" by blast
  from Wire_framed [OF lib w1(2,5) chunk_event_wf [OF data(2)], of tm] obtain w2 f2 n2 r2 where
    w2: "MuxConnection_Write (CipherContext_Encrypt A L) wire_write tm w1 ?chunk = (True, w2)" "io_conn w2 = io_conn w1 @ f2"
      "cipher_framed A L r1 (with_len n2 ?chunk) f2 r2" "synced (cipher_ctx w2) r2" by blast
  let ?m1 = "m\<lparr>conn_store := (conn_store m)(x \<mapsto> w1)\<rparr>"
  have run1: "run_writer ops (sr, i) ?open (outer (rl_mux S)) = (True, ?m1, h @ [?open])"
    unfolding ops_def m(1) by (rule session_ops_run [OF i m(3,4) w1(1)])
  have "run_writer ops (sr, i) ?chunk (?m1, h @ [?open]) =
      (True, ?m1\<lparr>conn_store := (conn_store ?m1)(x \<mapsto> w2)\<rparr>, (h @ [?open]) @ [?chunk])"
    unfolding ops_def by (rule session_ops_run [OF _ _ _ w2(1)]) (use i m(3) in \<open>simp_all add: session_conns_def\<close>)
  moreover have "make_writer ops (outer (rl_mux S)) = Some (sr, i)" using m by (simp add: ops_def session_ops_def)
  ultimately obtain p S' where
    b: "do_relay_begin False is_entry ctx connected fault (Some (cid, ops)) data S = (Some (Stream ops p), S')"
      "fst (outer (rl_mux S')) = ?m1\<lparr>conn_store := (conn_store ?m1)(x \<mapsto> w2)\<rparr>"
    using relay_begin_writes [OF _ run1, of data is_entry _ False cid connected fault] relay data(1) by (fastforce simp: sid_def)
  have c: "conn_store (fst (outer (rl_mux S'))) x = Some w2" unfolding b(2) by simp
  have "io_conn w2 = io_conn w @ f1 @ f2" using w1(3) w2(2) by simp
  with b(1) c w1(4) w2(3,4) show ?thesis by blast
qed

subsection \<open>The exit node\<close>

text \<open>The stream-open event, in one round of the read loop, hands the destination to a new relay.\<close>

lemma open_round:
  assumes live: "live_connection (ne_rd env) pend ok" and dec: "ne_dec env = CipherContext_Decrypt A L"
    and r: "reader_ok ok (get_conn y N)" "unread pend (get_conn y N) = f @ rest"
    and fr: "cipher_framed A L (cipher_ctx (get_conn y N)) (with_len n (StreamOpenRequest_of sid host port tcp tls)) f r'"
  shows "\<exists>N1. ProcessReadEvent env True cb y N = Some (Finished 0 N1) \<and> nd_streams N1 = nd_streams N \<and>
    nd_relays N1 = nd_relays N @ [(auth_user (get_conn y N), client_id (get_conn y N), with_len n (StreamOpenRequest_of sid host port tcp tls))] \<and>
    reader_ok ok (get_conn y N1) \<and> unread pend (get_conn y N1) = rest \<and> cipher_ctx (get_conn y N1) = r' \<and>
    client_id (get_conn y N1) = client_id (get_conn y N)"
proof -
  let ?e = "with_len n (StreamOpenRequest_of sid host port tcp tls)"
  have e: "head_type (ev_head ?e) = EVENT_STREAM_OPEN" "\<exists>b. ev_body ?e = StreamOpenRequest b"
    by (simp_all add: StreamOpenRequest_of_def make_event_def Let_def)
  from ProcessReadEvent_frame [OF live dec r fr, of True cb] obtain c where
    "ProcessReadEvent env True cb y N = Some (process_event env True cb y ?e (set_conn y c N))"
    "reader_ok ok c" "unread pend c = rest" "cipher_ctx c = r'" "client_id c = client_id (get_conn y N)"
    "auth_user c = auth_user (get_conn y N)" by blast
  with e show ?thesis by (auto simp: process_event_def on_stream_open_def)
qed

text \<open>The relay handler: the context is the one announced, and the stream is registered and idle.\<close>

lemma relay_handler_open:
  assumes "g_streams (rl_mux X) (cid, sid) = None" "c_string 512 host"
  shows "\<exists>q S1 s. relay_handler ops user cid (with_len n (StreamOpenRequest_of sid host port tcp tls)) X =
      Some (\<lparr>rc_user = user, rc_remote_host = host, rc_remote_port = port, rc_is_tls = tls, rc_is_tcp = tcp, rc_direct = False\<rparr>,
        Stream ops q, S1) \<and>
    MuxStream_Get cid sid (rl_mux S1) = Some q \<and> stream_objs (rl_mux S1) q = Some s \<and> \<not> closed s \<and> \<not> channel_closed s \<and>
    data_channel s = [] \<and> sock_out S1 = sock_out X"
proof -
  have "ucast (ucast port :: u32) = port" by (rule bit_word_eqI) (auto simp: bit_ucast_iff)
  with assms show ?thesis
    by (simp add: relay_handler_def StreamOpenRequest_of_def make_event_def Let_def MuxStream_New_def MuxStream_SetTLS_def
        MuxStream_Get_def put_stream_def snprintf_c_string RelayContext_init_def)
qed

text \<open>What waits in the stream goes to the destination's socket.\<close>

lemma stream_to_socket:
  assumes "MuxStream_Read q (rl_mux S) = Some ((Some buf, length buf, Ok), W)"
  shows "\<exists>S2 S3. do_relay_begin True is_entry ctx (Some j) fault factory [] S = (Some (Socket j), S2) \<and>
    transfer_read timed now (Stream ops q) (Socket j) res S2 = Some (Writing buf (length buf), S3) \<and>
    (\<exists>S4. transfer_write timed now is_entry (Stream ops q) (Socket j) None buf (length buf) S3 = (Reading, S4) \<and>
       sock_out S4 j = sock_out S j @ buf)"
  using assms by (simp add: do_relay_begin_def transfer_read_def transfer_write_def transfer_routine_def)

text \<open>Two rounds of the read loop, the relay's handler started between them.\<close>

lemma exit_rounds:
  fixes y :: nat and N :: "('c CipherContext, 's, 'e, 'k, 'w) node" and X :: "('k, 'w) relay_world"
  defines "c \<equiv> get_conn y N"
  assumes live: "live_connection (ne_rd env) pend ok" and dec: "ne_dec env = CipherContext_Decrypt A L"
    and r: "reader_ok ok (get_conn y N)" "unread pend (get_conn y N) = f1 @ f2 @ rest"
    and fr: "cipher_framed A L (cipher_ctx (get_conn y N)) (with_len n1 (StreamOpenRequest_of sid (rc_remote_host ctx) (rc_remote_port ctx) (rc_is_tcp ctx) (rc_is_tls ctx))) f1 r1"
      "cipher_framed A L r1 (with_len n2 (StreamChunk_of sid fl data (length data))) f2 r2"
    and ctx: "\<not> rc_direct ctx" "c_string 512 (rc_remote_host ctx)" and sid: "g_streams (nd_streams N) (client_id (get_conn y N), sid) = None"
    and data: "length data \<le> kMaxChunkSize"
  shows "\<exists>N1 ev q S1 N2 W. ProcessReadEvent env True cb y N = Some (Finished 0 N1) \<and>
    nd_relays N1 = nd_relays N @ [(auth_user c, client_id c, ev)] \<and>
    relay_handler ops' (auth_user c) (client_id c) ev (X\<lparr>rl_mux := nd_streams N1\<rparr>) = Some (ctx\<lparr>rc_user := auth_user c\<rparr>, Stream ops' q, S1) \<and>
    ProcessReadEvent env True cb y (N1\<lparr>nd_streams := rl_mux S1\<rparr>) = Some (Finished 0 N2) \<and>
    MuxStream_Read q (nd_streams N2) = Some ((Some data, length data, Ok), W) \<and> sock_out S1 = sock_out X \<and>
    unread pend (get_conn y N2) = rest \<and> cipher_ctx (get_conn y N2) = r2"
proof -
  let ?ev = "with_len n1 (StreamOpenRequest_of sid (rc_remote_host ctx) (rc_remote_port ctx) (rc_is_tcp ctx) (rc_is_tls ctx))"
  from open_round [OF live dec r fr(1), of cb] obtain N1 where
    N1: "ProcessReadEvent env True cb y N = Some (Finished 0 N1)" "nd_streams N1 = nd_streams N"
      "nd_relays N1 = nd_relays N @ [(auth_user c, client_id c, ?ev)]" "reader_ok ok (get_conn y N1)"
      "unread pend (get_conn y N1) = f2 @ rest" "cipher_ctx (get_conn y N1) = r1" "client_id (get_conn y N1) = client_id c"
    unfolding c_def by blast
  have ctx': "\<lparr>rc_user = u, rc_remote_host = rc_remote_host ctx, rc_remote_port = rc_remote_port ctx, rc_is_tls = rc_is_tls ctx,
      rc_is_tcp = rc_is_tcp ctx, rc_direct = False\<rparr> = ctx\<lparr>rc_user := u\<rparr>" for u using ctx(1) by (cases ctx) simp
  from relay_handler_open [of "X\<lparr>rl_mux := nd_streams N1\<rparr>" "client_id c" sid "rc_remote_host ctx" ops' "auth_user c" n1] sid ctx(2) N1(2)
  obtain q S1 s where h: "relay_handler ops' (auth_user c) (client_id c) ?ev (X\<lparr>rl_mux := nd_streams N1\<rparr>) =
      Some (ctx\<lparr>rc_user := auth_user c\<rparr>, Stream ops' q, S1)"
    "MuxStream_Get (client_id c) sid (rl_mux S1) = Some q" "stream_objs (rl_mux S1) q = Some s" "\<not> closed s" "\<not> channel_closed s"
    "data_channel s = []" "sock_out S1 = sock_out X" unfolding c_def ctx' [symmetric] by fastforce
  let ?N1 = "N1\<lparr>nd_streams := rl_mux S1\<rparr>"
  have g: "get_conn y ?N1 = get_conn y N1" by (simp add: get_conn_def)
  from chunk_round [OF live dec, of y ?N1 f2 rest n2 sid fl data r2 q s True cb] h N1 fr(2) data
  obtain N2 W where "ProcessReadEvent env True cb y ?N1 = Some (Finished 0 N2)"
    "MuxStream_Read q (nd_streams N2) = Some ((Some data, length data, Ok), W)" "unread pend (get_conn y N2) = rest"
    "cipher_ctx (get_conn y N2) = r2" unfolding g by auto
  with N1(1,3) h(1,7) show ?thesis by blast
qed

subsection \<open>Properties\<close>

text \<open>C1: the first bytes of a user's connection reach the destination the user asked for.  An entry
  node relays to a host and port (no direct relay) with at most \<open>kMaxChunkSize\<close> bytes already read,
  through the connection that the user's session selects.  Setting up the relay writes some bytes
  \<open>bs\<close> to that connection.  When the exit node, whose cipher context is synchronised and which has no
  stream of that id for the client, finds \<open>bs\<close> next on its end, however the network cuts them: one round
  of its read loop spawns a relay for the connection's user and client; the relay's handler gets the
  entry node's context, the same host, port and flags with that user; after the next round the transfer
  of this relay, once its socket is connected, writes exactly the bytes read at the entry to the
  socket.  What follows \<open>bs\<close> is still unread and the contexts are synchronised again.\<close>

theorem relay_end_to_end:
  fixes S :: "(nat \<times> nat, ('c CipherContext, bytes) MuxConnManager \<times> MuxEvent list) relay_world"
  assumes lib: "aead_ok A" "pb_lib_ok L"
    and live: "live_connection (ne_rd env) pend ok" and dec: "ne_dec env = CipherContext_Decrypt A L"
    and m: "outer (rl_mux S) = (m, h)" "session_writer sr m = Some (sr, i)" "session_conns sr m ! i = Some x" "conn_store m x = Some w"
    and w: "writer_ok w" "synced (cipher_ctx w) (cipher_ctx (get_conn y N))" and r: "reader_ok ok (get_conn y N)"
    and ctx: "\<not> rc_direct ctx" "c_string 512 (rc_remote_host ctx)"
    and sid: "g_streams (rl_mux S) (cid, g_client_sid (rl_mux S)) = None"
      "g_streams (nd_streams N) (client_id (get_conn y N), g_client_sid (rl_mux S)) = None"
    and data: "data \<noteq> []" "length data \<le> kMaxChunkSize"
    and ops: "ops = session_ops (CipherContext_Encrypt A L) wire_write tm sr"
  shows "\<exists>p S' w' bs. do_relay_begin False is_entry ctx connected fault (Some (cid, ops)) data S = (Some (Stream ops p), S') \<and>
    conn_store (fst (outer (rl_mux S'))) x = Some w' \<and> io_conn w' = io_conn w @ bs \<and>
    (unread pend (get_conn y N) = bs @ rest \<longrightarrow>
      (\<exists>N1 ev ctx' q S1 N2 S2 S3 S4. ProcessReadEvent env True cb y N = Some (Finished 0 N1) \<and>
         nd_relays N1 = nd_relays N @ [(auth_user (get_conn y N), client_id (get_conn y N), ev)] \<and>
         relay_handler ops' (auth_user (get_conn y N)) (client_id (get_conn y N)) ev (X\<lparr>rl_mux := nd_streams N1\<rparr>) =
           Some (ctx', Stream ops' q, S1) \<and>
         ctx' = ctx\<lparr>rc_user := auth_user (get_conn y N)\<rparr> \<and>
         ProcessReadEvent env True cb y (N1\<lparr>nd_streams := rl_mux S1\<rparr>) = Some (Finished 0 N2) \<and>
         do_relay_begin True is_entry' ctx' (Some j) fault' None [] (S1\<lparr>rl_mux := nd_streams N2\<rparr>) = (Some (Socket j), S2) \<and>
         transfer_read timed now (Stream ops' q) (Socket j) None S2 = Some (Writing data (length data), S3) \<and>
         transfer_write timed now is_entry' (Stream ops' q) (Socket j) None data (length data) S3 = (Reading, S4) \<and>
         sock_out S4 j = sock_out X j @ data \<and>
         unread pend (get_conn y N2) = rest \<and> synced (cipher_ctx w') (cipher_ctx (get_conn y N2))))"
proof -
  let ?c = "get_conn y N" and ?sid = "g_client_sid (rl_mux S)"
  from relay_begin_frames [OF ops refl lib m w ctx(1) sid(1) data, of is_entry connected fault] obtain p S' w' f1 n1 r1 f2 n2 r2 where
    b: "do_relay_begin False is_entry ctx connected fault (Some (cid, ops)) data S = (Some (Stream ops p), S')"
      "conn_store (fst (outer (rl_mux S'))) x = Some w'" "io_conn w' = io_conn w @ f1 @ f2"
    and fr: "cipher_framed A L (cipher_ctx ?c) (with_len n1 (StreamOpenRequest_of ?sid (rc_remote_host ctx) (rc_remote_port ctx) (rc_is_tcp ctx) (rc_is_tls ctx))) f1 r1"
      "cipher_framed A L r1 (with_len n2 (StreamChunk_of ?sid (rc_is_tls ctx \<and> \<not> is_entry) data (length data))) f2 r2"
    and sy: "synced (cipher_ctx w') r2" by blast
  have "\<exists>N1 ev ctx' q S1 N2 S2 S3 S4. ProcessReadEvent env True cb y N = Some (Finished 0 N1) \<and>
         nd_relays N1 = nd_relays N @ [(auth_user ?c, client_id ?c, ev)] \<and>
         relay_handler ops' (auth_user ?c) (client_id ?c) ev (X\<lparr>rl_mux := nd_streams N1\<rparr>) = Some (ctx', Stream ops' q, S1) \<and>
         ctx' = ctx\<lparr>rc_user := auth_user ?c\<rparr> \<and>
         ProcessReadEvent env True cb y (N1\<lparr>nd_streams := rl_mux S1\<rparr>) = Some (Finished 0 N2) \<and>
         do_relay_begin True is_entry' ctx' (Some j) fault' None [] (S1\<lparr>rl_mux := nd_streams N2\<rparr>) = (Some (Socket j), S2) \<and>
         transfer_read timed now (Stream ops' q) (Socket j) None S2 = Some (Writing data (length data), S3) \<and>
         transfer_write timed now is_entry' (Stream ops' q) (Socket j) None data (length data) S3 = (Reading, S4) \<and>
         sock_out S4 j = sock_out X j @ data \<and>
         unread pend (get_conn y N2) = rest \<and> synced (cipher_ctx w') (cipher_ctx (get_conn y N2))"
    if "unread pend ?c = (f1 @ f2) @ rest"
  proof -
    from that have u: "unread pend ?c = f1 @ f2 @ rest" by simp
    from exit_rounds [OF live dec r u fr ctx sid(2) data(2), of cb ops' X] obtain N1 ev q S1 N2 W where
      x: "ProcessReadEvent env True cb y N = Some (Finished 0 N1)" "nd_relays N1 = nd_relays N @ [(auth_user ?c, client_id ?c, ev)]"
        "relay_handler ops' (auth_user ?c) (client_id ?c) ev (X\<lparr>rl_mux := nd_streams N1\<rparr>) = Some (ctx\<lparr>rc_user := auth_user ?c\<rparr>, Stream ops' q, S1)"
        "ProcessReadEvent env True cb y (N1\<lparr>nd_streams := rl_mux S1\<rparr>) = Some (Finished 0 N2)"
        "unread pend (get_conn y N2) = rest"
      and rd: "MuxStream_Read q (nd_streams N2) = Some ((Some data, length data, Ok), W)" "sock_out S1 = sock_out X" "cipher_ctx (get_conn y N2) = r2"
      by blast
    from stream_to_socket [of q "S1\<lparr>rl_mux := nd_streams N2\<rparr>" data W is_entry' "ctx\<lparr>rc_user := auth_user ?c\<rparr>" j fault' None timed now ops' None] rd
    obtain S2 S3 S4 where
      "do_relay_begin True is_entry' (ctx\<lparr>rc_user := auth_user ?c\<rparr>) (Some j) fault' None [] (S1\<lparr>rl_mux := nd_streams N2\<rparr>) = (Some (Socket j), S2)"
      "transfer_read timed now (Stream ops' q) (Socket j) None S2 = Some (Writing data (length data), S3)"
      "transfer_write timed now is_entry' (Stream ops' q) (Socket j) None data (length data) S3 = (Reading, S4)"
      "sock_out S4 j = sock_out X j @ data" by auto
    with x rd(3) sy show ?thesis by blast
  qed
  with b show ?thesis by blast
qed
text \<open>An entry node with one connection and two bytes for port 443 of a host; the exit node gets the
  bytes of the connection one at a time.\<close>

definition sample_entry_mgr :: "(bytes CipherContext, bytes) MuxConnManager" where
  "sample_entry_mgr = snd (snd (MuxConnManager_Add [117] 9 0 (MuxConnManager_init [0 \<mapsto> sample_conn []])))"

definition sample_sockets :: "'w \<Rightarrow> ('k, 'w) relay_world" where
  "sample_sockets w = \<lparr>rl_mux = (mux_world_init w)\<lparr>g_client_sid := 3\<rparr>, sock_open = (\<lambda>_. True), sock_out = (\<lambda>_. []), latest_io_time = 0\<rparr>"

definition sample_target :: RelayContext where
  "sample_target = RelayContext_init\<lparr>rc_remote_host := [104], rc_remote_port := 443, rc_is_tcp := True\<rparr>"

lemma sample_entry_mgr_simps:
  "session_writer 0 sample_entry_mgr = Some (0, 0)" "session_conns 0 sample_entry_mgr ! 0 = Some 0"
  "conn_store sample_entry_mgr 0 = Some (sample_conn [])"
  by (simp_all add: sample_entry_mgr_def MuxConnManager_init_def MuxConnManager_Add_def GetSession_def GetUserMuxConn_def put_conn_def
      session_writer_def session_conns_def select_conn_def sample_conn_def MuxConnection_new_def)

theorem relay_end_to_end_witness:
  "\<exists>p S' w' N1 ev q S1 N2 S2 S3 S4.
     do_relay_begin False True sample_target None None
       (Some (9, session_ops (CipherContext_Encrypt ref_aead ref_pb) wire_write (\<lambda>_. 0) 0)) [5, 6] (sample_sockets (sample_entry_mgr, [])) =
       (Some (Stream (session_ops (CipherContext_Encrypt ref_aead ref_pb) wire_write (\<lambda>_. 0) 0) p), S') \<and>
     conn_store (fst (outer (rl_mux S'))) 0 = Some w' \<and>
     ProcessReadEvent sample_env True None 0 (sample_node (map (\<lambda>b. [b]) (io_conn w'))) = Some (Finished 0 N1) \<and>
     relay_handler log_sink [] 9 ev ((sample_sockets ([], 0))\<lparr>rl_mux := nd_streams N1\<rparr>) = Some (sample_target, Stream log_sink q, S1) \<and>
     ProcessReadEvent sample_env True None 0 (N1\<lparr>nd_streams := rl_mux S1\<rparr>) = Some (Finished 0 N2) \<and>
     do_relay_begin True False sample_target (Some 4) None None [] (S1\<lparr>rl_mux := nd_streams N2\<rparr>) = (Some (Socket 4), S2) \<and>
     transfer_read True 1 (Stream log_sink q) (Socket 4) None S2 = Some (Writing [5, 6] 2, S3) \<and>
     transfer_write True 1 False (Stream log_sink q) (Socket 4) None [5, 6] 2 S3 = (Reading, S4) \<and> sock_out S4 4 = [5, 6]"
proof -
  let ?ops = "session_ops (CipherContext_Encrypt ref_aead ref_pb) wire_write (\<lambda>_. 0) 0"
  let ?S = "sample_sockets (sample_entry_mgr, []) :: (nat \<times> nat, (bytes CipherContext, bytes) MuxConnManager \<times> MuxEvent list) relay_world" and ?N = "\<lambda>bs. sample_node (map (\<lambda>b. [b]) bs)"
  have env: "ne_rd sample_env = script_read" "ne_dec sample_env = CipherContext_Decrypt ref_aead ref_pb" by (simp_all add: sample_env_def)
  have S: "outer (rl_mux ?S) = (sample_entry_mgr, [])" "g_streams (rl_mux ?S) (9, g_client_sid (rl_mux ?S)) = None"
    by (simp_all add: sample_sockets_def mux_world_init_def)
  have sid: "g_streams sample_world (9, g_client_sid (rl_mux ?S)) = None"
    by (simp add: sample_sockets_def mux_world_init_def sample_world_def MuxStream_New_def Let_def)
  have ctx: "\<not> rc_direct sample_target" "c_string 512 (rc_remote_host sample_target)" "sample_target\<lparr>rc_user := []\<rparr> = sample_target"
    by (simp_all add: sample_target_def RelayContext_init_def c_string_def)
  have conn: "client_id (get_conn 0 (?N bs)) = 9" "auth_user (get_conn 0 (?N bs)) = []" for bs
    by (simp_all add: sample_node_conn sample_conn_def MuxConnection_new_def)
  note e2e = relay_end_to_end [where A = ref_aead and L = ref_pb and env = sample_env and pend = concat and ok = "\<lambda>_. True" and S = ?S and
      m = sample_entry_mgr and h = "[]" and sr = 0 and i = 0 and x = 0 and y = 0 and cid = 9 and ctx = sample_target and data = "[5, 6]" and
      tm = "\<lambda>_. 0" and ops = ?ops and is_entry = True and connected = None and fault = None and rest = "[]" and cb = None and ops' = log_sink and
      X = "sample_sockets ([], 0)" and is_entry' = False and j = 4 and fault' = None and timed = True and now = 1,
      OF ref_aead_ok ref_pb_ok scripted.live_connection_axioms [folded env(1)] env(2) S(1) sample_entry_mgr_simps
        sample_conn_simps(1) _ sample_node_conn(3) ctx(1,2) S(2) _ _ _ refl, unfolded sample_conn_simps sample_node_conn(2,4,5)]
  obtain p S' w' where w: "do_relay_begin False True sample_target None None (Some (9, ?ops)) [5, 6] ?S = (Some (Stream ?ops p), S')"
      "conn_store (fst (outer (rl_mux S'))) 0 = Some w'"
    using e2e [of "[]"] sid conn [of "[]"] by (auto simp: sample_ctx_synced)
  have "concat (map (\<lambda>b. [b]) bs) = bs" for bs :: bytes by (induction bs) auto
  moreover have "sock_out (sample_sockets ([], 0) :: (unit, MuxEvent list \<times> nat) relay_world) 4 = []" by (simp add: sample_sockets_def)
  moreover have "length [5 :: u8, 6] = 2" by simp
  ultimately show ?thesis
    using e2e [of "map (\<lambda>b. [b]) (io_conn w')", OF sample_ctx_synced] w sid conn [of "io_conn w'"] ctx(3)
    by (simp only: append_Nil append_Nil2 prod.inject option.inject conn) (clarsimp, blast)
qed

end
