(* ===== verification/Stream_Order.thy ===== *)
theory Stream_Order
  imports Mux_Dispatch "HOL-Library.Sublist"
begin

text \<open>
  The chunks of a stream on their way through a node: from the read loop of the connection, cut at the
  suspension of an offer, over the stream's channel of one place to the coroutine that reads the stream,
  in any interleaving with each other and with the rest of the node.
\<close>

subsection \<open>Runs\<close>

text \<open>The data that an event carries for a stream.\<close>

definition chunk_for :: "u32 \<Rightarrow> MuxEvent \<Rightarrow> bytes list" where
  "chunk_for sid e =
     (case ev_body e of
        StreamChunk buf n \<Rightarrow> if head_type (ev_head e) = EVENT_STREAM_CHUNK \<and> head_sid (ev_head e) = sid then [take (unat n) buf] else []
      | _ \<Rightarrow> [])"

definition chunks_for :: "u32 \<Rightarrow> MuxEvent list \<Rightarrow> bytes list" where
  "chunks_for sid es = concat (map (chunk_for sid) es)"

text \<open>What the reading of a connection depends on; a write to it changes none of this.\<close>

definition read_view ::
  "('s \<Rightarrow> bytes) \<Rightarrow> ('s \<Rightarrow> bool) \<Rightarrow> ('c CipherContext, 's) MuxConnection \<Rightarrow>
     u64 \<times> bytes \<times> (nat \<times> nat) \<times> 'c CipherContext \<times> bytes \<times> bool" where
  "read_view pend ok c = (client_id c, read_buffer c, readable_data c, (cipher_ctx c)\<lparr>encrypt_iv := 0\<rparr>, pend (io_conn c), ok (io_conn c))"

text \<open>
  What other coroutines may do to a stream: write to it, which leaves its channel alone, or close it.
\<close>

definition others_keep :: "u64 \<Rightarrow> u32 \<Rightarrow> nat \<Rightarrow> ('k, 'w) mux_world \<Rightarrow> ('k, 'w) mux_world \<Rightarrow> bool" where
  "others_keep cid sid q W W' \<longleftrightarrow> stream_inv W' \<and>
     (\<forall>s. stream_objs W q = Some s \<longrightarrow>
        (\<exists>s'. stream_objs W' q = Some s' \<and>
           (closed s' \<or> \<not> closed s \<and> channel_closed s' = channel_closed s \<and> data_channel s' = data_channel s \<and>
              MuxStream_Get cid sid W' = MuxStream_Get cid sid W)))"

text \<open>
  A state is the node, the chunk that waits for room in its stream's channel, if any, the events read
  from the connection so far and the data read from the stream so far.
\<close>

type_synonym ('c, 's, 'e, 'k, 'w) stream_state =
  "('c CipherContext, 's, 'e, 'k, 'w) node \<times> (nat \<times> bytes \<times> nat) option \<times> MuxEvent list \<times> bytes list"

inductive stream_runs ::
  "('c CipherContext, 's, 'e, 'k, 'w) node_env \<Rightarrow> bool \<Rightarrow>
     (nat \<Rightarrow> ('c CipherContext, 's, 'e, 'k, 'w) node \<Rightarrow> ('c CipherContext, 's, 'e, 'k, 'w) node) option \<Rightarrow>
     ('s \<Rightarrow> bytes) \<Rightarrow> ('s \<Rightarrow> bool) \<Rightarrow> nat \<Rightarrow> u64 \<Rightarrow> u32 \<Rightarrow> nat \<Rightarrow>
     ('c CipherContext, 's, 'e, 'k, 'w) node \<Rightarrow> ('c, 's, 'e, 'k, 'w) stream_state \<Rightarrow> bool"
  for env server_relay cb pend ok x cid sid q N0 where
  start: "stream_runs env server_relay cb pend ok x cid sid q N0 (N0, None, [], [])"
| event_done: "stream_runs env server_relay cb pend ok x cid sid q N0 (N, None, evs, out) \<Longrightarrow>
    ReadEvent (ne_dec env) (ne_rd env) (ne_tm env) ((get_conn x N)\<lparr>read_state := STATE_READING\<rparr>) = Some (0, Some e, c) \<Longrightarrow>
    ProcessReadEvent env server_relay cb x N = Some (Finished rc N') \<Longrightarrow>
    stream_runs env server_relay cb pend ok x cid sid q N0 (N', None, evs @ [e], out)"
| event_waits: "stream_runs env server_relay cb pend ok x cid sid q N0 (N, None, evs, out) \<Longrightarrow>
    ReadEvent (ne_dec env) (ne_rd env) (ne_tm env) ((get_conn x N)\<lparr>read_state := STATE_READING\<rparr>) = Some (0, Some e, c) \<Longrightarrow>
    ProcessReadEvent env server_relay cb x N = Some (Offering p buf n N') \<Longrightarrow>
    stream_runs env server_relay cb pend ok x cid sid q N0 (N', Some (p, buf, n), evs @ [e], out)"
| offered: "stream_runs env server_relay cb pend ok x cid sid q N0 (N, Some (p, buf, n), evs, out) \<Longrightarrow>
    offer_resume p buf n N = Finished rc N' \<Longrightarrow>
    stream_runs env server_relay cb pend ok x cid sid q N0 (N', None, evs, out)"
| stream_read: "stream_runs env server_relay cb pend ok x cid sid q N0 (N, wait, evs, out) \<Longrightarrow>
    MuxStream_Read q (nd_streams N) = Some ((Some buf, n, Ok), W) \<Longrightarrow>
    stream_runs env server_relay cb pend ok x cid sid q N0 (N\<lparr>nd_streams := W\<rparr>, wait, evs, out @ [take n buf])"
| others: "stream_runs env server_relay cb pend ok x cid sid q N0 (N, wait, evs, out) \<Longrightarrow>
    others_keep cid sid q (nd_streams N) (nd_streams N') \<Longrightarrow> read_view pend ok (get_conn x N') = read_view pend ok (get_conn x N) \<Longrightarrow>
    stream_runs env server_relay cb pend ok x cid sid q N0 (N', wait, evs, out)"

subsection \<open>The channel\<close>

definition waiting_for :: "nat \<Rightarrow> (nat \<times> bytes \<times> nat) option \<Rightarrow> bytes list" where
  "waiting_for q w = (case w of None \<Rightarrow> [] | Some (p, buf, n) \<Rightarrow> if p = q then [take n buf] else [])"

definition held :: "nat \<Rightarrow> (nat \<times> bytes \<times> nat) option \<Rightarrow> 'k MuxStream \<Rightarrow> bytes list" where
  "held q w s = map (\<lambda>(buf, n). take n buf) (data_channel s) @ waiting_for q w"

text \<open>
  The stream is closed, or it is registered, its channel holds at most one chunk, and what came for it is
  what was read from it followed by what it holds.
\<close>

definition order_inv ::
  "u64 \<Rightarrow> u32 \<Rightarrow> nat \<Rightarrow> ('k, 'w) mux_world \<Rightarrow> (nat \<times> bytes \<times> nat) option \<Rightarrow> bytes list \<Rightarrow> bytes list \<Rightarrow> bool" where
  "order_inv cid sid q W w got out \<longleftrightarrow> stream_inv W \<and> prefix out got \<and>
     (\<exists>s. stream_objs W q = Some s \<and>
        (closed s \<or> MuxStream_Get cid sid W = Some q \<and> \<not> channel_closed s \<and> length (data_channel s) \<le> 1 \<and> got = out @ held q w s))"

lemma stream_unique: "stream_inv W \<Longrightarrow> MuxStream_Get cid i W = Some p \<Longrightarrow> MuxStream_Get cid j W = Some p \<Longrightarrow> i = j"
  unfolding stream_inv_def MuxStream_Get_def by (metis option.inject)

lemma Offer_inv: "stream_inv W \<Longrightarrow> MuxStream_Offer p buf n W = Some (ec, W') \<Longrightarrow> stream_inv W'"
  by (auto simp: MuxStream_Offer_def stream_inv_put split: option.splits if_splits)

lemma Read_inv: "stream_inv W \<Longrightarrow> MuxStream_Read p W = Some (r, W') \<Longrightarrow> stream_inv W'"
  by (auto simp: MuxStream_Read_def stream_inv_put split: option.splits if_splits list.splits)

text \<open>A chunk for some stream of the client has arrived and is about to be offered.\<close>

lemma order_arrive:
  assumes "order_inv cid sid q W None got out" "MuxStream_Get cid sid' W = Some p"
  shows "order_inv cid sid q W (Some (p, buf, n)) (got @ (if sid' = sid then [take n buf] else [])) out"
proof -
  obtain s where s: "stream_objs W q = Some s" "stream_inv W" "prefix out got"
    "closed s \<or> MuxStream_Get cid sid W = Some q \<and> \<not> channel_closed s \<and> length (data_channel s) \<le> 1 \<and> got = out @ held q None s"
    using assms(1) by (auto simp: order_inv_def)
  have "sid' = sid \<longleftrightarrow> p = q" if "MuxStream_Get cid sid W = Some q"
    using that assms(2) stream_unique [OF s(2)] by auto
  with s show ?thesis by (auto simp: order_inv_def held_def waiting_for_def)
qed

lemma order_offer:
  assumes "order_inv cid sid q W (Some (p, buf, n)) got out" "MuxStream_Offer p buf n W = Some (ec, W')"
  shows "order_inv cid sid q W' None got out"
proof -
  have inv: "stream_inv W'" using assms Offer_inv by (auto simp: order_inv_def)
  have g: "MuxStream_Get cid sid W' = MuxStream_Get cid sid W"
    using assms(2) by (auto simp: MuxStream_Offer_def MuxStream_Get_def put_stream_def split: option.splits if_splits)
  show ?thesis
  proof (cases "p = q")
    case True
    then show ?thesis using assms inv g
      by (auto simp: order_inv_def held_def waiting_for_def MuxStream_Offer_def put_stream_def le_Suc_eq split: option.splits if_splits)
  next
    case False
    then have "stream_objs W' q = stream_objs W q" using offer_only [OF assms(2)] by (simp add: only_stream_def)
    with False show ?thesis using assms(1) inv g by (auto simp: order_inv_def held_def waiting_for_def)
  qed
qed

lemma order_close:
  assumes "order_inv cid sid q W None got out" "MuxStream_Get cid sid' W = Some p"
  shows "order_inv cid sid q (snd (MuxStream_Close ops p True W)) None got out"
proof -
  let ?W = "snd (MuxStream_Close ops p True W)"
  have W: "stream_inv W" using assms(1) by (simp add: order_inv_def)
  have inv: "stream_inv ?W" using stream_inv_WriteEvent_Close(2) [OF W] .
  note only = remote_close_only [OF W assms(2), of ops]
  show ?thesis
  proof (cases "p = q")
    case True
    obtain s where "stream_objs W q = Some s" "\<not> closed s"
      using assms(2) W True unfolding stream_inv_def MuxStream_Get_def by blast
    then have "\<exists>s'. stream_objs ?W q = Some s' \<and> closed s'" using True
      by (simp add: MuxStream_Close.simps close_stream_def put_stream_def)
    with assms(1) inv show ?thesis by (auto simp: order_inv_def)
  next
    case False
    then have "stream_objs ?W q = stream_objs W q" "MuxStream_Get cid sid W = Some q \<Longrightarrow> MuxStream_Get cid sid ?W = Some q"
      using only by (auto simp: only_stream_def MuxStream_Get_def)
    with assms(1) inv show ?thesis by (auto simp: order_inv_def)
  qed
qed

lemma order_read:
  assumes "order_inv cid sid q W w got out" "MuxStream_Read q W = Some ((Some buf, n, Ok), W')"
  shows "order_inv cid sid q W' w got (out @ [take n buf])"
  using assms Read_inv [OF _ assms(2)]
  by (auto simp: order_inv_def held_def MuxStream_Read_def MuxStream_Get_def put_stream_def split: option.splits if_splits list.splits)

lemma order_others:
  assumes "order_inv cid sid q W w got out" "others_keep cid sid q W W'"
  shows "order_inv cid sid q W' w got out"
  using assms by (fastforce simp: order_inv_def others_keep_def held_def)

lemma order_gone:
  assumes "order_inv cid sid q W None got out" "MuxStream_Get cid sid' W = None"
  shows "order_inv cid sid q W None (got @ (if sid' = sid then gs else [])) out"
  using assms by (auto simp: order_inv_def)

lemma order_chunk:
  assumes inv: "order_inv (client_id (get_conn x N)) sid q (nd_streams N) None got out"
    and e: "head_type (ev_head e) = EVENT_STREAM_CHUNK"
  shows "on_stream_chunk env x e N = Finished rc N' \<Longrightarrow> order_inv (client_id (get_conn x N)) sid q (nd_streams N') None (got @ chunk_for sid e) out"
    "on_stream_chunk env x e N = Offering p buf n N' \<Longrightarrow>
       order_inv (client_id (get_conn x N)) sid q (nd_streams N') (Some (p, buf, n)) (got @ chunk_for sid e) out"
proof -
  let ?cid = "client_id (get_conn x N)" and ?sid = "head_sid (ev_head e)"
  let ?P = "on_stream_chunk env x e N"
  have "(?P = Finished rc N' \<longrightarrow> order_inv ?cid sid q (nd_streams N') None (got @ chunk_for sid e) out) \<and>
    (?P = Offering p buf n N' \<longrightarrow> order_inv ?cid sid q (nd_streams N') (Some (p, buf, n)) (got @ chunk_for sid e) out)"
  proof (cases "MuxStream_Get ?cid ?sid (nd_streams N)")
    case None
    have "?sid \<noteq> sid \<Longrightarrow> chunk_for sid e = []" by (simp add: chunk_for_def split: mux_body.split)
    then have "order_inv ?cid sid q (nd_streams N) None (got @ chunk_for sid e) out"
      using order_gone [OF inv None, of "chunk_for sid e"] by (cases "?sid = sid") auto
    with None show ?thesis by (auto simp: on_stream_chunk_def conn_write_node Let_def)
  next
    case (Some p')
    show ?thesis
    proof (cases "\<exists>b k. ev_body e = StreamChunk b k")
      case True
      then obtain b k where b: "ev_body e = StreamChunk b k" by blast
      have c: "chunk_for sid e = (if ?sid = sid then [take (unat k) b] else [])" using e by (simp add: chunk_for_def b)
      note arr = order_arrive [OF inv Some, of b "unat k"]
      from arr order_offer [OF arr] Some b c show ?thesis
        by (auto simp: on_stream_chunk_def Let_def split: option.splits)
    next
      case False
      then have "?P = Finished (- 1) N" "chunk_for sid e = []" using Some
        by (auto simp: on_stream_chunk_def chunk_for_def Let_def split: mux_body.split)
      with inv show ?thesis by auto
    qed
  qed
  then show "?P = Finished rc N' \<Longrightarrow> order_inv ?cid sid q (nd_streams N') None (got @ chunk_for sid e) out"
    "?P = Offering p buf n N' \<Longrightarrow> order_inv ?cid sid q (nd_streams N') (Some (p, buf, n)) (got @ chunk_for sid e) out" by blast+
qed

lemma order_process:
  assumes inv: "order_inv (client_id (get_conn x N)) sid q (nd_streams N) None got out" and cb: "callback_ok cb"
  shows "process_event env server_relay cb x e N = Finished rc N' \<Longrightarrow>
      order_inv (client_id (get_conn x N)) sid q (nd_streams N') None (got @ chunk_for sid e) out"
    "process_event env server_relay cb x e N = Offering p buf n N' \<Longrightarrow>
      order_inv (client_id (get_conn x N)) sid q (nd_streams N') (Some (p, buf, n)) (got @ chunk_for sid e) out"
proof -
  let ?t = "head_type (ev_head e)" and ?cid = "client_id (get_conn x N)" and ?P = "process_event env server_relay cb x e N"
  have none: "?t \<noteq> EVENT_STREAM_CHUNK \<Longrightarrow> chunk_for sid e = []" by (simp add: chunk_for_def split: mux_body.split)
  have same: "order_inv ?cid sid q (nd_streams (progress_node ?P)) None got out" if "?t \<noteq> EVENT_STREAM_CHUNK" "?t \<noteq> EVENT_STREAM_CLOSE"
    using that inv cb tunnel_open_keeps(1) [of env x e N]
    by (auto simp: process_event_def on_retire_def on_stream_open_def callback_ok_def Let_def split: option.splits mux_body.splits)
  have close: "order_inv ?cid sid q (nd_streams (progress_node ?P)) None got out" if "?t = EVENT_STREAM_CLOSE"
    using that inv order_close [OF inv] by (auto simp: process_event_def on_stream_close_def split: option.splits)
  have fin: "\<exists>rc. ?P = Finished rc (progress_node ?P) \<or> ?P = Throws (progress_node ?P)" if "?t \<noteq> EVENT_STREAM_CHUNK"
    using that by (auto simp: process_event_def on_retire_def on_tunnel_open_def on_stream_open_def on_stream_close_def Let_def
        split: option.splits mux_body.splits prod.splits)
  have other: "order_inv ?cid sid q (nd_streams N') None (got @ chunk_for sid e) out" if "?t \<noteq> EVENT_STREAM_CHUNK" "?P = Finished rc N'"
  proof -
    have "order_inv ?cid sid q (nd_streams (progress_node ?P)) None got out" using same [OF that(1)] close by blast
    with that none show ?thesis by simp
  qed
  show "?P = Finished rc N' \<Longrightarrow> order_inv ?cid sid q (nd_streams N') None (got @ chunk_for sid e) out"
    using order_chunk(1) [OF inv, of e env rc N'] other by (cases "?t = EVENT_STREAM_CHUNK") (auto simp: process_event_def)
  show "?P = Offering p buf n N' \<Longrightarrow> order_inv ?cid sid q (nd_streams N') (Some (p, buf, n)) (got @ chunk_for sid e) out"
    using order_chunk(2) [OF inv, of e env p buf n N'] fin by (cases "?t = EVENT_STREAM_CHUNK") (auto simp: process_event_def)
qed

subsection \<open>What processing an event keeps of a connection\<close>

text \<open>\<open>V\<close> is a view of the connection that its flags and writes to it do not change.\<close>

lemma process_view:
  assumes cb: "callback_ok cb"
    and V: "\<And>c r. V (c\<lparr>read_state := r\<rparr>) = V c" "\<And>c i. V (c\<lparr>last_unmatch_stream_id := i\<rparr>) = V c" "\<And>c b. V (c\<lparr>retired := b\<rparr>) = V c"
    and wr: "\<And>c ev. V (snd (MuxConnection_Write (ne_enc env) (ne_wr env) (ne_tm env) c ev)) = V c"
  shows "V (get_conn x (progress_node (process_event env server_relay cb x e N))) = V (get_conn x N)"
proof -
  have w: "V (get_conn x (snd (conn_write env x ev M))) = V (get_conn x M)" for ev M
    using wr [of "get_conn x M" ev] by (auto simp: conn_write_def split: prod.splits)
  have cb': "get_conn x (f x M) = get_conn x M" if "cb = Some f" for f M using cb that by (simp add: callback_ok_def get_conn_def)
  have "V (get_conn x (progress_node (on_retire cb x N))) = V (get_conn x N)"
    by (simp add: on_retire_def V cb' Let_def split: option.split)
  moreover have "V (get_conn x (progress_node (on_tunnel_open env x e N))) = V (get_conn x N)"
  proof -
    obtain rsp m T where h: "tunnel_server_handler (ne_listen env) (ne_is_entry env) (auth_user (get_conn x N))
      (client_id (get_conn x N)) e (nd_mgr N) (nd_tunnels N) = (rsp, m, T)" using prod_cases3 by blast
    from handler_conn_store [OF h] have "get_conn x (N\<lparr>nd_mgr := m, nd_tunnels := T\<rparr>) = get_conn x N" by (simp add: get_conn_def)
    with h show ?thesis by (simp add: on_tunnel_open_def w Let_def split: option.split)
  qed
  moreover have "V (get_conn x (progress_node (on_stream_chunk env x e N))) = V (get_conn x N)"
    by (auto simp: on_stream_chunk_def w V Let_def split: option.split mux_body.split)
  ultimately show ?thesis
    by (auto simp: process_event_def on_stream_open_def on_stream_close_def Let_def split: option.split mux_body.split)
qed

lemma process_client_id:
  assumes "callback_ok cb"
  shows "client_id (get_conn x (progress_node (process_event env server_relay cb x e N))) = client_id (get_conn x N)"
proof (rule process_view [OF assms])
  show "client_id (snd (MuxConnection_Write (ne_enc env) (ne_wr env) (ne_tm env) c ev)) = client_id c" for c ev
    using Write_keeps [of "ne_enc env" "ne_wr env" "ne_tm env" c ev]
    by (cases "MuxConnection_Write (ne_enc env) (ne_wr env) (ne_tm env) c ev") simp
qed simp_all

subsection \<open>Every run\<close>

definition fresh_stream :: "u64 \<Rightarrow> u32 \<Rightarrow> nat \<Rightarrow> ('k, 'w) mux_world \<Rightarrow> bool" where
  "fresh_stream cid sid q W \<longleftrightarrow> stream_inv W \<and> MuxStream_Get cid sid W = Some q \<and>
     (\<exists>s. stream_objs W q = Some s \<and> \<not> channel_closed s \<and> data_channel s = [])"

lemma read_round:
  assumes "ReadEvent (ne_dec env) (ne_rd env) (ne_tm env) ((get_conn x N)\<lparr>read_state := STATE_READING\<rparr>) = Some (0, Some e, c)"
    and "ProcessReadEvent env server_relay cb x N = Some P"
  shows "P = process_event env server_relay cb x e (set_conn x (c\<lparr>read_state := STATE_READED\<rparr>) N)" "client_id c = client_id (get_conn x N)"
  using assms ReadEvent_loop_write_side [OF assms(1) [unfolded ReadEvent_def]] by (simp_all add: ProcessReadEvent_def write_side_def Let_def)

lemma chunks_for_snoc [simp]: "chunks_for sid (evs @ [e]) = chunks_for sid evs @ chunk_for sid e" "chunks_for sid [] = []"
  by (simp_all add: chunks_for_def)

lemma runs_order:
  assumes cb: "callback_ok cb" and fresh: "fresh_stream cid sid q (nd_streams N0)" "client_id (get_conn x N0) = cid"
    and run: "stream_runs env server_relay cb pend ok x cid sid q N0 S"
  shows "case S of (N, wait, evs, out) \<Rightarrow> client_id (get_conn x N) = cid \<and> order_inv cid sid q (nd_streams N) wait (chunks_for sid evs) out"
  using run
proof (induction rule: stream_runs.induct)
  case start
  with fresh show ?case by (auto simp: fresh_stream_def order_inv_def held_def waiting_for_def)
next
  case (event_done N evs out e c rc N')
  let ?N = "set_conn x (c\<lparr>read_state := STATE_READED\<rparr>) N"
  note r = read_round [OF event_done.hyps(2,3)]
  have i: "order_inv (client_id (get_conn x ?N)) sid q (nd_streams ?N) None (chunks_for sid evs) out" and c: "client_id (get_conn x ?N) = cid"
    using event_done.IH r(2) by simp_all
  from order_process(1) [OF i cb r(1) [symmetric]] process_client_id [OF cb, of x env server_relay e ?N] r(1) [symmetric] c
  show ?case by simp
next
  case (event_waits N evs out e c p buf n N')
  let ?N = "set_conn x (c\<lparr>read_state := STATE_READED\<rparr>) N"
  note r = read_round [OF event_waits.hyps(2,3)]
  have i: "order_inv (client_id (get_conn x ?N)) sid q (nd_streams ?N) None (chunks_for sid evs) out" and c: "client_id (get_conn x ?N) = cid"
    using event_waits.IH r(2) by simp_all
  from order_process(2) [OF i cb r(1) [symmetric]] process_client_id [OF cb, of x env server_relay e ?N] r(1) [symmetric] c
  show ?case by simp
next
  case (offered N p buf n evs out rc N')
  then show ?case using order_offer by (fastforce simp: offer_resume_def split: option.splits)
next
  case (stream_read N wait evs out buf n W)
  then show ?case using order_read by fastforce
next
  case (others N wait evs out N')
  then show ?case using order_others by (fastforce simp: read_view_def)
qed

subsection \<open>What is on the wire\<close>

text \<open>Writing to a connection leaves what is to be read from it as it is, if the transport does.\<close>

definition writes_apart :: "('s \<Rightarrow> bytes) \<Rightarrow> ('s \<Rightarrow> bool) \<Rightarrow> 's writer \<Rightarrow> bool" where
  "writes_apart pend ok wr \<longleftrightarrow> (\<forall>s bs. pend (snd (wr s bs)) = pend s \<and> ok (snd (wr s bs)) = ok s)"

definition same_decoder :: "'c CipherContext \<Rightarrow> 'c CipherContext \<Rightarrow> bool" where
  "same_decoder r r1 \<longleftrightarrow> r1\<lparr>encrypt_iv := 0\<rparr> = r\<lparr>encrypt_iv := 0\<rparr>"

lemma same_decoderD:
  "same_decoder r r1 \<Longrightarrow> decrypt_ctx r1 = decrypt_ctx r \<and> decrypt_iv r1 = decrypt_iv r \<and> cipher_sized r1 = cipher_sized r"
  by (cases r; cases r1) (auto simp: same_decoder_def cipher_sized_def)

lemma framed_same_decoder:
  assumes "cipher_framed A L r e f r'" "same_decoder r r1"
  shows "\<exists>r1'. cipher_framed A L r1 e f r1' \<and> same_decoder r' r1'"
proof -
  have "same_decoder (r\<lparr>decrypt_iv := iv\<rparr>) (r1\<lparr>decrypt_iv := iv\<rparr>)" for iv
    using assms(2) by (cases r; cases r1) (auto simp: same_decoder_def)
  with assms(1) same_decoderD [OF assms(2)] show ?thesis unfolding cipher_framed_def by auto
qed

lemma frames_same_decoder:
  "cipher.frames A L r efs r' \<Longrightarrow> same_decoder r r1 \<Longrightarrow> \<exists>r1'. cipher.frames A L r1 efs r1'"
proof (induction efs arbitrary: r r1)
  case Nil
  show ?case by (rule exI [of _ r1]) simp
next
  case (Cons ef efs)
  obtain e f where ef: "ef = (e, f)" by fastforce
  from Cons.prems(1) ef obtain r2 where r2: "cipher_framed A L r e f r2" "cipher.frames A L r2 efs r'" by auto
  from framed_same_decoder [OF r2(1) Cons.prems(2)] obtain r3 where "cipher_framed A L r1 e f r3" "same_decoder r2 r3" by blast
  with Cons.IH [OF r2(2)] show ?case unfolding ef cipher.frames.simps by blast
qed

definition on_wire ::
  "'c aead \<Rightarrow> pb_lib \<Rightarrow> ('s \<Rightarrow> bytes) \<Rightarrow> ('s \<Rightarrow> bool) \<Rightarrow> bytes \<Rightarrow> (MuxEvent \<times> bytes) list \<Rightarrow> ('c CipherContext, 's) MuxConnection \<Rightarrow> bool" where
  "on_wire A L pend ok rest efs c \<longleftrightarrow> reader_ok ok c \<and> unread pend c = concat (map snd efs) @ rest \<and>
     (\<exists>r'. cipher.frames A L (cipher_ctx c) efs r')"

lemma on_wire_view:
  assumes "on_wire A L pend ok rest efs c" "read_view pend ok c' = read_view pend ok c"
  shows "on_wire A L pend ok rest efs c'"
proof -
  have "same_decoder (cipher_ctx c) (cipher_ctx c')" using assms(2) by (simp add: read_view_def same_decoder_def)
  with assms frames_same_decoder show ?thesis
    by (auto simp: on_wire_def read_view_def reader_ok_def spans_ok_def unread_def)
qed

lemma Encrypt_same_decoder:
  "CipherContext_Encrypt A L ctx e out = (r, ctx', e') \<Longrightarrow> ctx'\<lparr>encrypt_iv := 0\<rparr> = ctx\<lparr>encrypt_iv := 0\<rparr>"
  by (auto simp: CipherContext_Encrypt_def Let_def split: if_splits option.splits sum.splits)

lemma Write_view:
  assumes "writes_apart pend ok wr"
  shows "read_view pend ok (snd (MuxConnection_Write (CipherContext_Encrypt A L) wr tm c ev)) = read_view pend ok c"
proof -
  obtain o1 r1 e1 where e: "CipherContext_Encrypt A L (cipher_ctx (write_lock c)) ev (write_buffer (write_lock c)) = (o1, r1, e1)"
    by (metis prod_cases3)
  have r1: "r1\<lparr>encrypt_iv := 0\<rparr> = (cipher_ctx c)\<lparr>encrypt_iv := 0\<rparr>" using Encrypt_same_decoder [OF e] by (simp add: write_lock_def)
  show ?thesis
  proof (cases o1)
    case (Inl rc)
    with e r1 show ?thesis by (auto simp: MuxConnection_Write_def read_view_def write_lock_def write_unlock_def)
  next
    case (Inr b)
    obtain ec s' where w: "wr (io_conn c) b = (ec, s')" by fastforce
    have "pend s' = pend (io_conn c)" "ok s' = ok (io_conn c)" using assms w by (metis snd_conv writes_apart_def)+
    with e Inr w r1 show ?thesis
      by (cases "ec = 0") (auto simp: MuxConnection_Write_def read_view_def write_lock_def write_unlock_def count_write_def Let_def)
  qed
qed

text \<open>A round of the read loop takes the first frame off the wire.\<close>

lemma on_wire_round:
  assumes live: "live_connection (ne_rd env) pend ok" and dec: "ne_dec env = CipherContext_Decrypt A L"
    and enc: "ne_enc env = CipherContext_Encrypt A L" and wr: "writes_apart pend ok (ne_wr env)"
    and cb: "callback_ok cb" and w: "on_wire A L pend ok rest ((e, f) # efs) (get_conn x N)"
    and read: "ReadEvent (ne_dec env) (ne_rd env) (ne_tm env) ((get_conn x N)\<lparr>read_state := STATE_READING\<rparr>) = Some (0, Some e', c)"
    and step: "ProcessReadEvent env server_relay cb x N = Some P"
  shows "e' = e \<and> on_wire A L pend ok rest efs (get_conn x (progress_node P))"
proof -
  let ?c = "(get_conn x N)\<lparr>read_state := STATE_READING\<rparr>"
  from w obtain r1 r2 where fr: "cipher_framed A L (cipher_ctx (get_conn x N)) e f r1" "cipher.frames A L r1 efs r2"
    by (auto simp: on_wire_def)
  have "reader_ok ok ?c" "unread pend ?c = f @ concat (map snd efs) @ rest" "cipher_framed A L (cipher_ctx ?c) e f r1"
    using w fr by (simp_all add: on_wire_def reader_ok_def spans_ok_def unread_def)
  from event_reader.ReadEvent_frame [OF cipher_event_reader [OF live] this, of "ne_tm env"] read dec
  have c: "e' = e" "reader_ok ok c" "unread pend c = concat (map snd efs) @ rest" "cipher_ctx c = r1" by auto
  let ?N = "set_conn x (c\<lparr>read_state := STATE_READED\<rparr>) N"
  have "read_view pend ok (get_conn x (progress_node (process_event env server_relay cb x e' ?N))) = read_view pend ok (get_conn x ?N)"
  proof (rule process_view [OF cb])
    show "read_view pend ok (snd (MuxConnection_Write (ne_enc env) (ne_wr env) (ne_tm env) c ev)) = read_view pend ok c" for c ev
      unfolding enc by (rule Write_view) (rule wr)
  qed (simp_all add: read_view_def)
  moreover have "read_view pend ok (get_conn x ?N) = read_view pend ok c" by (simp add: read_view_def)
  moreover have "on_wire A L pend ok rest efs c" using c fr by (auto simp: on_wire_def)
  ultimately show ?thesis using on_wire_view c(1) read_round(1) [OF read step] by metis
qed

lemma on_wire_next:
  assumes live: "live_connection (ne_rd env) pend ok" and dec: "ne_dec env = CipherContext_Decrypt A L"
    and enc: "ne_enc env = CipherContext_Encrypt A L" and wr: "writes_apart pend ok (ne_wr env)"
    and cb: "callback_ok cb"
    and IH: "length evs \<le> length efs \<longrightarrow>
      evs = map fst (take (length evs) efs) \<and> on_wire A L pend ok rest (drop (length evs) efs) (get_conn x N)"
    and read: "ReadEvent (ne_dec env) (ne_rd env) (ne_tm env) ((get_conn x N)\<lparr>read_state := STATE_READING\<rparr>) = Some (0, Some e, c)"
    and step: "ProcessReadEvent env server_relay cb x N = Some P"
  shows "length (evs @ [e]) \<le> length efs \<longrightarrow> evs @ [e] = map fst (take (length (evs @ [e])) efs) \<and>
    on_wire A L pend ok rest (drop (length (evs @ [e])) efs) (get_conn x (progress_node P))"
proof
  assume "length (evs @ [e]) \<le> length efs"
  then have l: "length evs < length efs" by simp
  obtain e1 f1 where ef: "efs ! length evs = (e1, f1)" by fastforce
  with l have d: "drop (length evs) efs = (e1, f1) # drop (Suc (length evs)) efs" by (metis Cons_nth_drop_Suc)
  with IH l have "on_wire A L pend ok rest ((e1, f1) # drop (Suc (length evs)) efs) (get_conn x N)" by simp
  from on_wire_round [OF live dec enc wr cb this read step] IH l ef
  show "evs @ [e] = map fst (take (length (evs @ [e])) efs) \<and>
    on_wire A L pend ok rest (drop (length (evs @ [e])) efs) (get_conn x (progress_node P))"
    by (simp add: take_Suc_conv_app_nth)
qed

lemma runs_on_wire:
  assumes live: "live_connection (ne_rd env) pend ok" and dec: "ne_dec env = CipherContext_Decrypt A L"
    and enc: "ne_enc env = CipherContext_Encrypt A L" and wr: "writes_apart pend ok (ne_wr env)"
    and cb: "callback_ok cb" and w: "on_wire A L pend ok rest efs (get_conn x N0)"
    and run: "stream_runs env server_relay cb pend ok x cid sid q N0 S"
  shows "case S of (N, wait, evs, out) \<Rightarrow> length evs \<le> length efs \<longrightarrow>
    evs = map fst (take (length evs) efs) \<and> on_wire A L pend ok rest (drop (length evs) efs) (get_conn x N)"
  using run
proof (induction rule: stream_runs.induct)
  case start
  with w show ?case by simp
next
  case (event_done N evs out e c rc N')
  with on_wire_next [OF live dec enc wr cb _ event_done.hyps(2,3), of evs efs rest] show ?case by simp
next
  case (event_waits N evs out e c p buf n N')
  with on_wire_next [OF live dec enc wr cb _ event_waits.hyps(2,3), of evs efs rest] show ?case by simp
next
  case (offered N p buf n evs out rc N')
  then show ?case by (auto simp: offer_resume_def split: option.splits)
next
  case (stream_read N wait evs out buf n W)
  then show ?case by simp
next
  case (others N wait evs out N')
  then show ?case using on_wire_view by fastforce
qed

subsection \<open>Properties\<close>

lemma chunks_for_sent:
  assumes "list_all2 (\<lambda>e ef. \<exists>n. fst ef = with_len n e) es efs"
  shows "chunks_for sid (map fst (take k efs)) = chunks_for sid (take k es)"
proof -
  have "chunk_for sid (with_len n e) = chunk_for sid e" for n e by (simp add: chunk_for_def split: mux_body.split)
  with assms show ?thesis
  proof (induction arbitrary: k rule: list_all2_induct)
    case (Cons e es ef efs)
    then show ?case by (cases k) (auto simp: chunks_for_def)
  qed (simp add: chunks_for_def)
qed

subsection \<open>A run\<close>

text \<open>Two bytes for stream 1 arrive in one segment and are read from the stream.\<close>

definition two_bytes :: MuxEvent where
  "two_bytes = StreamChunk_of 1 False [5, 6] (length [5 :: u8, 6])"

lemma sample_fresh:
  "fresh_stream 9 1 0 (nd_streams (sample_node segs))" "client_id (get_conn 0 (sample_node segs)) = 9" "callback_ok None"
  using stream_reachable_inv [OF sample_world_reachable]
  by (simp_all add: fresh_stream_def sample_node_conn sample_world_stream callback_ok_def)

lemma sample_stream_run:
  "\<exists>w' f e N. write_events (CipherContext_Encrypt ref_aead ref_pb) (\<lambda>_. 0) (sample_conn []) [two_bytes] = Some w' \<and> io_conn w' = f \<and>
     stream_runs sample_env True None concat (\<lambda>_. True) 0 9 1 0 (sample_node [f]) (N, None, [e], [[5, 6]])"
proof -
  let ?e = two_bytes
  have wf: "wf_event kMaxChunkSize ?e" by (simp add: two_bytes_def wf_event_def StreamChunk_of_def make_event_def unat_of_nat)
  have env: "ne_rd sample_env = script_read" "ne_dec sample_env = CipherContext_Decrypt ref_aead ref_pb"
    "ne_tm sample_env = (\<lambda>_. 1700000000)" by (simp_all add: sample_env_def)
  have "synced (cipher_ctx (sample_conn ([] :: bytes))) sample_ctx" by (simp add: sample_conn_simps sample_ctx_synced)
  from Wire_framed [OF ref_aead_ok ref_pb_ok sample_conn_simps(1) this wf, of "\<lambda>_. 0"] obtain w' f n r' where
    w: "MuxConnection_Write (CipherContext_Encrypt ref_aead ref_pb) wire_write (\<lambda>_. 0) (sample_conn []) ?e = (True, w')" "io_conn w' = f"
    and fr: "cipher_framed ref_aead ref_pb sample_ctx (with_len n ?e) f r'" by (auto simp: sample_conn_simps)
  let ?N = "sample_node [f]"
  have "reader_ok (\<lambda>_. True) ((get_conn 0 ?N)\<lparr>read_state := STATE_READING\<rparr>)" "unread concat ((get_conn 0 ?N)\<lparr>read_state := STATE_READING\<rparr>) = f @ []"
      "cipher_framed ref_aead ref_pb (cipher_ctx ((get_conn 0 ?N)\<lparr>read_state := STATE_READING\<rparr>)) (with_len n ?e) f r'"
    using fr sample_node_conn(3-5) [of "[f]"] by (simp_all add: reader_ok_def spans_ok_def unread_def)
  from event_reader.ReadEvent_frame [OF cipher_event_reader [OF scripted.live_connection_axioms] this, of "\<lambda>_. 1700000000"]
  obtain c where read: "ReadEvent (ne_dec sample_env) (ne_rd sample_env) (ne_tm sample_env) ((get_conn 0 ?N)\<lparr>read_state := STATE_READING\<rparr>) =
      Some (0, Some (with_len n ?e), c)" unfolding env by blast
  have "\<exists>N' W. ProcessReadEvent sample_env True None 0 ?N = Some (Finished 0 N') \<and>
      MuxStream_Read 0 (nd_streams N') = Some ((Some [5, 6], length [5 :: u8, 6], Ok), W) \<and>
      unread concat (get_conn 0 N') = [] \<and> cipher_ctx (get_conn 0 N') = r'"
    by (rule chunk_round [where A = ref_aead and L = ref_pb and ok = "\<lambda>_. True" and sid = 1 and f = f and n = n and fl = False and
          s = "the (stream_objs sample_world 0)"], unfold env sample_node_conn)
      (use fr in \<open>simp_all add: two_bytes_def scripted.live_connection_axioms sample_node_conn(3,5) [unfolded sample_node_conn]
        sample_world_stream sample_conn_simps\<close>)
  then obtain N' W where p: "ProcessReadEvent sample_env True None 0 ?N = Some (Finished 0 N')"
    and q: "MuxStream_Read 0 (nd_streams N') = Some ((Some [5, 6], length [5 :: u8, 6], Ok), W)" by blast
  from stream_runs.event_done [OF stream_runs.start read p]
  have "stream_runs sample_env True None concat (\<lambda>_. True) 0 9 1 0 ?N (N', None, [] @ [with_len n ?e], [])" .
  from stream_runs.stream_read [OF this q]
  have "stream_runs sample_env True None concat (\<lambda>_. True) 0 9 1 0 ?N (N'\<lparr>nd_streams := W\<rparr>, None, [with_len n ?e], [[5, 6]])" by simp
  with w show ?thesis by auto
qed



end
