(* ===== verification/Stream_Migration.thy ===== *)
theory Stream_Migration
  imports End_To_End Mux_Server
begin

text \<open>
  A stream that loses its connection: its writer is bound to a slot of the session, and when the slot
  is empty \<^verbatim>\<open>MuxStream::WriteEvent\<close> takes another connection.  What was written before may still be on
  its way on the first one, and the peer reads its connections independently of each other.
\<close>

subsection \<open>The sender\<close>

lemma session_ops_gone:
  assumes "i < length (session_conns sr m)" "session_conns sr m ! i = None"
  shows "run_writer (session_ops enc wr tm sr) (sr, i) ev (m, h) = (False, m, h)"
  using assms by (simp add: session_ops_def session_write_def session_conns_def Let_def)

text \<open>The first try fails, the second one goes to the connection that the session selects now.\<close>

lemma WriteEvent_migrates:
  fixes ops :: "('k, 'w) writer_ops"
  assumes "stream_objs W p = Some s" "event_writer s = Some k" "run_writer ops k ev (outer W) = (False, w1)"
    "make_writer ops w1 = Some k'" "run_writer ops k' ev w1 = (True, w2)"
  shows "MuxStream_WriteEvent ops p ev W = (True, put_stream p (s\<lparr>event_writer := Some k'\<rparr>) (W\<lparr>outer := w2\<rparr>))"
  using assms by (simp add: MuxStream_WriteEvent.simps numeral_3_eq_3 Let_def)

text \<open>The flag of the chunk that a stream writes.\<close>

definition chunk_flag :: "bool \<Rightarrow> 'k MuxStream \<Rightarrow> bool" where
  "chunk_flag is_entry s = (if is_tls s then (if write_bytes s = 0 \<and> is_entry then False else True) else False)"

lemma MuxStream_Write_ok:
  assumes "stream_objs W p = Some s"
    "MuxStream_WriteEvent ops p (StreamChunk_of (stream_sid s) (chunk_flag is_entry s) buf len)
       (put_stream p (s\<lparr>write_bytes := write_bytes s + word_of_nat len\<rparr>) W) = (True, W')"
  shows "MuxStream_Write ops is_entry p buf len W = (Ok, W')"
  using assms unfolding chunk_flag_def by (simp only: MuxStream_Write_def Let_def option.case prod.case if_True)

lemma select_second: "conns (the (sess_store m sr)) = [None, Some y] \<Longrightarrow> session_writer sr m = Some (sr, 1)"
  by (simp add: session_writer_def select_conn_def)

text \<open>Between two chunks the first connection of a session with two is removed.\<close>

lemma chunks_part:
  assumes ops_def: "ops = session_ops (CipherContext_Encrypt A L) wire_write tm sr" and lib: "aead_ok A" "pb_lib_ok L"
    and mgr: "manager_inv m" "find_session user cid (conn_type wx) m = Some sr" "session_conns sr m = [Some x, Some y]"
      "conn_store m x = Some wx" "conn_store m y = Some wy"
    and wx: "writer_ok wx" "synced (cipher_ctx wx) rx" and wy: "writer_ok wy" "synced (cipher_ctx wy) ry"
    and s: "stream_objs W p = Some s" "event_writer s = Some (sr, 0)" "outer W = (m, h)"
    and len: "length b1 \<le> kMaxChunkSize" "length b2 \<le> kMaxChunkSize"
  shows "\<exists>W1 m1 h1 W2 m2 h2 wx' wy' fl1 n1 f1 rx' fl2 n2 f2 ry'.
    MuxStream_Write ops is_entry p b1 (length b1) W = (Ok, W1) \<and> outer W1 = (m1, h1) \<and>
    MuxStream_Write ops is_entry p b2 (length b2) (W1\<lparr>outer := (MuxConnManager_Remove user cid x m1, h1)\<rparr>) = (Ok, W2) \<and>
    outer W2 = (m2, h2) \<and> conn_store m2 x = Some wx' \<and> io_conn wx' = io_conn wx @ f1 \<and>
    conn_store m2 y = Some wy' \<and> io_conn wy' = io_conn wy @ f2 \<and>
    cipher_framed A L rx (with_len n1 (StreamChunk_of (stream_sid s) fl1 b1 (length b1))) f1 rx' \<and>
    cipher_framed A L ry (with_len n2 (StreamChunk_of (stream_sid s) fl2 b2 (length b2))) f2 ry'"
proof -
  have "distinct (filter (\<lambda>c. c \<noteq> None) (session_conns sr m))" using mgr(1,2) by (simp add: manager_inv_def)
  then have xy: "x \<noteq> y" by (simp add: mgr(3))
  define fl1 where "fl1 = chunk_flag is_entry s"
  define s1 where "s1 = s\<lparr>write_bytes := write_bytes s + word_of_nat (length b1)\<rparr>"
  define fl2 where "fl2 = chunk_flag is_entry s1"
  let ?e1 = "StreamChunk_of (stream_sid s) fl1 b1 (length b1)" and ?e2 = "StreamChunk_of (stream_sid s) fl2 b2 (length b2)"
  from Wire_framed [OF lib wx chunk_event_wf [OF len(1)], of tm "stream_sid s" fl1] obtain wx' f1 n1 rx' where
    e1: "MuxConnection_Write (CipherContext_Encrypt A L) wire_write tm wx ?e1 = (True, wx')" "io_conn wx' = io_conn wx @ f1"
      "cipher_framed A L rx (with_len n1 ?e1) f1 rx'" by blast
  from Wire_framed [OF lib wy chunk_event_wf [OF len(2)], of tm "stream_sid s" fl2] obtain wy' f2 n2 ry' where
    e2: "MuxConnection_Write (CipherContext_Encrypt A L) wire_write tm wy ?e2 = (True, wy')" "io_conn wy' = io_conn wy @ f2"
      "cipher_framed A L ry (with_len n2 ?e2) f2 ry'" by blast
  let ?m1 = "m\<lparr>conn_store := (conn_store m)(x \<mapsto> wx')\<rparr>"
  let ?W1 = "put_stream p s1 (W\<lparr>outer := (?m1, h @ [?e1])\<rparr>)"
  have run1: "run_writer ops (sr, 0) ?e1 (m, h) = (True, ?m1, h @ [?e1])"
    unfolding ops_def by (rule session_ops_run [OF _ _ mgr(4) e1(1)]) (simp_all add: mgr(3))
  have "MuxStream_WriteEvent ops p ?e1 (put_stream p s1 W) = (True, ?W1)"
    using WriteEvent_success [of "put_stream p s1 W" p s1 "(sr, 0)" ops ?e1 "(?m1, h @ [?e1])"] run1 s
    by (simp add: s1_def put_stream_def)
  then have w1: "MuxStream_Write ops is_entry p b1 (length b1) W = (Ok, ?W1)"
    unfolding fl1_def s1_def by (rule MuxStream_Write_ok [OF s(1)])
  let ?m2 = "MuxConnManager_Remove user cid x ?m1"
  have "manager_inv ?m1" "find_session user cid (conn_type wx) ?m1 = Some sr" using mgr(1,2) by simp_all
  moreover have "conn_type wx = conn_type (the (conn_store ?m1 x))" using Write_keeps [OF e1(1)] by simp
  ultimately have slots: "session_conns sr ?m2 = [None, Some y]"
    using Remove_spec(1) [of ?m1 "conn_type wx" x user cid sr ?m2] mgr(3) xy by (simp add: clear_slot_def)
  have cs: "conn_store ?m2 = (conn_store m)(x \<mapsto> wx')" by (simp add: Remove_conn_store)
  let ?m3 = "?m2\<lparr>conn_store := (conn_store ?m2)(y \<mapsto> wy')\<rparr>" and ?h1 = "h @ [?e1]"
  let ?s2 = "s1\<lparr>write_bytes := write_bytes s1 + word_of_nat (length b2)\<rparr>"
  let ?V = "put_stream p ?s2 (?W1\<lparr>outer := (?m2, ?h1)\<rparr>)"
  have gone: "run_writer ops (sr, 0) ?e2 (outer ?V) = (False, ?m2, ?h1)"
    unfolding ops_def put_stream_def by simp (rule session_ops_gone; simp add: slots)
  have again: "make_writer ops (?m2, ?h1) = Some (sr, 1)"
    using slots by (simp add: ops_def session_ops_def select_second session_conns_def)
  have run2: "run_writer ops (sr, 1) ?e2 (?m2, ?h1) = (True, ?m3, ?h1 @ [?e2])"
    unfolding ops_def by (rule session_ops_run [OF _ _ _ e2(1)]) (simp_all add: slots cs mgr(5) xy [symmetric])
  have "stream_objs ?V p = Some ?s2" "event_writer ?s2 = Some (sr, 0)" using s by (simp_all add: put_stream_def s1_def)
  note mig = WriteEvent_migrates [OF this gone again run2]
  have "stream_objs (?W1\<lparr>outer := (?m2, ?h1)\<rparr>) p = Some s1" "stream_sid s1 = stream_sid s"
    by (simp_all add: put_stream_def s1_def)
  from MuxStream_Write_ok [OF this(1), unfolded this(2), OF mig [unfolded fl2_def]]
  have w2: "MuxStream_Write ops is_entry p b2 (length b2) (?W1\<lparr>outer := (?m2, ?h1)\<rparr>) =
      (Ok, put_stream p (?s2\<lparr>event_writer := Some (sr, 1)\<rparr>) (?V\<lparr>outer := (?m3, ?h1 @ [?e2])\<rparr>))"
    by (simp only: fl2_def)
  have o1: "outer ?W1 = (?m1, ?h1)" by (simp add: put_stream_def)
  have o2: "outer (put_stream p (?s2\<lparr>event_writer := Some (sr, 1)\<rparr>) (?V\<lparr>outer := (?m3, ?h1 @ [?e2])\<rparr>)) = (?m3, ?h1 @ [?e2])"
    by (simp add: put_stream_def)
  have c: "conn_store ?m3 x = Some wx'" "conn_store ?m3 y = Some wy'" using xy by (simp_all add: cs)
  show ?thesis by (intro exI conjI) (rule w1 o1 w2 o2 c e1 e2)+
qed

subsection \<open>The receiver\<close>

text \<open>The stream is registered, open and empty.\<close>

definition stream_idle :: "u64 \<Rightarrow> u32 \<Rightarrow> nat \<Rightarrow> ('k, 'w) mux_world \<Rightarrow> bool" where
  "stream_idle cid sid q W \<longleftrightarrow> MuxStream_Get cid sid W = Some q \<and>
     (\<exists>s. stream_objs W q = Some s \<and> \<not> closed s \<and> \<not> channel_closed s \<and> data_channel s = [])"

text \<open>A chunk that arrives and is read leaves the stream as it was, and the other connections alone.\<close>

lemma chunk_passes:
  assumes live: "live_connection (ne_rd env) pend ok" and dec: "ne_dec env = CipherContext_Decrypt A L"
    and r: "reader_ok ok (get_conn x N)" "unread pend (get_conn x N) = f @ rest" "client_id (get_conn x N) = cid"
    and fr: "cipher_framed A L (cipher_ctx (get_conn x N)) (with_len n (StreamChunk_of sid fl buf (length buf))) f r'"
    and q: "stream_idle cid sid q (nd_streams N)" and buf: "length buf \<le> kMaxChunkSize"
  shows "\<exists>N1 W. ProcessReadEvent env server_relay cb x N = Some (Finished 0 N1) \<and>
    MuxStream_Read q (nd_streams N1) = Some ((Some buf, length buf, Ok), W) \<and> stream_idle cid sid q W \<and>
    (\<forall>y. y \<noteq> x \<longrightarrow> get_conn y (N1\<lparr>nd_streams := W\<rparr>) = get_conn y N)"
proof -
  let ?e = "with_len n (StreamChunk_of sid fl buf (length buf))"
  have len: "unat (word_of_nat (length buf) :: u32) = length buf" using buf by (simp add: unat_of_nat)
  have e: "head_type (ev_head ?e) = EVENT_STREAM_CHUNK" "head_sid (ev_head ?e) = sid"
      "ev_body ?e = StreamChunk buf (word_of_nat (length buf))"
    by (simp_all add: StreamChunk_of_def make_event_def)
  from ProcessReadEvent_frame [OF live dec r(1,2) fr, of server_relay cb] obtain c where
    "ProcessReadEvent env server_relay cb x N = Some (process_event env server_relay cb x ?e (set_conn x c N))" "client_id c = cid"
    using r(3) by auto
  then show ?thesis using q e len
    by (auto simp: stream_idle_def process_event_def on_stream_chunk_def MuxStream_Offer_def MuxStream_Read_def MuxStream_Get_def
        put_stream_def Let_def split: option.splits if_splits)
qed

subsection \<open>Both\<close>

text \<open>A frame is next on a connection of a client.\<close>

definition frame_waits ::
  "('s \<Rightarrow> bytes) \<Rightarrow> ('s \<Rightarrow> bool) \<Rightarrow> u64 \<Rightarrow> 'c CipherContext \<Rightarrow> bytes \<Rightarrow> nat \<Rightarrow> ('c CipherContext, 's, 'e, 'k, 'w) node \<Rightarrow> bool" where
  "frame_waits pend ok cid r f x N \<longleftrightarrow> reader_ok ok (get_conn x N) \<and> client_id (get_conn x N) = cid \<and>
     cipher_ctx (get_conn x N) = r \<and> (\<exists>rest. unread pend (get_conn x N) = f @ rest)"

lemma second_chunk_first:
  assumes live: "live_connection (ne_rd env) pend ok" "ne_dec env = CipherContext_Decrypt A L" and uv: "u \<noteq> v"
    and u: "frame_waits pend ok cid rx f1 u N" and v: "frame_waits pend ok cid ry f2 v N"
    and fr1: "cipher_framed A L rx (with_len n1 (StreamChunk_of sid fl1 b1 (length b1))) f1 rx'"
    and fr2: "cipher_framed A L ry (with_len n2 (StreamChunk_of sid fl2 b2 (length b2))) f2 ry'"
    and q: "stream_idle cid sid q (nd_streams N)" and len: "length b1 \<le> kMaxChunkSize" "length b2 \<le> kMaxChunkSize"
  shows "\<exists>N1 V1 N2 V2. ProcessReadEvent env server_relay cb v N = Some (Finished 0 N1) \<and>
    MuxStream_Read q (nd_streams N1) = Some ((Some b2, length b2, Ok), V1) \<and>
    ProcessReadEvent env server_relay cb u (N1\<lparr>nd_streams := V1\<rparr>) = Some (Finished 0 N2) \<and>
    MuxStream_Read q (nd_streams N2) = Some ((Some b1, length b1, Ok), V2)"
proof -
  obtain r1 r2 where u': "reader_ok ok (get_conn u N)" "unread pend (get_conn u N) = f1 @ r1" "client_id (get_conn u N) = cid"
      "cipher_framed A L (cipher_ctx (get_conn u N)) (with_len n1 (StreamChunk_of sid fl1 b1 (length b1))) f1 rx'"
    and v': "reader_ok ok (get_conn v N)" "unread pend (get_conn v N) = f2 @ r2" "client_id (get_conn v N) = cid"
      "cipher_framed A L (cipher_ctx (get_conn v N)) (with_len n2 (StreamChunk_of sid fl2 b2 (length b2))) f2 ry'"
    using u v fr1 fr2 by (auto simp: frame_waits_def)
  from chunk_passes [OF live v' q len(2), of server_relay cb] obtain N1 V1 where
    one: "ProcessReadEvent env server_relay cb v N = Some (Finished 0 N1)"
      "MuxStream_Read q (nd_streams N1) = Some ((Some b2, length b2, Ok), V1)" "stream_idle cid sid q V1"
    and keep: "get_conn u (N1\<lparr>nd_streams := V1\<rparr>) = get_conn u N" using uv by blast
  have idle: "stream_idle cid sid q (nd_streams (N1\<lparr>nd_streams := V1\<rparr>))" using one(3) by simp
  from chunk_passes [OF live u' [folded keep] idle len(1), of server_relay cb] one show ?thesis by blast
qed

text \<open>C29: a stream that changes its connection may be reordered.  A node has a session with two connections
  and a stream whose writer is bound to the first.  The stream writes a chunk, the connection is
  retired and removed from the session, as the handler of a retire request does, and the stream writes
  another chunk.  Both writes succeed, with a frame on each connection.  At a synchronised peer, where
  both connections are of the same client, each has its frame to read and the stream is open and
  idle, the read loop of the second connection may run first: the stream then gives out the second
  chunk before the first.\<close>

theorem retirement_reorders_stream:
  assumes ops_def: "ops = session_ops (CipherContext_Encrypt A L) wire_write tm sr" and lib: "aead_ok A" "pb_lib_ok L"
    and mgr: "manager_inv m" "find_session user cid (conn_type wx) m = Some sr" "session_conns sr m = [Some x, Some y]"
      "conn_store m x = Some wx" "conn_store m y = Some wy"
    and wx: "writer_ok wx" "synced (cipher_ctx wx) rx" and wy: "writer_ok wy" "synced (cipher_ctx wy) ry"
    and s: "stream_objs W p = Some s" "event_writer s = Some (sr, 0)" "outer W = (m, h)"
    and len: "length b1 \<le> kMaxChunkSize" "length b2 \<le> kMaxChunkSize"
    and peer: "live_connection (ne_rd env) pend ok" "ne_dec env = CipherContext_Decrypt A L" "u \<noteq> v"
  shows "\<exists>W1 m1 h1 W2 m2 h2 f1 f2.
    MuxStream_Write ops is_entry p b1 (length b1) W = (Ok, W1) \<and> outer W1 = (m1, h1) \<and>
    MuxStream_Write ops is_entry p b2 (length b2) (W1\<lparr>outer := (MuxConnManager_Remove user cid x m1, h1)\<rparr>) = (Ok, W2) \<and>
    outer W2 = (m2, h2) \<and> io_conn (the (conn_store m2 x)) = io_conn wx @ f1 \<and> io_conn (the (conn_store m2 y)) = io_conn wy @ f2 \<and>
    (\<forall>N c q. frame_waits pend ok c rx f1 u N \<longrightarrow> frame_waits pend ok c ry f2 v N \<longrightarrow>
      stream_idle c (stream_sid s) q (nd_streams N) \<longrightarrow>
      (\<exists>N1 V1 N2 V2. ProcessReadEvent env server_relay cb v N = Some (Finished 0 N1) \<and>
         MuxStream_Read q (nd_streams N1) = Some ((Some b2, length b2, Ok), V1) \<and>
         ProcessReadEvent env server_relay cb u (N1\<lparr>nd_streams := V1\<rparr>) = Some (Finished 0 N2) \<and>
         MuxStream_Read q (nd_streams N2) = Some ((Some b1, length b1, Ok), V2)))"
proof -
  from chunks_part [OF ops_def lib mgr wx wy s len, of is_entry]
  obtain W1 m1 h1 W2 m2 h2 wx' wy' fl1 n1 f1 rx' fl2 n2 f2 ry' where
    w: "MuxStream_Write ops is_entry p b1 (length b1) W = (Ok, W1)" "outer W1 = (m1, h1)"
      "MuxStream_Write ops is_entry p b2 (length b2) (W1\<lparr>outer := (MuxConnManager_Remove user cid x m1, h1)\<rparr>) = (Ok, W2)"
      "outer W2 = (m2, h2)" "conn_store m2 x = Some wx'" "io_conn wx' = io_conn wx @ f1" "conn_store m2 y = Some wy'"
      "io_conn wy' = io_conn wy @ f2"
    and fr: "cipher_framed A L rx (with_len n1 (StreamChunk_of (stream_sid s) fl1 b1 (length b1))) f1 rx'"
      "cipher_framed A L ry (with_len n2 (StreamChunk_of (stream_sid s) fl2 b2 (length b2))) f2 ry'" by metis
  have fs: "io_conn (the (conn_store m2 x)) = io_conn wx @ f1" "io_conn (the (conn_store m2 y)) = io_conn wy @ f2"
    using w(5-8) by simp_all
  have rx: "\<forall>N c q. frame_waits pend ok c rx f1 u N \<longrightarrow> frame_waits pend ok c ry f2 v N \<longrightarrow>
      stream_idle c (stream_sid s) q (nd_streams N) \<longrightarrow>
      (\<exists>N1 V1 N2 V2. ProcessReadEvent env server_relay cb v N = Some (Finished 0 N1) \<and>
         MuxStream_Read q (nd_streams N1) = Some ((Some b2, length b2, Ok), V1) \<and>
         ProcessReadEvent env server_relay cb u (N1\<lparr>nd_streams := V1\<rparr>) = Some (Finished 0 N2) \<and>
         MuxStream_Read q (nd_streams N2) = Some ((Some b1, length b1, Ok), V2))"
    by (intro allI impI) (rule second_chunk_first [OF peer _ _ fr _ len]; assumption)
  show ?thesis
    by (rule exI [of _ W1], rule exI [of _ m1], rule exI [of _ h1], rule exI [of _ W2], rule exI [of _ m2], rule exI [of _ h2],
        rule exI [of _ f1], rule exI [of _ f2], intro conjI) (rule w(1-4) fs rx)+
qed

text \<open>A session of two connections that has been built by adding them, and a stream bound to the first;
  the peer reads each connection from its own socket.\<close>

definition sample_pair :: "(bytes CipherContext, bytes) MuxConnManager" where
  "sample_pair = snd (snd (MuxConnManager_Add [117] 9 1 (snd (snd (MuxConnManager_Add [117] 9 0
     (MuxConnManager_init [0 \<mapsto> sample_conn [], 1 \<mapsto> sample_conn []]))))))"

definition sample_sender ::
  "(nat \<times> nat, (bytes CipherContext, bytes) MuxConnManager \<times> MuxEvent list) mux_world" where
  "sample_sender = snd (MuxStream_New (session_ops (CipherContext_Encrypt ref_aead ref_pb) wire_write (\<lambda>_. 0) 0) 9 1
     (mux_world_init (sample_pair, [])))"

definition sample_peer :: "bytes \<Rightarrow> bytes \<Rightarrow> (bytes CipherContext, bytes list, u16, unit, MuxEvent list \<times> nat) node" where
  "sample_peer f1 f2 = (sample_node [])\<lparr>nd_mgr := MuxConnManager_init
     [0 \<mapsto> (sample_conn [f1])\<lparr>client_id := 9\<rparr>, 1 \<mapsto> (sample_conn [f2])\<lparr>client_id := 9\<rparr>]\<rparr>"

lemma sample_peer_waits:
  "frame_waits concat (\<lambda>_. True) 9 sample_ctx f1 0 (sample_peer f1 f2)"
  "frame_waits concat (\<lambda>_. True) 9 sample_ctx f2 1 (sample_peer f1 f2)"
  "stream_idle 9 1 0 (nd_streams (sample_peer f1 f2))"
proof -
  have "get_conn 0 (sample_peer f1 f2) = get_conn 0 (sample_node [f1])" "get_conn 1 (sample_peer f1 f2) = get_conn 0 (sample_node [f2])"
    by (simp_all add: sample_node_conn(1)) (simp_all add: sample_peer_def get_conn_def MuxConnManager_init_def)
  then show "frame_waits concat (\<lambda>_. True) 9 sample_ctx f1 0 (sample_peer f1 f2)"
    "frame_waits concat (\<lambda>_. True) 9 sample_ctx f2 1 (sample_peer f1 f2)"
    by (simp_all add: frame_waits_def sample_node_conn) (simp_all add: sample_node_conn(3,5) [unfolded sample_node_conn(1)] sample_conn_simps)
  show "stream_idle 9 1 0 (nd_streams (sample_peer f1 f2))"
    by (simp add: sample_peer_def stream_idle_def sample_node_conn(2) sample_world_stream)
qed

lemma sample_pair_reachable: "manager_reachable sample_pair"
  unfolding sample_pair_def
  by (intro manager_reachable.intros)
    (auto simp: MuxConnManager_init_def MuxConnManager_Add_def GetSession_def GetUserMuxConn_def put_conn_def sample_conn_def
      MuxConnection_new_def Let_def split: if_splits)

lemma sample_pair_simps:
  "find_session [117] 9 (conn_type (sample_conn ([] :: bytes))) sample_pair = Some 0" "session_conns 0 sample_pair = [Some 0, Some 1]"
  "conn_store sample_pair 0 = Some (sample_conn [])" "conn_store sample_pair 1 = Some (sample_conn [])"
  by (simp_all add: sample_pair_def MuxConnManager_init_def MuxConnManager_Add_def GetSession_def GetUserMuxConn_def put_conn_def
      find_session_def session_conns_def sample_conn_def MuxConnection_new_def Let_def)

lemma sample_sender_stream:
  "\<exists>s. stream_objs sample_sender 0 = Some s \<and> event_writer s = Some (0, 0) \<and> stream_sid s = 1" "outer sample_sender = (sample_pair, [])"
  using sample_pair_simps(2-4)
  by (auto simp: ComparePriority_def sample_sender_def MuxStream_New_def mux_world_init_def Let_def session_ops_def session_writer_def session_conns_def
      select_conn_def)

theorem retirement_reorders_stream_witness:
  "\<exists>W1 m1 h1 W2 N N1 V1 N2 V2.
     MuxStream_Write (session_ops (CipherContext_Encrypt ref_aead ref_pb) wire_write (\<lambda>_. 0) 0) True 0 [5, 6] 2 sample_sender = (Ok, W1) \<and>
     outer W1 = (m1, h1) \<and>
     MuxStream_Write (session_ops (CipherContext_Encrypt ref_aead ref_pb) wire_write (\<lambda>_. 0) 0) True 0 [7] 1
       (W1\<lparr>outer := (MuxConnManager_Remove [117] 9 0 m1, h1)\<rparr>) = (Ok, W2) \<and>
     ProcessReadEvent sample_env True None 1 N = Some (Finished 0 N1) \<and>
     MuxStream_Read 0 (nd_streams N1) = Some ((Some [7], 1, Ok), V1) \<and>
     ProcessReadEvent sample_env True None 0 (N1\<lparr>nd_streams := V1\<rparr>) = Some (Finished 0 N2) \<and>
     MuxStream_Read 0 (nd_streams N2) = Some ((Some [5, 6], 2, Ok), V2)"
proof -
  have env: "ne_rd sample_env = script_read" "ne_dec sample_env = CipherContext_Decrypt ref_aead ref_pb" by (simp_all add: sample_env_def)
  obtain s where s: "stream_objs sample_sender 0 = Some s" "event_writer s = Some (0, 0)" "stream_sid s = 1"
    using sample_sender_stream(1) by blast
  have sy: "synced (cipher_ctx (sample_conn ([] :: bytes))) sample_ctx" by (simp add: sample_conn_simps sample_ctx_synced)
  have len: "length [5 :: u8, 6] \<le> kMaxChunkSize" "length [7 :: u8] \<le> kMaxChunkSize" by simp_all
  have uv: "(0 :: nat) \<noteq> 1" by simp
  note reorder = retirement_reorders_stream [OF refl ref_aead_ok ref_pb_ok manager_reachable_inv [OF sample_pair_reachable]
      sample_pair_simps sample_conn_simps(1) sy sample_conn_simps(1) sy s(1,2) sample_sender_stream(2) len
      scripted.live_connection_axioms [folded env(1)] env(2) uv, of "\<lambda>_. 0" True True None, unfolded s(3)]
  have "length [5 :: u8, 6] = 2" "length [7 :: u8] = 1" by simp_all
  with reorder sample_peer_waits show ?thesis by (simp only:) metis
qed

end
