(* ===== verification/Spec2Isabelle.thy ===== *)
theory Spec2Isabelle
  imports Mux_Conn_Manager Mux_Auth Relay_Session Iobuf_Pool Session_Setup Web_Socket Entry_Server Snova_Main Mux_Transport Statistics Tls_Socket End_To_End Stream_Order Stream_Migration
begin

text \<open>
  A model of snova, a private proxy (C++20 with coroutines over asio, \<^verbatim>\<open>src/snova\<close>), and the theorems
  that make its parts correct.

  \<^bold>\<open>The program.\<close>  A node runs in one of three roles.  An \<^emph>\<open>entry\<close> node accepts SOCKS5, HTTP-proxy, TLS and
  redirected connections of local users; an \<^emph>\<open>exit\<close> node connects to the destinations; a \<^emph>\<open>middle\<close> node
  passes on.  Nodes are joined by mux connections: encrypted connections, plain or over TLS and web
  sockets, each carrying the events of many streams.  A user's connection becomes a stream: its bytes are
  chunk events, sealed, written under an asynchronous mutex to the connection with the least recent
  load, read and opened by the peer, handed to the stream of the same id and relayed to the
  destination.  Beside this a node opens tunnel listeners for its peers and may run a DNS proxy.  One
  thread runs all coroutines, so code is interleaved at \<^verbatim>\<open>co_await\<close> only.

  \<^bold>\<open>How it is modelled.\<close>  Pure code is a function; a struct or class is a record, an enum or a class
  hierarchy a datatype; integers keep their width as words where they can wrap.  Shared objects live in
  stores and are references.  A coroutine whose interleaving matters is cut at its suspension points
  into one definition per stretch, and a step relation interleaves them; a coroutine that runs alone on
  its state is one function.  Error codes are results.  Loops that may not end are partial functions
  into \<open>option\<close>, \<open>None\<close> being that they never return; there is no fuel.  Raw-pointer parsers return a
  separate value for an access outside the buffer.  Third-party code (nanopb, BoringSSL, asio, Abseil)
  is a parameter; what is relied on is a named predicate (\<open>pb_lib_ok\<close>, \<open>aead_ok\<close>, \<open>StrSplit_ok\<close>,
  \<open>SimpleAtoi_ok\<close>, \<open>StripAsciiWhitespace_ok\<close>, \<open>Base64_ok\<close>) or a locale (\<open>io_connection\<close>), and concrete
  functions that satisfy it are in \<^verbatim>\<open>Reference_Libs\<close> and beside the definitions.

  \<^bold>\<open>Wire format.\<close>
  \<^item> \<^verbatim>\<open>Snova_Prelude\<close>: words, byte strings, \<^verbatim>\<open>util/endian.h\<close>, \<^verbatim>\<open>memcpy\<close> into buffers, \<^verbatim>\<open>snprintf\<close>, \<^verbatim>\<open>find\<close>; the rewrite
    collections \<open>wire_simps\<close> and \<open>buf_simps\<close>.
  \<^item> \<^verbatim>\<open>Mux_Event\<close>: \<^verbatim>\<open>mux/mux_event.h\<close>, \<^verbatim>\<open>mux_event.cc\<close>: event heads and bodies, encoding and decoding.
  \<^item> \<^verbatim>\<open>Cipher_Context\<close>: \<^verbatim>\<open>mux/cipher_context.cc\<close>: sealing an event into a frame and opening it, with nonce counters
    and buffers.  \<^verbatim>\<open>Frame_Codec\<close>: the contract of a frame decoder (locale \<open>frame_codec\<close>), its
    interpretation on \<open>CipherContext_Decrypt\<close> with frames of at most 8360 bytes, the round trip, and what
    goes wrong without a cipher and with oversized chunks.

  \<^bold>\<open>Connections.\<close>
  \<^item> \<^verbatim>\<open>Io_Connection\<close>: \<^verbatim>\<open>io/io.h\<close>, \<^verbatim>\<open>buffered_io.cc\<close>, \<^verbatim>\<open>io_util.cc\<close>: byte-stream connections (locales \<open>io_connection\<close> and
    \<open>live_connection\<close>), the buffering connection as an instance over any other, exact reads and reads up to a
    pattern.
  \<^item> \<^verbatim>\<open>Async_Mutex\<close>: \<^verbatim>\<open>util/async_channel_mutex.cc\<close> with any number of coroutines: exclusion, no lost wake-up.
  \<^item> \<^verbatim>\<open>Mux_Connection\<close>: \<^verbatim>\<open>mux/mux_connection.cc\<close>: state, counters, \<open>ReadEvent\<close>, \<open>Write\<close>, \<open>Close\<close>.  The locale \<open>event_reader\<close>
    joins \<open>live_connection\<close> and \<open>frame_codec\<close>: events are read back in order however the bytes are cut; the
    read buffer of 16384 bytes exceeds every frame, so that \<open>ReadEvent\<close> always returns.
  \<^item> \<^verbatim>\<open>Mux_Auth\<close>: its handshakes.  \<^verbatim>\<open>Mux_Dispatch\<close>: \<open>ProcessReadEvent\<close> and \<open>ReadEventLoop\<close> on the record \<open>node\<close> of all global
    tables: whatever arrives, an event has the class its head names; every event touches only the part
    it is for, and a chunk reaches its stream.
  \<^item> \<^verbatim>\<open>Tls_Socket\<close>: \<^verbatim>\<open>io/tls_socket.cc\<close>, \<^verbatim>\<open>io/tcp_socket.cc\<close>: the connections over asio's sockets, whose operations are a
    record; a TLS socket over a \<open>live_connection\<close> is one.
  \<^item> \<^verbatim>\<open>Http_Helper\<close>, \<^verbatim>\<open>Web_Socket\<close>: \<^verbatim>\<open>util/http_helper.cc\<close>, \<^verbatim>\<open>io/ws_socket.cc\<close>: handshake and framing.  \<^verbatim>\<open>Mux_Transport\<close>: a mux
    connection over a web socket (locales \<open>message_transport\<close> and \<open>message_reader\<close>, interpreted on the web
    socket's read).

  \<^bold>\<open>Streams, sessions and relays.\<close>
  \<^item> \<^verbatim>\<open>Mux_Stream\<close>: \<^verbatim>\<open>mux/mux_stream.cc\<close>: the stream table, ids, reads, writes and closing over an event writer (locale
    \<open>event_sink\<close>).
  \<^item> \<^verbatim>\<open>Mux_Conn_Manager\<close>: \<^verbatim>\<open>mux/mux_conn_manager.cc\<close>: users, sessions, and the choice of a connection (locale \<open>priority\<close>,
    interpreted on \<open>ComparePriority\<close>); its writers are an instance of \<open>event_sink\<close>.
  \<^item> \<^verbatim>\<open>Mux_Server\<close>, \<^verbatim>\<open>Mux_Client\<close>: \<^verbatim>\<open>server/mux_server.cc\<close>, \<^verbatim>\<open>mux/mux_client.cc\<close>: the life of a connection on either side; the
    manager refines sets of active connections; slots are freed by their own connection and filled again.
    \<^verbatim>\<open>Session_Setup\<close>: both sides together, from the client's dial to a connection in service at both ends.
  \<^item> \<^verbatim>\<open>Relay\<close>: \<^verbatim>\<open>io/transfer.cc\<close>, \<^verbatim>\<open>server/relay.cc\<close>: both directions of a relay interleaved (locale \<open>relay_pair\<close>,
    interpreted on socket-to-stream and stream-to-socket): what goes out is what came in, and one
    direction's end winds down the other.
  \<^item> \<^verbatim>\<open>Relay_Session\<close>: the whole of \<^verbatim>\<open>do_relay\<close> with its timer, from set-up to return (\<open>session_step\<close>), as a refinement
    of the runs of \<^verbatim>\<open>Relay\<close>: the timer closes idle relays only and does not outlive its relay.
  \<^item> \<^verbatim>\<open>Stream_Order\<close>: the chunks of a stream from the connection's read loop to the stream's reader under any
    interleaving (\<open>stream_runs\<close>): in order, nothing stuck, at most two held back; and over the cipher from what the
    other node wrote.
  \<^item> \<^verbatim>\<open>Stream_Migration\<close>: the limit of that order: a stream whose connection is retired goes on with another one, and
    what it wrote before and after may change places.
  \<^item> \<^verbatim>\<open>End_To_End\<close>: an entry and an exit node together, from the set-up of a relay over session, connection and
    cipher to the read loop, the stream-open handler and the destination's socket at the other end.  The
    theorem takes the steps in the order in which asio runs them when the handler starts before the
    next event is read.
  \<^item> \<^verbatim>\<open>Tunnel_Server\<close>: \<^verbatim>\<open>server/tunnel_server.cc\<close>: the listeners of tunnels and their two tables.

  \<^bold>\<open>The edges.\<close>
  \<^item> \<^verbatim>\<open>Net_Address\<close>: \<^verbatim>\<open>util/address.cc\<close>, \<^verbatim>\<open>tunnel_opt.cc\<close>.  \<^verbatim>\<open>Sni\<close>: \<^verbatim>\<open>util/sni.cc\<close>, shown to stay inside its input.
  \<^item> \<^verbatim>\<open>Entry_Server\<close>: \<^verbatim>\<open>server/entry_server.cc\<close>, \<^verbatim>\<open>socks5.cc\<close>, \<^verbatim>\<open>tls.cc\<close>, \<^verbatim>\<open>http.cc\<close>: from the first bytes of a user's connection to
    the relay it gets.
  \<^item> \<^verbatim>\<open>Net_Helper\<close>, \<^verbatim>\<open>Dns_Proxy\<close>: \<^verbatim>\<open>util/net_helper.cc\<close>, \<^verbatim>\<open>dns_options.cc\<close>, \<^verbatim>\<open>server/dns_proxy_server.cc\<close>: DNS messages, address
    ranges, and the table of pending queries under any order of queries, answers and timeouts.
  \<^item> \<^verbatim>\<open>Time_Wheel\<close>, \<^verbatim>\<open>Iobuf_Pool\<close>: \<^verbatim>\<open>util/time_wheel.cc\<close>, \<^verbatim>\<open>io/io.cc\<close>: timers and the buffer pool, with their accounting; a
    timer goes off at most 195 rounds of the loop late.
  \<^item> \<^verbatim>\<open>Statistics\<close>: \<^verbatim>\<open>util/stat.cc\<close> and the functions registered with it: the report's table, and the closing of
    idle connections, which happens nowhere else.
  \<^item> \<^verbatim>\<open>Snova_Main\<close>: \<^verbatim>\<open>app/snova.cc\<close>, \<^verbatim>\<open>util/flags.cc\<close>: from the parsed command line to the tasks that are spawned.

  \<^bold>\<open>Not modelled.\<close>  Logging (\<^verbatim>\<open>log/log_macros.h\<close>, and \<^verbatim>\<open>GetReadState\<close>, which only logs call) has no effect on the
  modelled state.  \<^verbatim>\<open>util/misc_helper.cc\<close> is a random number and a hash of libraries.  The nanopb tables
  \<^verbatim>\<open>mux_event.pb.c\<close> are generated.  The command-line parser and the event loop are libraries.  The pacing of
  loops by timers is asio's: the model has the rounds, in any number.  What is left of \<^verbatim>\<open>src/snova\<close> are
  declarations, commented-out code, the text of an error page and tests.  Secrecy of the cipher is no
  subject of this development; that head and body of an event share a nonce is recorded as a finding.
\<close>

end
